(* ===== verification/Prelude.thy ===== *)
theory Prelude
  imports Main "HOL-Library.Sublist" "HOL-Library.Char_ord"
begin

text \<open>
  Shared vocabulary of the development.

  A Go string or byte slice is a list of bytes; the byte type is \<^typ>\<open>char\<close>, whose 256
  values are exactly the bytes, so \<^term>\<open>length\<close> is Go's \<^verbatim>\<open>len\<close>.  A Go
  \<^verbatim>\<open>error\<close> result is an option (\<^term>\<open>None\<close> is \<^verbatim>\<open>nil\<close>), a Go pair
  \<^verbatim>\<open>(value, error)\<close> is a sum with the error on the left.

  The theory also holds the generic list lemmas the components share: splitting a
  byte string at a separator and joining it again, and characters of a fixed charset.
\<close>

type_synonym bytes = "char list"

named_theorems route_defs \<open>handlers, routes and middleware, unfolded to the operation that serves a request\<close>
named_theorems flag_defs \<open>the flag tables of the command line tools\<close>

section \<open>Splitting and joining\<close>

fun split_on :: "'a \<Rightarrow> 'a list \<Rightarrow> 'a list list" where
  "split_on c [] = [[]]"
| "split_on c (x # xs) =
     (if x = c then [] # split_on c xs
      else (case split_on c xs of [] \<Rightarrow> [[x]] | w # ws \<Rightarrow> (x # w) # ws))"

fun join_with :: "'a \<Rightarrow> 'a list list \<Rightarrow> 'a list" where
  "join_with c [] = []"
| "join_with c [w] = w"
| "join_with c (w # v # ws) = w @ c # join_with c (v # ws)"

lemma split_on_not_Nil [simp]: "split_on c xs \<noteq> []"
  by (induction xs) (auto split: list.splits)

lemma split_on_append_sep:
  "split_on c (xs @ c # ys) = split_on c xs @ split_on c ys"
  by (induction xs) (auto split: list.splits)

lemma split_on_no_sep [simp]: "c \<notin> set xs \<Longrightarrow> split_on c xs = [xs]"
  by (induction xs) auto

lemma split_on_elem_no_sep: "w \<in> set (split_on c xs) \<Longrightarrow> c \<notin> set w"
  by (induction xs arbitrary: w) (auto split: list.splits if_splits)

lemma split_on_elems: "\<forall>w \<in> set (split_on c xs). c \<notin> set w"
  by (rule ballI) (rule split_on_elem_no_sep)

lemma join_with_Cons: "ws \<noteq> [] \<Longrightarrow> join_with c (w # ws) = w @ c # join_with c ws"
  by (cases ws) auto

lemma join_with_Cons_hd: "join_with c ((x # w) # ws) = x # join_with c (w # ws)"
  by (cases ws) auto

lemma join_split [simp]: "join_with c (split_on c xs) = xs"
proof (induction xs)
  case (Cons x xs)
  obtain w ws where "split_on c xs = w # ws"
    by (cases "split_on c xs") auto
  with Cons show ?case
    by (simp add: join_with_Cons_hd)
qed simp

lemma split_join:
  "ws \<noteq> [] \<Longrightarrow> \<forall>w \<in> set ws. c \<notin> set w \<Longrightarrow> split_on c (join_with c ws) = ws"
  by (induction c ws rule: join_with.induct) (auto simp: split_on_append_sep)

lemma join_with_append:
  "us \<noteq> [] \<Longrightarrow> vs \<noteq> [] \<Longrightarrow> join_with c (us @ vs) = join_with c us @ c # join_with c vs"
  by (induction c us rule: join_with.induct) (auto simp: join_with_Cons)

lemma join_with_eq_Nil: "[] \<notin> set ws \<Longrightarrow> join_with c ws = [] \<longleftrightarrow> ws = []"
  by (induction c ws rule: join_with.induct) auto

lemma set_join_with: "set (join_with c ws) \<subseteq> insert c (\<Union> (set ` set ws))"
  by (induction c ws rule: join_with.induct) auto

lemma split_on_inj: "split_on c xs = split_on c ys \<Longrightarrow> xs = ys"
  by (metis join_split)

lemma hd_join_with: "w \<noteq> [] \<Longrightarrow> hd (join_with c (w # ws)) = hd w"
  by (cases ws) auto

section \<open>Strings\<close>

text \<open>\<^verbatim>\<open>strings.ContainsAny\<close> on ASCII sets, \<^verbatim>\<open>strings.HasPrefix\<close>.\<close>

definition contains_any :: "string \<Rightarrow> string \<Rightarrow> bool" where
  "contains_any s cs = list_ex (\<lambda>c. c \<in> set cs) s"

definition has_prefix :: "string \<Rightarrow> string \<Rightarrow> bool" where
  "has_prefix s p = (take (length p) s = p)"

lemma contains_any_iff: "contains_any s cs \<longleftrightarrow> set s \<inter> set cs \<noteq> {}"
  by (auto simp: contains_any_def list_ex_iff)

lemma has_prefix_iff: "has_prefix s p \<longleftrightarrow> (\<exists>t. s = p @ t)"
  unfolding has_prefix_def by (metis append_eq_conv_conj append_take_drop_id)

text \<open>
  The charset \<^verbatim>\<open>[A-Za-z0-9_-]\<close>.  The code tests it by ranging over the runes of a
  string; a byte of 128 or more belongs to a rune outside the set (or to an invalid
  encoding, which ranges as U+FFFD), so the test is the same byte by byte.
\<close>

definition token_char :: "char \<Rightarrow> bool" where
  "token_char c =
     ((CHR ''a'' \<le> c \<and> c \<le> CHR ''z'') \<or> (CHR ''A'' \<le> c \<and> c \<le> CHR ''Z'') \<or>
      (CHR ''0'' \<le> c \<and> c \<le> CHR ''9'') \<or> c = CHR ''_'' \<or> c = CHR ''-'')"

end
