(* ===== verification/Event.thy ===== *)
theory Event
  imports Prelude
begin

text \<open>
  \<^verbatim>\<open>internal/event/event.go\<close>: the event record, the subject scheme of the bus and the
  rule for event types, and \<^verbatim>\<open>internal/workflow/workflow.go\<close>, the lifecycle states of a
  subscription.  A payload is its bytes; a nil payload is the empty list (every use of it
  in the program tests only its length or its bytes).
\<close>

record event =
  ev_type :: string
  ev_workflow :: string
  ev_payload :: bytes

definition subject_prefix :: string where "subject_prefix = ''bw.evt''"
definition subject_all :: string where "subject_all = subject_prefix @ ''.>''"
definition broadcast_type :: string where "broadcast_type = ''@broadcast''"
definition max_type_len :: nat where "max_type_len = 128"

definition subjects_for_workflow :: "string \<Rightarrow> string list" where
  "subjects_for_workflow workflow =
     (if workflow = [] then [subject_all]
      else [subject_prefix @ ''.*.'' @ workflow,
            subject_prefix @ ''.'' @ broadcast_type @ ''.>''])"

definition valid_type :: "string \<Rightarrow> bool" where
  "valid_type t =
     (if t = broadcast_type then True
      else if t = [] \<or> length t > max_type_len then False
      else list_all token_char t)"

lemmas event_consts = subject_prefix_def subject_all_def broadcast_type_def max_type_len_def

section \<open>Characters that never occur in a token\<close>

lemma no_special_token_char:
  "\<forall>c \<in> set '' .*>@:/''. \<not> token_char c"
  "\<forall>c \<in> set [CHR 0x09, CHR 0x0A, CHR 0x0D]. \<not> token_char c"
  by code_simp+

lemma token_char_not_special:
  "token_char c \<Longrightarrow> c \<notin> set '' .*>@:/''"
  "token_char c \<Longrightarrow> c \<notin> set [CHR 0x09, CHR 0x0A, CHR 0x0D]"
  by (rule notI, erule (1) notE [OF no_special_token_char(1) [rule_format]],
      rule notI, erule (1) notE [OF no_special_token_char(2) [rule_format]])

lemma token_chars_not_special:
  "list_all token_char t \<Longrightarrow> set t \<inter> set '' .*>@:/'' = {}"
  "list_all token_char t \<Longrightarrow> set t \<inter> set [CHR 0x09, CHR 0x0A, CHR 0x0D] = {}"
  unfolding list_all_iff disjoint_iff using token_char_not_special by blast+

lemma valid_type_chars:
  assumes "valid_type t"
  shows "t \<noteq> []" and "CHR ''.'' \<notin> set t" and "CHR ''*'' \<notin> set t" and "CHR ''>'' \<notin> set t"
    and "CHR '' '' \<notin> set t"
  using assms token_chars_not_special [of t]
  by (auto simp: valid_type_def broadcast_type_def split: if_splits)

lemma valid_type_length: "valid_type t \<Longrightarrow> length t \<le> 128"
  by (auto simp: valid_type_def event_consts split: if_splits)

section \<open>Workflow states\<close>

text \<open>\<^verbatim>\<open>State\<close> is an integer type with three named values; any other value renders as unknown.\<close>

type_synonym wf_state = int

definition StatePending :: wf_state where "StatePending = 0"
definition StateRunning :: wf_state where "StateRunning = 1"
definition StateStopped :: wf_state where "StateStopped = 2"

definition state_string :: "wf_state \<Rightarrow> string" where
  "state_string s =
     (if s = StatePending then ''pending''
      else if s = StateRunning then ''running''
      else if s = StateStopped then ''stopped''
      else ''unknown'')"

section \<open>Properties\<close>

text \<open>
  A valid event type is one subject token: splitting it at the separator yields the
  type itself, it is not empty, it has at most 128 bytes, no NATS wildcard and no space,
  and only the reserved broadcast type contains an at sign.
\<close>

lemma valid_type_single_token:
  assumes "valid_type t"
  shows "split_on (CHR ''.'') t = [t] \<and> 0 < length t \<and> length t \<le> 128 \<and>
    \<not> contains_any t '' *>'' \<and> (CHR ''@'' \<in> set t \<longleftrightarrow> t = broadcast_type)"
proof -
  have "CHR ''@'' \<in> set t \<longleftrightarrow> t = broadcast_type"
    using assms token_chars_not_special(1) [of t]
    by (auto simp: valid_type_def broadcast_type_def split: if_splits)
  with valid_type_chars [OF assms] valid_type_length [OF assms] show ?thesis
    by (auto simp: contains_any_iff)
qed

end
