(* ===== verification/Utf8.thy ===== *)
theory Utf8
  imports Prelude
begin

text \<open>
  UTF-8 as Go's \<^verbatim>\<open>unicode/utf8\<close> reads and writes it, on byte lists.
  \<^verbatim>\<open>multi_len s\<close> is the length of the well-formed multi-byte rune at the head of
  \<^verbatim>\<open>s\<close>, or 0 when the bytes there are not well formed (Go then yields U+FFFD and moves on by one byte).
\<close>

definition cont_byte :: "char \<Rightarrow> bool" where
  "cont_byte c = (CHR 0x80 \<le> c \<and> c \<le> CHR 0xBF)"

text \<open>The range of the second byte, by the first: Go's \<^verbatim>\<open>acceptRanges\<close>.\<close>

definition second_ok :: "char \<Rightarrow> char \<Rightarrow> bool" where
  "second_ok a b =
     (if a = CHR 0xE0 then CHR 0xA0 \<le> b \<and> b \<le> CHR 0xBF
      else if a = CHR 0xED then CHR 0x80 \<le> b \<and> b \<le> CHR 0x9F
      else if a = CHR 0xF0 then CHR 0x90 \<le> b \<and> b \<le> CHR 0xBF
      else if a = CHR 0xF4 then CHR 0x80 \<le> b \<and> b \<le> CHR 0x8F
      else cont_byte b)"

definition lead_len :: "char \<Rightarrow> nat" where
  "lead_len a =
     (if CHR 0xC2 \<le> a \<and> a \<le> CHR 0xDF then 2
      else if CHR 0xE0 \<le> a \<and> a \<le> CHR 0xEF then 3
      else if CHR 0xF0 \<le> a \<and> a \<le> CHR 0xF4 then 4 else 0)"

definition multi_len :: "bytes \<Rightarrow> nat" where
  "multi_len s =
     (case s of
        a # b # t \<Rightarrow>
          (if lead_len a = 0 \<or> \<not> second_ok a b then 0
           else if length (takeWhile cont_byte (take (lead_len a - 2) t)) = lead_len a - 2
           then lead_len a else 0)
      | _ \<Rightarrow> 0)"

definition rune_error :: bytes where
  "rune_error = [CHR 0xEF, CHR 0xBF, CHR 0xBD]"

text \<open>\<^verbatim>\<open>utf8.AppendRune\<close>: surrogates and values out of range are written as U+FFFD.\<close>

definition encode_rune :: "nat \<Rightarrow> bytes" where
  "encode_rune n =
     (if n < 0x80 then [char_of n]
      else if n < 0x800 then [char_of (0xC0 + n div 64), char_of (0x80 + n mod 64)]
      else if (0xD800 \<le> n \<and> n < 0xE000) \<or> 0x10FFFF < n then rune_error
      else if n < 0x10000 then
        [char_of (0xE0 + n div 4096), char_of (0x80 + n div 64 mod 64), char_of (0x80 + n mod 64)]
      else [char_of (0xF0 + n div 262144), char_of (0x80 + n div 4096 mod 64),
            char_of (0x80 + n div 64 mod 64), char_of (0x80 + n mod 64)])"

lemma lead_len_le: "lead_len a \<le> 4"
  by (simp add: lead_len_def)

lemma multi_len_cases: "multi_len s = 0 \<or> 2 \<le> multi_len s"
  by (auto simp: multi_len_def lead_len_def split: list.splits)

lemma length_takeWhile_eq: "length (takeWhile P xs) = length xs \<longleftrightarrow> list_all P xs"
  by (induction xs) auto

lemma multi_len_length: "multi_len s \<le> length s"
proof (cases "multi_len s = 0")
  case False
  then obtain a b t where s: "s = a # b # t" and l: "multi_len s = lead_len a"
    and w: "length (takeWhile cont_byte (take (lead_len a - 2) t)) = lead_len a - 2"
    by (auto simp: multi_len_def split: list.splits if_splits)
  have "length (takeWhile cont_byte (take (lead_len a - 2) t)) \<le> length t"
    using length_takeWhile_le [of cont_byte "take (lead_len a - 2) t"] by simp
  with s l w show ?thesis by simp
qed simp

text \<open>Only the bytes of the rune itself matter.\<close>

lemma multi_len_take:
  assumes "multi_len s = n" and "n \<noteq> 0"
  shows "multi_len (take n s @ t) = n"
proof -
  obtain a b u where s: "s = a # b # u" and l: "n = lead_len a"
    and so: "second_ok a b"
    and w: "length (takeWhile cont_byte (take (lead_len a - 2) u)) = lead_len a - 2"
    using assms by (auto simp: multi_len_def split: list.splits if_splits)
  have n2: "2 \<le> n" using assms multi_len_cases [of s] by simp
  then have tk: "take n s = a # b # take (n - 2) u"
    using s by (simp add: take_Cons' numeral_2_eq_2)
  have "length u \<ge> n - 2"
    using w l length_takeWhile_le [of cont_byte "take (lead_len a - 2) u"] by simp
  then have "take (lead_len a - 2) (take (n - 2) u @ t) = take (lead_len a - 2) u"
    using l by simp
  then have "multi_len (a # b # take (n - 2) u @ t) = multi_len (a # b # u)"
    by (simp add: multi_len_def)
  with tk s assms(1) show ?thesis by simp
qed

section \<open>Valid strings\<close>

text \<open>
  \<^verbatim>\<open>sanitize\<close> is what a string becomes when it is written to JSON and read back: every
  byte that belongs to no well-formed rune is replaced by U+FFFD.
\<close>

fun sanitize :: "bytes \<Rightarrow> bytes" where
  "sanitize [] = []"
| "sanitize (c # cs) =
     (if c < CHR 0x80 then c # sanitize cs
      else if multi_len (c # cs) = 0 then rune_error @ sanitize cs
      else take (multi_len (c # cs)) (c # cs) @ sanitize (drop (multi_len (c # cs) - 1) cs))"

fun valid_utf8 :: "bytes \<Rightarrow> bool" where
  "valid_utf8 [] = True"
| "valid_utf8 (c # cs) =
     (if c < CHR 0x80 then valid_utf8 cs
      else multi_len (c # cs) \<noteq> 0 \<and> valid_utf8 (drop (multi_len (c # cs) - 1) cs))"

declare sanitize.simps(2) [simp del] valid_utf8.simps(2) [simp del]

lemma sanitize_valid: "valid_utf8 s \<Longrightarrow> sanitize s = s"
proof (induction s rule: valid_utf8.induct)
  case (2 c cs)
  show ?case
  proof (cases "c < CHR 0x80")
    case True
    with 2 show ?thesis by (simp add: sanitize.simps(2) valid_utf8.simps(2))
  next
    case False
    then have n: "multi_len (c # cs) \<noteq> 0" "valid_utf8 (drop (multi_len (c # cs) - 1) cs)"
      using 2 by (simp_all add: valid_utf8.simps(2))
    then have "sanitize (drop (multi_len (c # cs) - 1) cs) = drop (multi_len (c # cs) - 1) cs"
      using 2(2) False by simp
    moreover have "take (multi_len (c # cs)) (c # cs) = c # take (multi_len (c # cs) - 1) cs"
      using n by (simp add: take_Cons')
    ultimately show ?thesis
      using False n by (simp add: sanitize.simps(2))
  qed
qed simp

lemma valid_utf8_ascii: "list_all (\<lambda>c. c < CHR 0x80) s \<Longrightarrow> valid_utf8 s"
  by (induction s) (simp_all add: valid_utf8.simps(2))

lemma sanitize_Nil_iff [simp]: "sanitize s = [] \<longleftrightarrow> s = []"
  by (cases s) (auto simp: sanitize.simps(2) rune_error_def)

end
