(* ===== verification/Base64.thy ===== *)
theory Base64
  imports Prelude
begin

text \<open>
  The standard Base64 encoding of \<^verbatim>\<open>encoding/base64\<close>, which \<^verbatim>\<open>encoding/json\<close> uses for a
  byte slice.  The encoder takes three bytes at a time and pads the last group; the
  decoder drops carriage returns and line feeds wherever they stand, wants complete
  groups of four and allows padding only at the end.
\<close>

definition alphabet :: string where
  "alphabet = ''ABCDEFGHIJKLMNOPQRSTUVWXYZabcdefghijklmnopqrstuvwxyz0123456789+/''"

definition b64_char :: "nat \<Rightarrow> char" where
  "b64_char i = alphabet ! i"

definition b64_val :: "char \<Rightarrow> nat option" where
  "b64_val c =
     (let n = of_char c :: nat in
      if CHR ''A'' \<le> c \<and> c \<le> CHR ''Z'' then Some (n - 65)
      else if CHR ''a'' \<le> c \<and> c \<le> CHR ''z'' then Some (n - 71)
      else if CHR ''0'' \<le> c \<and> c \<le> CHR ''9'' then Some (n + 4)
      else if c = CHR ''+'' then Some 62
      else if c = CHR ''/'' then Some 63
      else None)"

fun b64_encode :: "bytes \<Rightarrow> string" where
  "b64_encode [] = []"
| "b64_encode [x] =
     (let a = of_char x :: nat in
      [b64_char (a div 4), b64_char (a mod 4 * 16), CHR ''='', CHR ''=''])"
| "b64_encode [x, y] =
     (let a = of_char x :: nat; b = of_char y :: nat in
      [b64_char (a div 4), b64_char (a mod 4 * 16 + b div 16), b64_char (b mod 16 * 4), CHR ''=''])"
| "b64_encode (x # y # z # rest) =
     (let a = of_char x :: nat; b = of_char y :: nat; c = of_char z :: nat in
      [b64_char (a div 4), b64_char (a mod 4 * 16 + b div 16),
       b64_char (b mod 16 * 4 + c div 64), b64_char (c mod 64)] @ b64_encode rest)"

definition b64_group :: "nat \<Rightarrow> nat \<Rightarrow> nat \<Rightarrow> nat \<Rightarrow> bytes" where
  "b64_group p q r s =
     [char_of (p * 4 + q div 16), char_of (q mod 16 * 16 + r div 4), char_of (r mod 4 * 64 + s)]"

fun b64_groups :: "string \<Rightarrow> bytes option" where
  "b64_groups [] = Some []"
| "b64_groups (w # x # y # z # rest) =
     (case (b64_val w, b64_val x) of
        (Some p, Some q) \<Rightarrow>
          (if y = CHR ''='' then
             (if z = CHR ''='' \<and> rest = [] then Some (take 1 (b64_group p q 0 0)) else None)
           else (case b64_val y of
               None \<Rightarrow> None
             | Some r \<Rightarrow>
                 (if z = CHR ''='' then
                    (if rest = [] then Some (take 2 (b64_group p q r 0)) else None)
                  else (case b64_val z of
                      None \<Rightarrow> None
                    | Some s \<Rightarrow> map_option (append (b64_group p q r s)) (b64_groups rest)))))
      | _ \<Rightarrow> None)"
| "b64_groups _ = None"

definition b64_decode :: "string \<Rightarrow> bytes option" where
  "b64_decode s = b64_groups (filter (\<lambda>c. c \<noteq> CHR 0x0D \<and> c \<noteq> CHR 0x0A) s)"

section \<open>Round trip\<close>

lemma length_alphabet: "length alphabet = 64"
  by (simp add: alphabet_def)

lemma alphabet_vals: "map b64_val alphabet = map Some [0..<64]"
  by (simp add: alphabet_def b64_val_def upt_conv_Cons)

lemma alphabet_chars:
  "list_all (\<lambda>c. c \<noteq> CHR ''='' \<and> c \<noteq> CHR 0x0D \<and> c \<noteq> CHR 0x0A \<and> c \<noteq> CHR 0x22 \<and> c \<noteq> CHR 0x5C \<and>
     CHR '' '' \<le> c \<and> c < CHR 0x80) alphabet"
  by (simp add: alphabet_def)

lemma b64_char_facts:
  assumes "i < 64"
  shows "b64_val (b64_char i) = Some i" and "b64_char i \<noteq> CHR ''=''"
    and "b64_char i \<noteq> CHR 0x0D" and "b64_char i \<noteq> CHR 0x0A"
    and "b64_char i \<noteq> CHR 0x22" and "b64_char i \<noteq> CHR 0x5C"
    and "CHR '' '' \<le> b64_char i" and "b64_char i < CHR 0x80"
proof -
  have "map b64_val alphabet ! i = Some i"
    using assms by (simp add: alphabet_vals)
  then show "b64_val (b64_char i) = Some i"
    using assms by (simp add: b64_char_def length_alphabet)
  have "b64_char i \<in> set alphabet"
    using assms by (simp add: b64_char_def length_alphabet)
  with alphabet_chars show "b64_char i \<noteq> CHR ''=''"
    and "b64_char i \<noteq> CHR 0x0D" and "b64_char i \<noteq> CHR 0x0A"
    and "b64_char i \<noteq> CHR 0x22" and "b64_char i \<noteq> CHR 0x5C"
    and "CHR '' '' \<le> b64_char i" and "b64_char i < CHR 0x80"
    unfolding list_all_iff by blast+
qed

lemma of_char_less: "(of_char c :: nat) < 256"
  by (metis of_char_mod_256 mod_less_divisor zero_less_numeral)

lemma digit_bounds:
  fixes a b :: nat
  assumes "a < 256" "b < 256"
  shows "a div 4 < 64" "a mod 4 * 16 < 64" "a mod 4 * 16 + b div 16 < 64"
    "a mod 16 * 4 < 64" "a mod 16 * 4 + b div 64 < 64" "a mod 64 < 64"
proof -
  have "a mod 4 < 4" "a mod 16 < 16" "b div 16 < 16" "b div 64 < 4"
    using assms by (simp_all add: less_mult_imp_div_less)
  then show "a mod 4 * 16 < 64" "a mod 4 * 16 + b div 16 < 64"
    "a mod 16 * 4 < 64" "a mod 16 * 4 + b div 64 < 64" by linarith+
  show "a div 4 < 64" "a mod 64 < 64"
    using assms by (simp_all add: less_mult_imp_div_less)
qed

lemma high_digits:
  fixes b :: nat
  assumes "b < 256"
  shows "b div 16 div 16 = 0" "b div 16 mod 16 = b div 16"
    "b div 64 div 4 = 0" "b div 64 mod 4 = b div 64"
proof -
  have "b div 16 < 16" "b div 64 < 4"
    using assms by (simp_all add: less_mult_imp_div_less)
  then show "b div 16 div 16 = 0" "b div 16 mod 16 = b div 16"
    "b div 64 div 4 = 0" "b div 64 mod 4 = b div 64" by simp_all
qed

lemmas b64_digits = digit_bounds [OF of_char_less of_char_less]
lemmas b64_bytes = high_digits [OF of_char_less]

lemma b64_encode_chars:
  "ch \<in> set (b64_encode xs) \<Longrightarrow> ch = CHR ''='' \<or> (\<exists>i < 64. ch = b64_char i)"
  by (induction xs rule: b64_encode.induct) (auto simp: Let_def intro: b64_digits)

lemma b64_groups_encode: "b64_groups (b64_encode xs) = Some xs"
  by (induction xs rule: b64_encode.induct)
    (simp_all add: Let_def b64_group_def b64_digits b64_bytes b64_char_facts)

lemma b64_encode_no_newline:
  "CHR 0x0D \<notin> set (b64_encode xs)" "CHR 0x0A \<notin> set (b64_encode xs)"
  using b64_encode_chars b64_char_facts(3,4) by fastforce+

lemma b64_decode_encode: "b64_decode (b64_encode xs) = Some xs"
proof -
  have "filter (\<lambda>c. c \<noteq> CHR 0x0D \<and> c \<noteq> CHR 0x0A) (b64_encode xs) = b64_encode xs"
    using b64_encode_no_newline [of xs] by (intro filter_True) auto
  then show ?thesis by (simp add: b64_decode_def b64_groups_encode)
qed

end
