(* ===== verification/Json.thy ===== *)
theory Json
  imports Utf8 Base64
begin

text \<open>
  The part of \<^verbatim>\<open>encoding/json\<close> the program uses: the string encoder of \<^verbatim>\<open>Marshal\<close> (with
  its HTML escapes), a scanner for one JSON value at the head of a byte stream, and the
  matching of object keys with struct fields.  The scanner tells a value that is cut
  short from one that is malformed, as the streaming decoder does, and keeps the raw text
  of every member value, which is what a \<^verbatim>\<open>json.RawMessage\<close> field receives.
\<close>

section \<open>Writing strings\<close>

definition hex_char :: "nat \<Rightarrow> char" where
  "hex_char n = ''0123456789abcdef'' ! n"

definition escape_ascii :: "char \<Rightarrow> string" where
  "escape_ascii c =
     (if c = CHR 0x22 \<or> c = CHR 0x5C then [CHR 0x5C, c]
      else if c = CHR 0x08 then [CHR 0x5C, CHR ''b'']
      else if c = CHR 0x0C then [CHR 0x5C, CHR ''f'']
      else if c = CHR 0x0A then [CHR 0x5C, CHR ''n'']
      else if c = CHR 0x0D then [CHR 0x5C, CHR ''r'']
      else if c = CHR 0x09 then [CHR 0x5C, CHR ''t'']
      else if c < CHR '' '' \<or> c = CHR ''<'' \<or> c = CHR ''>'' \<or> c = CHR ''&'' then
        [CHR 0x5C, CHR ''u'', CHR ''0'', CHR ''0'', hex_char (of_char c div 16), hex_char (of_char c mod 16)]
      else [c])"

fun quote_body :: "bytes \<Rightarrow> string" where
  "quote_body [] = []"
| "quote_body (c # cs) =
     (if c < CHR 0x80 then escape_ascii c @ quote_body cs
      else if multi_len (c # cs) = 0 then [CHR 0x5C] @ ''ufffd'' @ quote_body cs
      else (if take 3 (c # cs) = [CHR 0xE2, CHR 0x80, CHR 0xA8] then [CHR 0x5C] @ ''u2028''
            else if take 3 (c # cs) = [CHR 0xE2, CHR 0x80, CHR 0xA9] then [CHR 0x5C] @ ''u2029''
            else take (multi_len (c # cs)) (c # cs))
           @ quote_body (drop (multi_len (c # cs) - 1) cs))"

definition dquote :: char where "dquote = CHR 0x22"

definition quote :: "bytes \<Rightarrow> string" where
  "quote s = [dquote] @ quote_body s @ [dquote]"

section \<open>Scanning\<close>

datatype 'a scan = Done 'a string | Short | Bad

fun scan_map :: "('a \<Rightarrow> 'b) \<Rightarrow> 'a scan \<Rightarrow> 'b scan" where
  "scan_map f (Done x r) = Done (f x) r"
| "scan_map f Short = Short"
| "scan_map f Bad = Bad"

fun scan_bind :: "'a scan \<Rightarrow> ('a \<Rightarrow> string \<Rightarrow> 'b scan) \<Rightarrow> 'b scan" where
  "scan_bind (Done x r) f = f x r"
| "scan_bind Short f = Short"
| "scan_bind Bad f = Bad"

fun next_char :: "string \<Rightarrow> char scan" where
  "next_char [] = Short"
| "next_char (c # cs) = Done c cs"

definition is_space :: "char \<Rightarrow> bool" where
  "is_space c = (c = CHR '' '' \<or> c = CHR 0x09 \<or> c = CHR 0x0D \<or> c = CHR 0x0A)"

definition skip_ws :: "string \<Rightarrow> string" where
  "skip_ws s = dropWhile is_space s"

definition hex_val :: "char \<Rightarrow> nat option" where
  "hex_val c =
     (if CHR ''0'' \<le> c \<and> c \<le> CHR ''9'' then Some (of_char c - 48)
      else if CHR ''a'' \<le> c \<and> c \<le> CHR ''f'' then Some (of_char c - 87)
      else if CHR ''A'' \<le> c \<and> c \<le> CHR ''F'' then Some (of_char c - 55)
      else None)"

fun scan_hex :: "nat \<Rightarrow> nat \<Rightarrow> string \<Rightarrow> nat scan" where
  "scan_hex 0 acc s = Done acc s"
| "scan_hex (Suc n) acc [] = Short"
| "scan_hex (Suc n) acc (c # cs) =
     (case hex_val c of None \<Rightarrow> Bad | Some v \<Rightarrow> scan_hex n (16 * acc + v) cs)"

definition simple_escape :: "char \<Rightarrow> char option" where
  "simple_escape e =
     (if e = dquote \<or> e = CHR 0x5C \<or> e = CHR ''/'' then Some e
      else if e = CHR ''b'' then Some (CHR 0x08)
      else if e = CHR ''f'' then Some (CHR 0x0C)
      else if e = CHR ''n'' then Some (CHR 0x0A)
      else if e = CHR ''r'' then Some (CHR 0x0D)
      else if e = CHR ''t'' then Some (CHR 0x09)
      else None)"

text \<open>The low half of a surrogate pair, when an escape for it follows.\<close>

definition low_surrogate :: "string \<Rightarrow> nat option" where
  "low_surrogate s =
     (if take 2 s = [CHR 0x5C, CHR ''u''] then
        (case scan_hex 4 0 (drop 2 s) of
           Done r _ \<Rightarrow> (if 0xDC00 \<le> r \<and> r < 0xE000 then Some r else None)
         | _ \<Rightarrow> None)
      else None)"

text \<open>
  The rest of a string after its opening quote; the value is the decoded string.
  An escaped surrogate pair is one rune, a lone surrogate is U+FFFD.
\<close>

function (sequential) scan_str :: "string \<Rightarrow> bytes scan" where
  "scan_str [] = Short"
| "scan_str (c # cs) =
     (if c = dquote then Done [] cs
      else if c = CHR 0x5C then
        (case cs of
           [] \<Rightarrow> Short
         | e # es \<Rightarrow>
             (case simple_escape e of
                Some d \<Rightarrow> scan_map (Cons d) (scan_str es)
              | None \<Rightarrow>
                  (if e \<noteq> CHR ''u'' then Bad
                   else (case scan_hex 4 0 es of
                       Short \<Rightarrow> Short
                     | Bad \<Rightarrow> Bad
                     | Done r _ \<Rightarrow>
                         (if 0xD800 \<le> r \<and> r < 0xDC00 then
                            (case low_surrogate (drop 4 es) of
                               Some r2 \<Rightarrow>
                                 scan_map (append (encode_rune ((r - 0xD800) * 1024 + (r2 - 0xDC00) + 0x10000)))
                                   (scan_str (drop 10 es))
                             | None \<Rightarrow> scan_map (append rune_error) (scan_str (drop 4 es)))
                          else scan_map (append (encode_rune r)) (scan_str (drop 4 es)))))))
      else if c < CHR '' '' then Bad
      else if c < CHR 0x80 then scan_map (Cons c) (scan_str cs)
      else if multi_len (c # cs) = 0 then scan_map (append rune_error) (scan_str cs)
      else scan_map (append (take (multi_len (c # cs)) (c # cs)))
             (scan_str (drop (multi_len (c # cs) - 1) cs)))"
  by pat_completeness auto
termination by (relation "measure length") auto

declare quote_body.simps(2) [simp del] scan_str.simps(2) [simp del]

definition is_digit :: "char \<Rightarrow> bool" where
  "is_digit c = (CHR ''0'' \<le> c \<and> c \<le> CHR ''9'')"

text \<open>One or more digits; then whatever follows.\<close>

definition scan_digits :: "string \<Rightarrow> unit scan" where
  "scan_digits s =
     (case s of [] \<Rightarrow> Short
      | c # cs \<Rightarrow> (if is_digit c then Done () (dropWhile is_digit cs) else Bad))"

definition scan_exponent :: "string \<Rightarrow> unit scan" where
  "scan_exponent s =
     (case s of [] \<Rightarrow> Done () []
      | c # cs \<Rightarrow>
          (if c = CHR ''e'' \<or> c = CHR ''E'' then
             (case cs of [] \<Rightarrow> Short
              | d # ds \<Rightarrow> scan_digits (if d = CHR ''+'' \<or> d = CHR ''-'' then ds else cs))
           else Done () s))"

definition scan_fraction :: "string \<Rightarrow> unit scan" where
  "scan_fraction s =
     (case s of [] \<Rightarrow> Done () []
      | c # cs \<Rightarrow>
          (if c = CHR ''.'' then
             (case scan_digits cs of Done _ r \<Rightarrow> scan_exponent r | e \<Rightarrow> e)
           else scan_exponent s))"

text \<open>A number: an integer part without leading zeros, a fraction, an exponent.\<close>

definition scan_number :: "string \<Rightarrow> unit scan" where
  "scan_number s =
     (let t = (if take 1 s = ''-'' then drop 1 s else s) in
      case t of [] \<Rightarrow> Short
      | c # cs \<Rightarrow>
          (if c = CHR ''0'' then scan_fraction cs
           else if is_digit c then scan_fraction (dropWhile is_digit cs)
           else Bad))"

fun scan_lit :: "string \<Rightarrow> string \<Rightarrow> unit scan" where
  "scan_lit [] s = Done () s"
| "scan_lit (e # es) [] = Short"
| "scan_lit (e # es) (c # cs) = (if c = e then scan_lit es cs else Bad)"

text \<open>
  A value.  Object members keep their decoded key, the raw text of the value and the value.
\<close>

datatype json =
    JNull
  | JBool bool
  | JNum string
  | JStr bytes
  | JArr "json list"
  | JObj "(bytes \<times> string \<times> json) list"

definition consumed :: "string \<Rightarrow> string \<Rightarrow> string" where
  "consumed s rest = take (length s - length rest) s"

definition max_nesting :: nat where "max_nesting = 10000"

text \<open>
  The scanner proper, one value at the head of the input, which must not start with
  white space.  The first argument is fuel, one unit per call: an element or member list
  starts with a value on the same input and every other call is made on a shorter one, so
  twice the length of the input is enough (lemma \<^verbatim>\<open>scan_fuel\<close> of
  \<^verbatim>\<open>Json_Roundtrip\<close>).  The second argument is the nesting depth, which the library
  bounds.
\<close>

fun scan_value :: "nat \<Rightarrow> nat \<Rightarrow> string \<Rightarrow> json scan"
  and scan_elems :: "nat \<Rightarrow> nat \<Rightarrow> string \<Rightarrow> json list scan"
  and scan_members :: "nat \<Rightarrow> nat \<Rightarrow> string \<Rightarrow> (bytes \<times> string \<times> json) list scan" where
  "scan_value 0 d s = Bad"
| "scan_value (Suc f) d s =
     scan_bind (next_char s) (\<lambda>c cs.
       if c = dquote then scan_map JStr (scan_str cs)
       else if c = CHR ''{'' then
         (if max_nesting \<le> d then Bad
          else scan_bind (next_char (skip_ws cs)) (\<lambda>e es.
            if e = CHR ''}'' then Done (JObj []) es
            else scan_map JObj (scan_members f (Suc d) (e # es))))
       else if c = CHR ''['' then
         (if max_nesting \<le> d then Bad
          else scan_bind (next_char (skip_ws cs)) (\<lambda>e es.
            if e = CHR '']'' then Done (JArr []) es
            else scan_map JArr (scan_elems f (Suc d) (e # es))))
       else if c = CHR ''n'' then scan_map (\<lambda>_. JNull) (scan_lit ''ull'' cs)
       else if c = CHR ''t'' then scan_map (\<lambda>_. JBool True) (scan_lit ''rue'' cs)
       else if c = CHR ''f'' then scan_map (\<lambda>_. JBool False) (scan_lit ''alse'' cs)
       else if c = CHR ''-'' \<or> is_digit c then
         scan_bind (scan_number s) (\<lambda>_ r. Done (JNum (consumed s r)) r)
       else Bad)"
| "scan_elems 0 d s = Bad"
| "scan_elems (Suc f) d s =
     scan_bind (scan_value f d s) (\<lambda>v r.
       scan_bind (next_char (skip_ws r)) (\<lambda>c cs.
         if c = CHR '','' then scan_map (Cons v) (scan_elems f d (skip_ws cs))
         else if c = CHR '']'' then Done [v] cs
         else Bad))"
| "scan_members 0 d s = Bad"
| "scan_members (Suc f) d s =
     scan_bind (next_char s) (\<lambda>q qs.
       if q \<noteq> dquote then Bad
       else scan_bind (scan_str qs) (\<lambda>k r.
         scan_bind (next_char (skip_ws r)) (\<lambda>c cs.
           if c \<noteq> CHR '':'' then Bad
           else scan_bind (scan_value f d (skip_ws cs)) (\<lambda>v r2.
             scan_bind (next_char (skip_ws r2)) (\<lambda>e es.
               if e = CHR '','' then
                 scan_map (Cons (k, consumed (skip_ws cs) r2, v)) (scan_members f d (skip_ws es))
               else if e = CHR ''}'' then Done [(k, consumed (skip_ws cs) r2, v)] es
               else Bad)))))"

definition scan_json :: "string \<Rightarrow> json scan" where
  "scan_json s = (let t = skip_ws s in scan_value (Suc (2 * length t)) 0 t)"

text \<open>\<^verbatim>\<open>json.Unmarshal\<close>'s view of its input: exactly one value, white space around it.\<close>

definition parse_json :: "string \<Rightarrow> json option" where
  "parse_json s =
     (case scan_json s of Done v r \<Rightarrow> (if skip_ws r = [] then Some v else None) | _ \<Rightarrow> None)"

text \<open>
  \<^verbatim>\<open>Decoder.More\<close> after a top-level value: the next byte that is not white space, if
  any, and it is neither closing bracket.
\<close>

definition decoder_more :: "string \<Rightarrow> bool" where
  "decoder_more rest =
     (case skip_ws rest of [] \<Rightarrow> False | c # _ \<Rightarrow> c \<noteq> CHR '']'' \<and> c \<noteq> CHR ''}'')"

section \<open>Fields\<close>

text \<open>
  Key matching: the exact name first, then the name up to case folding.  Only two runes
  outside ASCII fold to an ASCII letter, the Kelvin sign and the long s.
\<close>

fun fold_name :: "bytes \<Rightarrow> bytes" where
  "fold_name [] = []"
| "fold_name (c # cs) =
     (if take 3 (c # cs) = [CHR 0xE2, CHR 0x84, CHR 0xAA] then CHR ''K'' # fold_name (drop 2 cs)
      else if take 2 (c # cs) = [CHR 0xC5, CHR 0xBF] then CHR ''S'' # fold_name (drop 1 cs)
      else (if CHR ''a'' \<le> c \<and> c \<le> CHR ''z'' then char_of (of_char c - 32 :: nat) else c) # fold_name cs)"

declare fold_name.simps(2) [simp del]

definition find_field :: "string list \<Rightarrow> bytes \<Rightarrow> string option" where
  "find_field names key =
     (if key \<in> set names then Some key
      else List.find (\<lambda>n. fold_name n = fold_name key) names)"

declare scan_value.simps(2) [simp del] scan_elems.simps(2) [simp del] scan_members.simps(2) [simp del]

end
