(* ===== verification/Json_Roundtrip.thy ===== *)
theory Json_Roundtrip
  imports Json
begin

text \<open>
  What \<^verbatim>\<open>Marshal\<close> writes, the scanner reads back: a quoted string scans to the string
  with every ill-formed byte replaced by U+FFFD, so to the string itself when it is valid UTF-8.
\<close>

lemma scan_map_id [simp]: "scan_map (\<lambda>x. x) s = s"
  by (cases s) auto

lemma scan_map_comp [simp]: "scan_map f (scan_map g s) = scan_map (\<lambda>x. f (g x)) s"
  by (cases s) auto

lemma scan_map_Done: "scan_map f s = Done y r \<longleftrightarrow> (\<exists>x. s = Done x r \<and> y = f x)"
  by (cases s) auto

section \<open>Hexadecimal escapes\<close>

lemma hex_table: "map hex_val (map hex_char [0..<16]) = map Some [0..<16]"
  by (simp add: hex_val_def hex_char_def upt_conv_Cons)

lemma hex_val_char: "n < 16 \<Longrightarrow> hex_val (hex_char n) = Some n"
proof -
  assume n: "n < 16"
  have "map hex_val (map hex_char [0..<16]) ! n = map Some [0..<16] ! n"
    by (simp only: hex_table)
  with n show ?thesis by simp
qed

lemma scan_hex_4:
  assumes "hex_val a = Some w" "hex_val b = Some x" "hex_val c = Some y" "hex_val d = Some z"
  shows "scan_hex 4 0 (a # b # c # d # t) = Done (16 * (16 * (16 * w + x) + y) + z) t"
proof -
  have four: "(4 :: nat) = Suc (Suc (Suc (Suc 0)))" by simp
  show ?thesis unfolding four by (simp add: assms)
qed

lemma hex_digit_bounds: "of_char c div 16 < (16 :: nat)" "of_char c mod 16 < (16 :: nat)"
  using of_char_less [of c] by (simp_all add: less_mult_imp_div_less)

lemma hex_val_zero: "hex_val (CHR ''0'') = Some 0"
  by (simp add: hex_val_def)

lemma scan_hex_byte:
  "scan_hex 4 0 (CHR ''0'' # CHR ''0'' # hex_char (of_char c div 16) # hex_char (of_char c mod 16) # t)
     = Done (of_char c) t"
  using scan_hex_4 [OF hex_val_zero hex_val_zero hex_val_char hex_val_char, OF hex_digit_bounds]
  by simp

lemma encode_rune_ascii: "c < CHR 0x80 \<Longrightarrow> encode_rune (of_char c) = [c]"
  by (simp add: encode_rune_def less_char_def)

lemma not_simple_u: "simple_escape (CHR ''u'') = None"
  by (simp add: simple_escape_def dquote_def)

lemma scan_str_hex:
  assumes "scan_hex 4 0 es = Done r (drop 4 es)" and "r < 0xD800 \<or> 0xDC00 \<le> r"
  shows "scan_str (CHR 0x5C # CHR ''u'' # es) = scan_map (append (encode_rune r)) (scan_str (drop 4 es))"
  using assms by (auto simp: scan_str.simps(2) [of "CHR 0x5C"] dquote_def not_simple_u)

lemma scan_str_escaped_byte:
  assumes "c < CHR 0x80"
  shows "scan_str (CHR 0x5C # CHR ''u'' # CHR ''0'' # CHR ''0'' #
      hex_char (of_char c div 16) # hex_char (of_char c mod 16) # t) = scan_map (Cons c) (scan_str t)"
proof -
  let ?es = "CHR ''0'' # CHR ''0'' # hex_char (of_char c div 16) # hex_char (of_char c mod 16) # t"
  have r: "(of_char c :: nat) < 0xD800" using of_char_less [of c] by linarith
  have f: "append [c] = Cons c" by (rule ext) simp
  show ?thesis
    using scan_str_hex [of ?es "of_char c"] scan_hex_byte [of c t] encode_rune_ascii [OF assms] r f
    by simp
qed

lemma scan_hex_fixed:
  "scan_hex 4 0 (''fffd'' @ t) = Done 0xFFFD t"
  "scan_hex 4 0 (''2028'' @ t) = Done 0x2028 t"
  "scan_hex 4 0 (''2029'' @ t) = Done 0x2029 t"
proof -
  have v: "hex_val (CHR ''f'') = Some 15" "hex_val (CHR ''d'') = Some 13" "hex_val (CHR ''2'') = Some 2"
    "hex_val (CHR ''8'') = Some 8" "hex_val (CHR ''9'') = Some 9"
    by (simp_all add: hex_val_def)
  show "scan_hex 4 0 (''fffd'' @ t) = Done 0xFFFD t"
    using scan_hex_4 [OF v(1) v(1) v(1) v(2), of t] by simp
  show "scan_hex 4 0 (''2028'' @ t) = Done 0x2028 t"
    using scan_hex_4 [OF v(3) hex_val_zero v(3) v(4), of t] by simp
  show "scan_hex 4 0 (''2029'' @ t) = Done 0x2029 t"
    using scan_hex_4 [OF v(3) hex_val_zero v(3) v(5), of t] by simp
qed

lemma encode_rune_fixed:
  "encode_rune 0xFFFD = rune_error" "encode_rune 0x2028 = [CHR 0xE2, CHR 0x80, CHR 0xA8]"
  "encode_rune 0x2029 = [CHR 0xE2, CHR 0x80, CHR 0xA9]"
  by (simp_all add: encode_rune_def rune_error_def char_of_def bit_iff_odd)

lemma scan_hex_drop: "scan_hex n acc (xs @ t) = Done r t \<Longrightarrow> length xs = n \<Longrightarrow>
    scan_hex n acc (xs @ t) = Done r (drop n (xs @ t))"
  by simp

lemma scan_str_fixed:
  "scan_str (CHR 0x5C # ''ufffd'' @ t) = scan_map (append rune_error) (scan_str t)"
  "scan_str (CHR 0x5C # ''u2028'' @ t) = scan_map (append [CHR 0xE2, CHR 0x80, CHR 0xA8]) (scan_str t)"
  "scan_str (CHR 0x5C # ''u2029'' @ t) = scan_map (append [CHR 0xE2, CHR 0x80, CHR 0xA9]) (scan_str t)"
  using scan_str_hex [OF scan_hex_drop [OF scan_hex_fixed(1)]]
    scan_str_hex [OF scan_hex_drop [OF scan_hex_fixed(2)]]
    scan_str_hex [OF scan_hex_drop [OF scan_hex_fixed(3)]]
  by (simp_all add: encode_rune_fixed)

section \<open>Strings\<close>

lemma scan_str_simple_escape:
  "simple_escape e = Some d \<Longrightarrow> scan_str (CHR 0x5C # e # t) = scan_map (Cons d) (scan_str t)"
  by (simp add: scan_str.simps(2) dquote_def)

lemma simple_escapes:
  "simple_escape (CHR 0x22) = Some (CHR 0x22)" "simple_escape (CHR 0x5C) = Some (CHR 0x5C)"
  "simple_escape (CHR ''b'') = Some (CHR 0x08)" "simple_escape (CHR ''f'') = Some (CHR 0x0C)"
  "simple_escape (CHR ''n'') = Some (CHR 0x0A)" "simple_escape (CHR ''r'') = Some (CHR 0x0D)"
  "simple_escape (CHR ''t'') = Some (CHR 0x09)"
  by code_simp+

lemma scan_str_plain:
  "c \<noteq> CHR 0x22 \<Longrightarrow> c \<noteq> CHR 0x5C \<Longrightarrow> \<not> c < CHR '' '' \<Longrightarrow> c < CHR 0x80 \<Longrightarrow>
    scan_str (c # t) = scan_map (Cons c) (scan_str t)"
  by (simp add: scan_str.simps(2) dquote_def)

lemma scan_str_escape_ascii:
  assumes "c < CHR 0x80"
  shows "scan_str (escape_ascii c @ t) = scan_map (Cons c) (scan_str t)"
  using assms unfolding escape_ascii_def
  by (simp add: scan_str_simple_escape simple_escapes scan_str_escaped_byte scan_str_plain)

lemma multi_len_lead: "multi_len (c # cs) \<noteq> 0 \<Longrightarrow> CHR 0xC2 \<le> c"
  by (auto simp: multi_len_def lead_len_def less_eq_char_def split: list.splits if_splits)

lemma scan_str_rune:
  assumes "multi_len (c # cs) \<noteq> 0"
  shows "scan_str (take (multi_len (c # cs)) (c # cs) @ t) =
    scan_map (append (take (multi_len (c # cs)) (c # cs))) (scan_str t)"
proof -
  let ?n = "multi_len (c # cs)"
  have c: "c \<noteq> dquote" "c \<noteq> CHR 0x5C" "\<not> c < CHR '' ''" "\<not> c < CHR 0x80"
    using multi_len_lead [OF assms] by (auto simp: dquote_def less_char_def less_eq_char_def)
  have tk: "take ?n (c # cs) = c # take (?n - 1) cs"
    using assms by (simp add: take_Cons')
  have len: "length (take (?n - 1) cs) = ?n - 1"
    using multi_len_length [of "c # cs"] assms by simp
  have "multi_len (c # take (?n - 1) cs @ t) = ?n"
    using multi_len_take [OF refl assms, of t] tk by simp
  moreover have "take ?n (c # take (?n - 1) cs @ t) = c # take (?n - 1) cs"
    using len assms by (simp add: take_Cons')
  ultimately show ?thesis
    using c tk len assms by (simp add: scan_str.simps(2) [of c])
qed

lemma separator_len: "take 3 (c # cs) = [CHR 0xE2, CHR 0x80, x] \<Longrightarrow> multi_len (c # cs) \<noteq> 0 \<Longrightarrow> multi_len (c # cs) = 3"
  by (auto simp: multi_len_def lead_len_def split: list.splits if_splits)

lemma scan_str_quote_body: "scan_str (quote_body s @ dquote # t) = Done (sanitize s) t"
proof (induction s rule: quote_body.induct)
  case 1
  then show ?case by (simp add: scan_str.simps(2))
next
  case (2 c cs)
  let ?n = "multi_len (c # cs)"
  consider "c < CHR 0x80" | "\<not> c < CHR 0x80" "?n = 0" | "\<not> c < CHR 0x80" "?n \<noteq> 0" by blast
  then show ?case
  proof cases
    case 1
    with 2(1) show ?thesis
      by (simp add: quote_body.simps(2) sanitize.simps(2) scan_str_escape_ascii)
  next
    case 2
    with "2.IH"(2) show ?thesis
      using scan_str_fixed(1) [of "quote_body cs @ dquote # t"]
      by (simp add: quote_body.simps(2) sanitize.simps(2))
  next
    case 3
    let ?rest = "quote_body (drop (?n - 1) cs) @ dquote # t"
    have IH: "scan_str ?rest = Done (sanitize (drop (?n - 1) cs)) t"
      using 3 "2.IH"(3) by simp
    consider "take 3 (c # cs) = [CHR 0xE2, CHR 0x80, CHR 0xA8]" | "take 3 (c # cs) = [CHR 0xE2, CHR 0x80, CHR 0xA9]"
      | "take 3 (c # cs) \<noteq> [CHR 0xE2, CHR 0x80, CHR 0xA8]" "take 3 (c # cs) \<noteq> [CHR 0xE2, CHR 0x80, CHR 0xA9]"
      by blast
    then show ?thesis
    proof cases
      case 1
      with 3 separator_len [OF 1] IH show ?thesis
        using scan_str_fixed(2) [of ?rest] by (simp add: quote_body.simps(2) sanitize.simps(2))
    next
      case 2
      with 3 separator_len [OF 2] IH show ?thesis
        using scan_str_fixed(3) [of ?rest] by (simp add: quote_body.simps(2) sanitize.simps(2))
    next
      case other: 3
      have "quote_body (c # cs) = take ?n (c # cs) @ quote_body (drop (?n - 1) cs)"
        using 3 other by (simp only: quote_body.simps(2) if_False if_cancel)
      moreover have "sanitize (c # cs) = take ?n (c # cs) @ sanitize (drop (?n - 1) cs)"
        using 3 by (simp only: sanitize.simps(2) if_False)
      ultimately show ?thesis
        using IH scan_str_rune [OF 3(2), of ?rest] by (simp only: append_assoc scan_map.simps)
    qed
  qed
qed

lemma scan_str_quote: "scan_str (tl (quote s) @ t) = Done (sanitize s) t"
  by (simp add: quote_def scan_str_quote_body)

section \<open>Scanning consumes its input, and the fuel is enough\<close>

lemma scan_bind_Done: "scan_bind m f = Done y r \<longleftrightarrow> (\<exists>x t. m = Done x t \<and> f x t = Done y r)"
  by (cases m) auto

lemma next_char_Done: "next_char s = Done c cs \<longleftrightarrow> s = c # cs"
  by (cases s) auto

lemma skip_ws_length: "length (skip_ws s) \<le> length s"
  by (simp add: skip_ws_def length_dropWhile_le)

lemma skip_ws_Cons_length: "skip_ws s = c # cs \<Longrightarrow> length cs < length s"
  using skip_ws_length [of s] by simp

lemma scan_str_shorter: "scan_str s = Done x r \<Longrightarrow> length r < length s"
proof (induction s arbitrary: x r rule: scan_str.induct)
  case (2 c cs)
  then show ?case
    by (fastforce simp: scan_str.simps(2) scan_map_Done split: if_splits list.splits option.splits scan.splits)
qed simp

lemma scan_digits_shorter: "scan_digits s = Done x r \<Longrightarrow> length r < length s"
  by (auto simp: scan_digits_def le_imp_less_Suc length_dropWhile_le split: list.splits if_splits)

lemma scan_exponent_shorter: "scan_exponent s = Done x r \<Longrightarrow> length r \<le> length s"
  by (auto simp: scan_exponent_def dest!: scan_digits_shorter split: list.splits if_splits)

lemma scan_fraction_shorter: "scan_fraction s = Done x r \<Longrightarrow> length r \<le> length s"
  by (auto simp: scan_fraction_def dest!: scan_digits_shorter scan_exponent_shorter
    split: list.splits if_splits scan.splits)

lemma scan_number_shorter:
  assumes "scan_number s = Done x r"
  shows "length r < length s"
proof -
  let ?t = "if take 1 s = ''-'' then drop 1 s else s"
  obtain c cs where t: "?t = c # cs"
    and r: "scan_fraction cs = Done x r \<or> scan_fraction (dropWhile is_digit cs) = Done x r"
    using assms by (auto simp: scan_number_def Let_def split: list.splits if_splits)
  have "length r \<le> length cs"
    using r length_dropWhile_le [of is_digit cs] by (auto dest!: scan_fraction_shorter)
  moreover have "length (c # cs) \<le> length s"
    by (simp only: t [symmetric]) simp
  ultimately show ?thesis by simp
qed

lemma scan_lit_shorter: "scan_lit e s = Done x r \<Longrightarrow> length r \<le> length s"
  by (induction e s rule: scan_lit.induct) (auto split: if_splits)

lemmas shorter = skip_ws_Cons_length scan_str_shorter scan_lit_shorter scan_number_shorter

lemma scan_shorter:
  "(\<forall>d s v r. scan_value f d s = Done v r \<longrightarrow> length r < length s) \<and>
   (\<forall>d s v r. scan_elems f d s = Done v r \<longrightarrow> length r < length s) \<and>
   (\<forall>d s v r. scan_members f d s = Done v r \<longrightarrow> length r < length s)"
proof (induction f)
  case (Suc f)
  then have IH: "\<And>d s v r. scan_value f d s = Done v r \<Longrightarrow> length r < length s"
    "\<And>d s v r. scan_elems f d s = Done v r \<Longrightarrow> length r < length s"
    "\<And>d s v r. scan_members f d s = Done v r \<Longrightarrow> length r < length s"
    by blast+
  have v: "length r < length s" if "scan_value (Suc f) d s = Done v r" for d s v r
  proof -
    from that obtain c cs where s: "s = c # cs" by (cases s) (auto simp: scan_value.simps(2))
    show ?thesis using that unfolding s scan_value.simps(2)
     apply (simp only: next_char.simps scan_bind.simps split: if_split_asm)
     subgoal by (auto simp: scan_map_Done dest!: scan_str_shorter)
     subgoal by (simp)
     subgoal by (auto simp: scan_bind_Done next_char_Done scan_map_Done dest!: skip_ws_Cons_length IH split: if_split_asm)
     subgoal by (simp)
     subgoal by (auto simp: scan_bind_Done next_char_Done scan_map_Done dest!: skip_ws_Cons_length IH split: if_split_asm)
     subgoal by (auto simp: scan_map_Done dest!: scan_lit_shorter)
     subgoal by (auto simp: scan_map_Done dest!: scan_lit_shorter)
     subgoal by (auto simp: scan_map_Done dest!: scan_lit_shorter)
     subgoal using scan_number_shorter [of "c # cs"] by (cases "scan_number (c # cs)") auto
     subgoal by simp
     done
  qed
  have ws: "\<And>d s v r. scan_elems f d (skip_ws s) = Done v r \<Longrightarrow> length r < length s"
    "\<And>d s v r. scan_members f d (skip_ws s) = Done v r \<Longrightarrow> length r < length s"
    "\<And>d s v r. scan_value f d (skip_ws s) = Done v r \<Longrightarrow> length r < length s"
    using IH skip_ws_length order.strict_trans2 by blast+
  have e: "length r < length s" if "scan_elems (Suc f) d s = Done v r" for d s v r
    using that by (auto simp: scan_elems.simps(2) scan_bind_Done next_char_Done scan_map_Done
        split: if_split_asm dest!: skip_ws_Cons_length IH(1) ws)
  have m: "length r < length s" if "scan_members (Suc f) d s = Done v r" for d s v r
    using that by (auto simp: scan_members.simps(2) scan_bind_Done next_char_Done scan_map_Done
        split: if_split_asm dest!: skip_ws_Cons_length scan_str_shorter ws)
  show ?case using v e m by blast
qed simp

lemmas scan_value_shorter = scan_shorter [THEN conjunct1, rule_format]

lemma scan_bind_cong:
  "(\<And>x r. m = Done x r \<Longrightarrow> f x r = g x r) \<Longrightarrow> scan_bind m f = scan_bind m g"
  by (cases m) auto

text \<open>
  Any two amounts of fuel above the bound give the same result, so the fuel that
  \<^verbatim>\<open>scan_json\<close> starts with never runs out.
\<close>

lemma fuel_value_step:
  assumes IH: "\<And>d s. 2 * length s < f \<Longrightarrow> 2 * length s < h \<Longrightarrow> scan_value f d s = scan_value h d s"
    "\<And>d s. 2 * length s + 1 < f \<Longrightarrow> 2 * length s + 1 < h \<Longrightarrow> scan_elems f d s = scan_elems h d s"
    "\<And>d s. 2 * length s + 1 < f \<Longrightarrow> 2 * length s + 1 < h \<Longrightarrow> scan_members f d s = scan_members h d s"
    and b: "2 * length s < Suc f" "2 * length s < Suc h"
  shows "scan_value (Suc f) d s = scan_value (Suc h) d s"
proof (cases s)
  case (Cons c cs)
  have l: "length (e # es) \<le> length cs" if "next_char (skip_ws cs) = Done e es" for e es
    using that skip_ws_length [of cs] by (simp add: next_char_Done)
  have o: "scan_bind (next_char (skip_ws cs)) (\<lambda>e es. if e = CHR ''}'' then Done (JObj []) es
        else scan_map JObj (scan_members f (Suc d) (e # es))) =
      scan_bind (next_char (skip_ws cs)) (\<lambda>e es. if e = CHR ''}'' then Done (JObj []) es
        else scan_map JObj (scan_members h (Suc d) (e # es)))"
    by (rule scan_bind_cong) (use b Cons l IH(3) in \<open>force simp: next_char_Done\<close>)
  have a: "scan_bind (next_char (skip_ws cs)) (\<lambda>e es. if e = CHR '']'' then Done (JArr []) es
        else scan_map JArr (scan_elems f (Suc d) (e # es))) =
      scan_bind (next_char (skip_ws cs)) (\<lambda>e es. if e = CHR '']'' then Done (JArr []) es
        else scan_map JArr (scan_elems h (Suc d) (e # es)))"
    by (rule scan_bind_cong) (use b Cons l IH(2) in \<open>force simp: next_char_Done\<close>)
  show ?thesis
    unfolding Cons by (simp only: scan_value.simps(2) next_char.simps scan_bind.simps o a)
qed (simp add: scan_value.simps(2))

lemma fuel_elems_step:
  assumes IH: "\<And>d s. 2 * length s < f \<Longrightarrow> 2 * length s < h \<Longrightarrow> scan_value f d s = scan_value h d s"
    "\<And>d s. 2 * length s + 1 < f \<Longrightarrow> 2 * length s + 1 < h \<Longrightarrow> scan_elems f d s = scan_elems h d s"
    "\<And>d s. 2 * length s + 1 < f \<Longrightarrow> 2 * length s + 1 < h \<Longrightarrow> scan_members f d s = scan_members h d s"
    and b: "2 * length s + 1 < Suc f" "2 * length s + 1 < Suc h"
  shows "scan_elems (Suc f) d s = scan_elems (Suc h) d s"
proof -
  have "scan_value f d s = scan_value h d s" using IH(1) b by simp
  moreover have "scan_elems f d (skip_ws cs) = scan_elems h d (skip_ws cs)"
    if "scan_value h d s = Done v r" "next_char (skip_ws r) = Done c cs" for v r c cs
  proof -
    have "length (skip_ws cs) + 2 \<le> length s"
      using scan_value_shorter [OF that(1)] skip_ws_Cons_length [of r c cs] that(2) skip_ws_length [of cs]
      by (simp add: next_char_Done)
    with b show ?thesis by (intro IH(2)) auto
  qed
  ultimately show ?thesis
    unfolding scan_elems.simps(2) by (auto intro!: scan_bind_cong)
qed

lemma fuel_members_step:
  assumes IH: "\<And>d s. 2 * length s < f \<Longrightarrow> 2 * length s < h \<Longrightarrow> scan_value f d s = scan_value h d s"
    "\<And>d s. 2 * length s + 1 < f \<Longrightarrow> 2 * length s + 1 < h \<Longrightarrow> scan_elems f d s = scan_elems h d s"
    "\<And>d s. 2 * length s + 1 < f \<Longrightarrow> 2 * length s + 1 < h \<Longrightarrow> scan_members f d s = scan_members h d s"
    and b: "2 * length s + 1 < Suc f" "2 * length s + 1 < Suc h"
  shows "scan_members (Suc f) d s = scan_members (Suc h) d s"
proof -
  have *: "scan_value f d (skip_ws cs) = scan_value h d (skip_ws cs)"
    "scan_value h d (skip_ws cs) = Done v r2 \<Longrightarrow> next_char (skip_ws r2) = Done e es \<Longrightarrow>
      scan_members f d (skip_ws es) = scan_members h d (skip_ws es)"
    if "next_char s = Done q qs" "scan_str qs = Done k r" "next_char (skip_ws r) = Done c cs" for q qs k r c cs v r2 e es
  proof -
    have l: "length (skip_ws cs) + 2 \<le> length s"
      using scan_str_shorter [OF that(2)] skip_ws_Cons_length [of r c cs] that skip_ws_length [of cs]
      by (simp add: next_char_Done)
    with b show "scan_value f d (skip_ws cs) = scan_value h d (skip_ws cs)"
      by (intro IH(1)) auto
    assume "scan_value h d (skip_ws cs) = Done v r2" "next_char (skip_ws r2) = Done e es"
    then have "length (skip_ws es) + 2 \<le> length s"
      using l scan_value_shorter [of h d "skip_ws cs"] skip_ws_Cons_length [of r2 e es] skip_ws_length [of es]
      by (fastforce simp: next_char_Done)
    with b show "scan_members f d (skip_ws es) = scan_members h d (skip_ws es)"
      by (intro IH(3)) auto
  qed
  show ?thesis
    unfolding scan_members.simps(2) by (auto simp: * intro!: scan_bind_cong)
qed

lemma scan_fuel:
  "(\<forall>d s. 2 * length s < f \<longrightarrow> 2 * length s < g \<longrightarrow> scan_value f d s = scan_value g d s) \<and>
   (\<forall>d s. 2 * length s + 1 < f \<longrightarrow> 2 * length s + 1 < g \<longrightarrow> scan_elems f d s = scan_elems g d s) \<and>
   (\<forall>d s. 2 * length s + 1 < f \<longrightarrow> 2 * length s + 1 < g \<longrightarrow> scan_members f d s = scan_members g d s)"
proof (induction f arbitrary: g)
  case (Suc f)
  show ?case
  proof (cases g)
    case (Suc h)
    have IH: "2 * length s < f \<Longrightarrow> 2 * length s < h \<Longrightarrow> scan_value f d s = scan_value h d s"
      "2 * length s + 1 < f \<Longrightarrow> 2 * length s + 1 < h \<Longrightarrow> scan_elems f d s = scan_elems h d s"
      "2 * length s + 1 < f \<Longrightarrow> 2 * length s + 1 < h \<Longrightarrow> scan_members f d s = scan_members h d s" for d s
      using Suc.IH [of h] by blast+
    show ?thesis
      using fuel_value_step [OF IH] fuel_elems_step [OF IH] fuel_members_step [OF IH] Suc by blast
  qed simp
qed simp

section \<open>Objects whose members are strings\<close>

fun write_members :: "(bytes \<times> bytes) list \<Rightarrow> string" where
  "write_members [] = []"
| "write_members [(k, v)] = quote k @ [CHR '':''] @ quote v"
| "write_members ((k, v) # m # ms) =
     quote k @ [CHR '':''] @ quote v @ [CHR '',''] @ write_members (m # ms)"

definition write_object :: "(bytes \<times> bytes) list \<Rightarrow> string" where
  "write_object ms = [CHR ''{''] @ write_members ms @ [CHR ''}'']"

lemma dquote_not_space [simp]: "\<not> is_space dquote"
  by (simp add: is_space_def dquote_def)

lemma skip_ws_Cons: "\<not> is_space c \<Longrightarrow> skip_ws (c # cs) = c # cs"
  by (simp add: skip_ws_def)

lemma skip_ws_quote [simp]: "skip_ws (quote v @ t) = quote v @ t"
  by (simp add: quote_def skip_ws_Cons)

lemma punctuation_not_space [simp]:
  "\<not> is_space (CHR '':'')" "\<not> is_space (CHR '','')" "\<not> is_space (CHR ''}'')" "\<not> is_space (CHR ''{'')"
  by (simp_all add: is_space_def)

lemma skip_ws_members: "ms \<noteq> [] \<Longrightarrow> skip_ws (write_members ms @ t) = write_members ms @ t"
  by (cases ms rule: write_members.cases) simp_all

lemma scan_value_quote: "scan_value (Suc f) d (quote v @ t) = Done (JStr (sanitize v)) t"
  by (simp add: scan_value.simps(2) quote_def scan_str_quote_body)

lemma consumed_append [simp]: "consumed (xs @ t) t = xs"
  by (simp add: consumed_def)

lemma scan_member_quote:
  assumes "scan_value f d (quote v @ c # t) = Done (JStr (sanitize v)) (c # t)"
    and "c = CHR '','' \<or> c = CHR ''}''"
  shows "scan_members (Suc f) d (quote k @ CHR '':'' # quote v @ c # t) =
     (if c = CHR '','' then
        scan_map (Cons (sanitize k, quote v, JStr (sanitize v))) (scan_members f d (skip_ws t))
      else Done [(sanitize k, quote v, JStr (sanitize v))] t)"
proof -
  have k: "quote k @ CHR '':'' # quote v @ c # t =
      dquote # quote_body k @ dquote # CHR '':'' # quote v @ c # t"
    by (simp add: quote_def)
  have "\<not> is_space c" using assms(2) by auto
  then show ?thesis
    using assms unfolding k scan_members.simps(2) [of f]
    by (auto simp: scan_str_quote_body skip_ws_Cons)
qed

lemma scan_members_write:
  assumes "ms \<noteq> []" and "length ms < f"
  shows "scan_members f d (write_members ms @ CHR ''}'' # t) =
    Done (map (\<lambda>(k, v). (sanitize k, quote v, JStr (sanitize v))) ms) t"
  using assms
proof (induction ms arbitrary: f rule: write_members.induct)
  case (2 k v)
  obtain g where "f = Suc (Suc g)"
    using 2(2) by (cases f; cases "f - 1") auto
  then show ?case
    by (simp add: scan_member_quote [OF scan_value_quote])
next
  case (3 k v m ms)
  obtain g where f: "f = Suc (Suc g)"
    using 3(3) by (cases f; cases "f - 1") auto
  with 3 have "scan_members (Suc g) d (write_members (m # ms) @ CHR ''}'' # t) =
      Done (map (\<lambda>(k, v). (sanitize k, quote v, JStr (sanitize v))) (m # ms)) t"
    by simp
  with f show ?case
    by (simp add: scan_member_quote [OF scan_value_quote] skip_ws_members)
qed simp

lemma write_members_length: "length ms \<le> length (write_members ms)"
  by (induction ms rule: write_members.induct) (auto simp: quote_def)

lemma scan_value_object:
  assumes "skip_ws cs = e # es" and "e \<noteq> CHR ''}''"
  shows "scan_value (Suc f) 0 (CHR ''{'' # cs) = scan_map JObj (scan_members f (Suc 0) (skip_ws cs))"
  using assms by (simp add: scan_value.simps(2) dquote_def max_nesting_def)

lemma write_members_head:
  "ms \<noteq> [] \<Longrightarrow> \<exists>qs. write_members ms @ t = dquote # qs"
  by (cases ms rule: write_members.cases) (simp_all add: quote_def)

lemma scan_json_write:
  assumes "ms \<noteq> []"
  shows "scan_json (write_object ms @ t) =
    Done (JObj (map (\<lambda>(k, v). (sanitize k, quote v, JStr (sanitize v))) ms)) t"
proof -
  define body where "body = write_members ms @ CHR ''}'' # t"
  define fuel where "fuel = 2 * length (CHR ''{'' # body)"
  have s: "write_object ms @ t = CHR ''{'' # body"
    by (simp add: write_object_def body_def)
  have ws: "skip_ws body = body"
    unfolding body_def by (rule skip_ws_members [OF assms])
  obtain qs where q: "body = dquote # qs"
    using write_members_head [OF assms] body_def by blast
  have "length ms < fuel"
    using write_members_length [of ms] by (simp add: fuel_def body_def)
  then have "scan_members fuel (Suc 0) body =
      Done (map (\<lambda>(k, v). (sanitize k, quote v, JStr (sanitize v))) ms) t"
    unfolding body_def by (rule scan_members_write [OF assms])
  moreover have "scan_value (Suc fuel) 0 (CHR ''{'' # body) = scan_map JObj (scan_members fuel (Suc 0) (skip_ws body))"
    using ws q by (intro scan_value_object [of body dquote qs]) (simp, simp add: dquote_def)
  ultimately show ?thesis
    unfolding scan_json_def s Let_def fuel_def [symmetric] by (simp add: skip_ws_Cons ws fuel_def)
qed

end
