(* ===== verification/Json_Decode.thy ===== *)
theory Json_Decode
  imports Json Base64 "HOL-Library.AList"
begin

text \<open>
  Decoding a JSON value into Go data as \<^verbatim>\<open>encoding/json\<close> does, for the types the program
  decodes: strings, byte slices, slices, string maps and structs.  Every decoder takes the
  value already in the variable (a null leaves a string as it is, an array is decoded over the
  elements that are there) and returns the new value with a flag that is false when a type did
  not fit; the library then goes on and reports the error at the end.
\<close>

fun decode_string :: "bytes \<Rightarrow> json \<Rightarrow> bytes \<times> bool" where
  "decode_string old (JStr s) = (s, True)"
| "decode_string old JNull = (old, True)"
| "decode_string old _ = (old, False)"

text \<open>
  An array over the old elements, each decoded by \<^verbatim>\<open>f\<close> on top of the old element or of
  the zero value.
\<close>

fun decode_elems :: "('a \<Rightarrow> json \<Rightarrow> 'a \<times> bool) \<Rightarrow> 'a \<Rightarrow> 'a list \<Rightarrow> json list \<Rightarrow> 'a list \<times> bool" where
  "decode_elems f zero old [] = ([], True)"
| "decode_elems f zero old (v # vs) =
     (let (x, ok) = f (case old of [] \<Rightarrow> zero | o1 # _ \<Rightarrow> o1) v;
          (xs, ok') = decode_elems f zero (tl old) vs
      in (x # xs, ok \<and> ok'))"

fun decode_list :: "('a \<Rightarrow> json \<Rightarrow> 'a \<times> bool) \<Rightarrow> 'a \<Rightarrow> 'a list \<Rightarrow> json \<Rightarrow> 'a list \<times> bool" where
  "decode_list f zero old (JArr vs) = decode_elems f zero old vs"
| "decode_list f zero old JNull = ([], True)"
| "decode_list f zero old _ = (old, False)"

text \<open>A byte slice is a Base64 string or an array of small numbers.\<close>

fun decimal_value :: "nat \<Rightarrow> string \<Rightarrow> nat option" where
  "decimal_value acc [] = Some acc"
| "decimal_value acc (c # cs) =
     (if is_digit c then decimal_value (10 * acc + (of_char c - 48)) cs else None)"

fun decode_byte :: "char \<Rightarrow> json \<Rightarrow> char \<times> bool" where
  "decode_byte old (JNum l) =
     (case decimal_value 0 l of
        Some n \<Rightarrow> (if l \<noteq> [] \<and> n < 256 then (char_of n, True) else (old, False))
      | None \<Rightarrow> (old, False))"
| "decode_byte old JNull = (old, True)"
| "decode_byte old _ = (old, False)"

fun decode_bytes :: "bytes \<Rightarrow> json \<Rightarrow> bytes \<times> bool" where
  "decode_bytes old (JStr s) = (case b64_decode s of Some b \<Rightarrow> (b, True) | None \<Rightarrow> (old, False))"
| "decode_bytes old v = decode_list decode_byte (CHR 0x00) old v"

text \<open>A map: every member is decoded afresh and replaces what the key had.\<close>

fun decode_map ::
  "('a \<Rightarrow> json \<Rightarrow> 'a \<times> bool) \<Rightarrow> 'a \<Rightarrow> (bytes \<times> 'a) list \<Rightarrow> json \<Rightarrow> (bytes \<times> 'a) list \<times> bool" where
  "decode_map f zero old (JObj ms) =
     foldl (\<lambda>(m, ok) (key, raw, v). let (x, ok') = f zero v in (AList.update key x m, ok \<and> ok'))
       (old, True) ms"
| "decode_map f zero old JNull = ([], True)"
| "decode_map f zero old _ = (old, False)"

text \<open>
  A struct: a member goes to the field its key names, by \<^verbatim>\<open>put\<close>; a key of no field is
  skipped, or an error when unknown fields are disallowed.
\<close>

definition decode_member ::
  "bool \<Rightarrow> string list \<Rightarrow> (string \<Rightarrow> string \<Rightarrow> json \<Rightarrow> 'r \<Rightarrow> 'r \<times> bool) \<Rightarrow> 'r \<times> bool \<Rightarrow> bytes \<times> string \<times> json \<Rightarrow> 'r \<times> bool" where
  "decode_member strict names put st m =
     (case st of (r, ok) \<Rightarrow>
      case m of (key, raw, v) \<Rightarrow>
        (case find_field names key of
           None \<Rightarrow> (r, ok \<and> \<not> strict)
         | Some n \<Rightarrow> (case put n raw v r of (r', ok') \<Rightarrow> (r', ok \<and> ok'))))"

fun decode_struct ::
  "bool \<Rightarrow> string list \<Rightarrow> (string \<Rightarrow> string \<Rightarrow> json \<Rightarrow> 'r \<Rightarrow> 'r \<times> bool) \<Rightarrow> 'r \<Rightarrow> json \<Rightarrow> 'r \<times> bool" where
  "decode_struct strict names put r (JObj ms) = foldl (decode_member strict names put) (r, True) ms"
| "decode_struct strict names put r JNull = (r, True)"
| "decode_struct strict names put r _ = (r, False)"

text \<open>\<^verbatim>\<open>set_field upd (x, ok) r\<close> stores a decoded field.\<close>

definition set_field :: "('a \<Rightarrow> 'r \<Rightarrow> 'r) \<Rightarrow> 'a \<times> bool \<Rightarrow> 'r \<Rightarrow> 'r \<times> bool" where
  "set_field upd p r = (case p of (x, ok) \<Rightarrow> (upd x r, ok))"

lemma set_field_simp [simp]: "set_field upd (x, ok) r = (upd x r, ok)"
  by (simp add: set_field_def)

lemma decode_member_known:
  "find_field names key = Some n \<Longrightarrow> put n raw v r = (r', ok') \<Longrightarrow>
     decode_member strict names put (r, ok) (key, raw, v) = (r', ok \<and> ok')"
  by (simp add: decode_member_def)

lemma decode_member_unknown:
  "find_field names key = None \<Longrightarrow>
     decode_member strict names put (r, ok) (key, raw, v) = (r, ok \<and> \<not> strict)"
  by (simp add: decode_member_def)

lemma decode_members_False: "snd (foldl (decode_member strict names put) (r, False) ms) = False"
  by (induction ms arbitrary: r) (auto simp: decode_member_def split: option.splits prod.splits)

lemma find_field_exact: "key \<in> set names \<Longrightarrow> find_field names key = Some key"
  by (simp add: find_field_def)

end
