(* ===== verification/Wire.thy ===== *)
theory Wire
  imports Event Json_Roundtrip Json_Decode
begin

text \<open>
  The wire form of an event and its subject: \<^verbatim>\<open>wireEvent\<close>, \<^verbatim>\<open>subjectFor\<close>,
  \<^verbatim>\<open>checkToken\<close> and \<^verbatim>\<open>durableName\<close> of \<^verbatim>\<open>internal/bus/bus.go\<close>.  The body of a
  message is the JSON object \<^verbatim>\<open>json.Marshal\<close> writes for the struct (the payload in
  Base64, left out when empty); decoding is \<^verbatim>\<open>json.Unmarshal\<close> into the same struct,
  with its treatment of nulls, unknown keys, folded keys and type errors.
\<close>

section \<open>Encoding and decoding\<close>

definition wire_encode :: "event \<Rightarrow> string" where
  "wire_encode e =
     ''{'' @ quote ''type'' @ '':'' @ quote (ev_type e) @ '','' @
     quote ''workflowID'' @ '':'' @ quote (ev_workflow e) @
     (if ev_payload e = [] then []
      else '','' @ quote ''payload'' @ '':'' @ [dquote] @ b64_encode (ev_payload e) @ [dquote]) @ ''}''"

definition zero_event :: event where
  "zero_event = \<lparr>ev_type = [], ev_workflow = [], ev_payload = []\<rparr>"

definition wire_put :: "string \<Rightarrow> string \<Rightarrow> json \<Rightarrow> event \<Rightarrow> event \<times> bool" where
  "wire_put n raw v e =
     (if n = ''type'' then set_field (\<lambda>s. ev_type_update (\<lambda>_. s)) (decode_string (ev_type e) v) e
      else if n = ''workflowID'' then
        set_field (\<lambda>s. ev_workflow_update (\<lambda>_. s)) (decode_string (ev_workflow e) v) e
      else set_field (\<lambda>b. ev_payload_update (\<lambda>_. b)) (decode_bytes (ev_payload e) v) e)"

definition wire_decode :: "bytes \<Rightarrow> event option" where
  "wire_decode data =
     (case parse_json data of
        None \<Rightarrow> None
      | Some v \<Rightarrow>
          (case decode_struct False [''type'', ''workflowID'', ''payload''] wire_put zero_event v of
             (e, ok) \<Rightarrow> if ok then Some e else None))"

section \<open>Subjects\<close>

definition empty_workflow_token :: string where "empty_workflow_token = ''_''"
definition max_token_len :: nat where "max_token_len = 256"

definition blank_or_wild :: string where
  "blank_or_wild = [CHR '' '', CHR 0x09, CHR 0x0D, CHR 0x0A, CHR ''*'', CHR ''>'']"

datatype subject_error = InvalidType | TokenLength | TokenCharacter

definition check_token :: "string \<Rightarrow> subject_error option" where
  "check_token s =
     (if length s = 0 \<or> length s > max_token_len then Some TokenLength
      else if contains_any s blank_or_wild then Some TokenCharacter
      else None)"

definition workflow_token :: "event \<Rightarrow> string" where
  "workflow_token e = (if ev_workflow e = [] then empty_workflow_token else ev_workflow e)"

definition subject_for :: "event \<Rightarrow> subject_error + string" where
  "subject_for e =
     (if \<not> valid_type (ev_type e) then Inl InvalidType
      else let tok = workflow_token e in
        case check_token tok of
          Some err \<Rightarrow> Inl err
        | None \<Rightarrow> Inr (subject_prefix @ ''.'' @ ev_type e @ ''.'' @ tok))"

text \<open>The replacer of \<^verbatim>\<open>durableName\<close> maps single bytes, so it works byte by byte.\<close>

definition durable_char :: "char \<Rightarrow> string" where
  "durable_char c =
     (if c = CHR ''.'' then ''_''
      else if c = CHR ''*'' then ''all''
      else if c = CHR ''>'' then ''gt''
      else if c = CHR ''@'' then ''at''
      else [c])"

definition durable_name :: "string \<Rightarrow> string" where
  "durable_name subject = ''bw_'' @ concat (map durable_char subject)"

section \<open>Decoding an encoded event\<close>

lemma b64_encode_quoted: "[dquote] @ b64_encode p @ [dquote] = quote (b64_encode p)"
proof -
  have q: "quote_body cs = cs" if "\<forall>c \<in> set cs. c < CHR 0x80 \<and> escape_ascii c = [c]" for cs
    using that by (induction cs) (simp_all add: quote_body.simps(2))
  have p: "escape_ascii c = [c]" if "c \<in> set (CHR ''='' # alphabet)" for c
    using that by (simp add: alphabet_def) (elim disjE; simp add: escape_ascii_def)
  have "\<forall>c \<in> set (b64_encode p). c < CHR 0x80 \<and> escape_ascii c = [c]"
  proof
    fix c assume "c \<in> set (b64_encode p)"
    then have "c = CHR ''='' \<or> (\<exists>i < 64. c = b64_char i)" by (rule b64_encode_chars)
    then have "c \<in> set (CHR ''='' # alphabet)" "c < CHR 0x80"
      by (auto simp: b64_char_def length_alphabet) (metis b64_char_def b64_char_facts(8))
    then show "c < CHR 0x80 \<and> escape_ascii c = [c]" using p by blast
  qed
  then show ?thesis using q by (simp add: quote_def)
qed

definition wire_pairs :: "event \<Rightarrow> (bytes \<times> bytes) list" where
  "wire_pairs e = [(''type'', ev_type e), (''workflowID'', ev_workflow e)] @
     (if ev_payload e = [] then [] else [(''payload'', b64_encode (ev_payload e))])"

lemma wire_encode_object: "wire_encode e = write_object (wire_pairs e)"
  using b64_encode_quoted [of "ev_payload e"]
  by (auto simp: wire_encode_def write_object_def wire_pairs_def)

lemma parse_wire_encode:
  "parse_json (wire_encode e) =
     Some (JObj (map (\<lambda>(k, v). (sanitize k, quote v, JStr (sanitize v))) (wire_pairs e)))"
proof -
  have "wire_pairs e \<noteq> []" by (simp add: wire_pairs_def)
  from scan_json_write [OF this, of "[]"] show ?thesis
    unfolding wire_encode_object by (simp add: parse_json_def skip_ws_def)
qed

lemma field_names_utf8:
  "sanitize ''type'' = ''type''" "sanitize ''workflowID'' = ''workflowID''"
  "sanitize ''payload'' = ''payload''"
  by code_simp+

lemma sanitize_ascii: "list_all (\<lambda>c. c < CHR 0x80) s \<Longrightarrow> sanitize s = s"
  by (intro sanitize_valid valid_utf8_ascii)

lemma sanitize_b64: "sanitize (b64_encode p) = b64_encode p"
proof (rule sanitize_ascii)
  have "c < CHR 0x80" if "c \<in> set (b64_encode p)" for c
    using b64_encode_chars [OF that]
  proof
    assume "c = CHR ''=''"
    then show ?thesis by (simp add: less_char_def)
  next
    assume "\<exists>i < 64. c = b64_char i"
    then show ?thesis using b64_char_facts(8) by blast
  qed
  then show "list_all (\<lambda>c. c < CHR 0x80) (b64_encode p)"
    unfolding list_all_iff by blast
qed

lemma wire_put_fields:
  "wire_put ''type'' r (JStr s) e = (e\<lparr>ev_type := s\<rparr>, True)"
  "wire_put ''workflowID'' r (JStr s) e = (e\<lparr>ev_workflow := s\<rparr>, True)"
  "b64_decode s = Some b \<Longrightarrow> wire_put ''payload'' r (JStr s) e = (e\<lparr>ev_payload := b\<rparr>, True)"
  by (simp_all add: wire_put_def)

lemma wire_decode_encode:
  "wire_decode (wire_encode e) =
     Some \<lparr>ev_type = sanitize (ev_type e), ev_workflow = sanitize (ev_workflow e), ev_payload = ev_payload e\<rparr>"
  unfolding wire_decode_def parse_wire_encode wire_pairs_def
  by (simp add: field_names_utf8 sanitize_b64 decode_member_def find_field_def wire_put_fields
      b64_decode_encode zero_event_def)

lemma token_chars_ascii: "list_all token_char t \<Longrightarrow> list_all (\<lambda>c. c < CHR 0x80) t"
  by (induction t) (auto simp: token_char_def less_char_def less_eq_char_def)

lemma valid_type_ascii: "valid_type t \<Longrightarrow> list_all (\<lambda>c. c < CHR 0x80) t"
  using token_chars_ascii [of t] by (auto simp: valid_type_def broadcast_type_def less_char_def split: if_splits)

section \<open>Subjects and their tokens\<close>

lemma split_prefix: "split_on (CHR ''.'') (subject_prefix @ ''.'' @ s) = ''bw'' # ''evt'' # split_on (CHR ''.'') s"
  by (simp add: subject_prefix_def)

lemma subject_for_Inr:
  "subject_for e = Inr s \<longleftrightarrow>
     valid_type (ev_type e) \<and> check_token (workflow_token e) = None \<and>
     s = subject_prefix @ ''.'' @ ev_type e @ ''.'' @ workflow_token e"
  by (auto simp: subject_for_def Let_def split: option.splits)

lemma subject_for_split:
  assumes "subject_for e = Inr s"
  shows "split_on (CHR ''.'') s = ''bw'' # ''evt'' # ev_type e # split_on (CHR ''.'') (workflow_token e)"
proof -
  have "CHR ''.'' \<notin> set (ev_type e)"
    using assms valid_type_chars(2) by (simp add: subject_for_Inr)
  moreover have "s = subject_prefix @ ''.'' @ (ev_type e @ CHR ''.'' # workflow_token e)"
    using assms by (simp add: subject_for_Inr)
  ultimately show ?thesis
    by (simp only: split_prefix split_on_append_sep split_on_no_sep) simp
qed

section \<open>Durable names\<close>

lemma durable_token: "list_all token_char w \<Longrightarrow> concat (map durable_char w) = w"
proof (induction w)
  case (Cons c w)
  then have "c \<notin> set '' .*>@:/''" by (intro token_char_not_special(1)) simp
  with Cons show ?case by (auto simp: durable_char_def)
qed simp

lemma durable_char_cases:
  "x \<in> set (durable_char c) \<Longrightarrow> x \<notin> set ''.*>'' \<and> (x = c \<or> x \<in> set ''_algt'')"
  by (auto simp: durable_char_def split: if_splits)

lemma durable_name_append: "durable_name (s @ t) = durable_name s @ concat (map durable_char t)"
  by (simp add: durable_name_def)

lemma durable_name_chars:
  assumes "x \<in> set (durable_name s)"
  shows "x \<notin> set ''.*>''" and "x \<in> set s \<or> x \<in> set ''bw_algt''"
  using assms durable_char_cases by (fastforce simp: durable_name_def)+

lemma durable_scope:
  assumes "list_all token_char w"
  shows "durable_name (hd (subjects_for_workflow w)) =
    (if w = [] then ''bw_bw_evt_gt'' else ''bw_bw_evt_all_'' @ w)"
proof (cases w)
  case Nil
  then show ?thesis
    by (simp add: subjects_for_workflow_def event_consts durable_name_def durable_char_def)
next
  case (Cons c cs)
  have "durable_name (subject_prefix @ ''.*.'') = ''bw_bw_evt_all_''"
    by (simp add: event_consts durable_name_def durable_char_def)
  with Cons durable_token [OF assms] show ?thesis
    by (simp add: subjects_for_workflow_def durable_name_def)
qed

section \<open>Properties\<close>

text \<open>
  C11: the bytes \<^verbatim>\<open>Publish\<close> puts on the wire decode to the event again, with the whole
  payload, whatever its bytes; type and workflow come back with ill-formed UTF-8 replaced, so
  an event of a valid type and a workflow ID in UTF-8 comes back unchanged.
\<close>

theorem wire_roundtrip:
  "wire_decode (wire_encode e) =
     Some \<lparr>ev_type = sanitize (ev_type e), ev_workflow = sanitize (ev_workflow e), ev_payload = ev_payload e\<rparr> \<and>
   (valid_type (ev_type e) \<and> valid_utf8 (ev_workflow e) \<longrightarrow> wire_decode (wire_encode e) = Some e)"
  using wire_decode_encode [of e] by (simp add: sanitize_valid valid_utf8_ascii valid_type_ascii)

theorem wire_roundtrip_witness:
  "wire_decode (wire_encode \<lparr>ev_type = ''order'', ev_workflow = ''wf-1'', ev_payload = [CHR 0x00, CHR 0xFF]\<rparr>) =
     Some \<lparr>ev_type = ''order'', ev_workflow = ''wf-1'', ev_payload = [CHR 0x00, CHR 0xFF]\<rparr>"
proof -
  have "valid_type ''order''" "valid_utf8 ''wf-1''" by code_simp+
  then show ?thesis
    using wire_roundtrip [of "\<lparr>ev_type = ''order'', ev_workflow = ''wf-1'', ev_payload = [CHR 0x00, CHR 0xFF]\<rparr>",
      THEN conjunct2]
    by simp
qed

text \<open>
  C35: the subject of a publishable event has the fixed shape \<^verbatim>\<open>bw.evt.<type>.<workflow>\<close>:
  its first three tokens are the prefix and the type, the rest are those of the workflow ID
  (\<^verbatim>\<open>_\<close> for none), it holds no wildcard and no blank, and it determines the event's type
  and the workflow token; it exists exactly for the events whose type is valid and whose
  workflow token has 1 to 256 bytes and none of the six forbidden characters.
\<close>

theorem subject_shape:
  assumes "subject_for e = Inr s"
  shows "split_on (CHR ''.'') s = ''bw'' # ''evt'' # ev_type e # split_on (CHR ''.'') (workflow_token e) \<and>
    \<not> contains_any s blank_or_wild \<and>
    (\<forall>e'. subject_for e' = Inr s \<longleftrightarrow>
       valid_type (ev_type e') \<and> ev_type e' = ev_type e \<and> workflow_token e' = workflow_token e)"
proof (intro conjI)
  have e: "valid_type (ev_type e)" "check_token (workflow_token e) = None"
    "s = subject_prefix @ ''.'' @ ev_type e @ ''.'' @ workflow_token e"
    using assms by (simp_all add: subject_for_Inr)
  show "split_on (CHR ''.'') s = ''bw'' # ''evt'' # ev_type e # split_on (CHR ''.'') (workflow_token e)"
    using assms by (rule subject_for_split)
  have "\<not> contains_any (ev_type e) blank_or_wild"
    using e(1) token_chars_not_special [of "ev_type e"]
    by (auto simp: valid_type_def broadcast_type_def blank_or_wild_def contains_any_iff split: if_splits)
  moreover have "\<not> contains_any (workflow_token e) blank_or_wild"
    using e(2) by (simp add: check_token_def split: if_splits)
  ultimately show "\<not> contains_any s blank_or_wild"
    unfolding e(3) by (simp add: contains_any_def blank_or_wild_def event_consts)
  show "\<forall>e'. subject_for e' = Inr s \<longleftrightarrow>
       valid_type (ev_type e') \<and> ev_type e' = ev_type e \<and> workflow_token e' = workflow_token e"
  proof (intro allI iffI)
    fix e' assume e': "subject_for e' = Inr s"
    from subject_for_split [OF assms] subject_for_split [OF e']
    have "ev_type e' = ev_type e" "split_on (CHR ''.'') (workflow_token e') = split_on (CHR ''.'') (workflow_token e)"
      by simp_all
    then show "valid_type (ev_type e') \<and> ev_type e' = ev_type e \<and> workflow_token e' = workflow_token e"
      using e(1) split_on_inj by metis
  next
    fix e' assume "valid_type (ev_type e') \<and> ev_type e' = ev_type e \<and> workflow_token e' = workflow_token e"
    with e show "subject_for e' = Inr s" by (simp add: subject_for_Inr)
  qed
qed

theorem subject_shape_witness:
  "split_on (CHR ''.'') ''bw.evt.order.wf.1'' = [''bw'', ''evt'', ''order'', ''wf'', ''1''] \<and>
   \<not> contains_any ''bw.evt.order.wf.1'' blank_or_wild"
proof -
  have "subject_for \<lparr>ev_type = ''order'', ev_workflow = ''wf.1'', ev_payload = []\<rparr> = Inr ''bw.evt.order.wf.1''"
    by code_simp
  from subject_shape [OF this] show ?thesis by (simp add: workflow_token_def)
qed

text \<open>
  For scopes made of token characters the durable name is safe for the broker (no dot,
  wildcard or white space), and two instances share the durable of their first subscription
  exactly when they have the same scope; every scoped instance has the same broadcast durable.
\<close>

lemma durable_names_by_scope:
  assumes "list_all token_char w" and "list_all token_char w'"
  shows "(durable_name (hd (subjects_for_workflow w)) = durable_name (hd (subjects_for_workflow w')) \<longleftrightarrow> w = w') \<and>
    (\<forall>s \<in> set (subjects_for_workflow w). \<not> contains_any (durable_name s) (CHR ''.'' # blank_or_wild)) \<and>
    (w \<noteq> [] \<longrightarrow> durable_name (last (subjects_for_workflow w)) = ''bw_bw_evt_atbroadcast_gt'')"
proof (intro conjI)
  show "durable_name (hd (subjects_for_workflow w)) = durable_name (hd (subjects_for_workflow w')) \<longleftrightarrow> w = w'"
    unfolding durable_scope [OF assms(1)] durable_scope [OF assms(2)] by auto
  show last: "w \<noteq> [] \<longrightarrow> durable_name (last (subjects_for_workflow w)) = ''bw_bw_evt_atbroadcast_gt''"
    by (simp add: subjects_for_workflow_def event_consts durable_name_def durable_char_def)
  have w: "set w \<inter> set (CHR ''.'' # blank_or_wild) = {}"
    using token_chars_not_special [OF assms(1)] by (auto simp: blank_or_wild_def)
  have "\<not> contains_any (durable_name (hd (subjects_for_workflow w))) (CHR ''.'' # blank_or_wild)"
    unfolding durable_scope [OF assms(1)] using w by (simp add: contains_any_iff blank_or_wild_def)
  with last show "\<forall>s \<in> set (subjects_for_workflow w). \<not> contains_any (durable_name s) (CHR ''.'' # blank_or_wild)"
    by (cases "w = []") (simp_all add: subjects_for_workflow_def contains_any_iff blank_or_wild_def)
qed

text \<open>
  In general the durable name does not determine the subject: scopes that differ only in
  a dot against an underscore (both pass the publish and scope checks) share one durable, and
  white space is kept although a durable name may hold none.
\<close>

lemma durable_name_collides:
  "durable_name (subject_prefix @ ''.*.'' @ u @ ''.'' @ v) = durable_name (subject_prefix @ ''.*.'' @ u @ ''_'' @ v) \<and>
   subject_prefix @ ''.*.'' @ u @ ''.'' @ v \<noteq> subject_prefix @ ''.*.'' @ u @ ''_'' @ v \<and>
   (CHR '' '' \<in> set u \<longleftrightarrow> CHR '' '' \<in> set (durable_name u))"
proof -
  have "CHR '' '' \<in> set u \<longleftrightarrow> CHR '' '' \<in> set (durable_name u)"
    by (induction u) (auto simp: durable_name_def durable_char_def)
  then show ?thesis by (simp add: durable_name_def durable_char_def)
qed

end
