(* ===== verification/Ports.thy ===== *)
theory Ports
  imports Event
begin

text \<open>
  The ports of the domain as interfaces: \<^verbatim>\<open>event.Publisher\<close> (and the publishing half of
  \<^verbatim>\<open>event.Bus\<close>) and \<^verbatim>\<open>consumer.Repository\<close>.  Each locale fixes the operations of the
  port over a state of the adapter and assumes what the callers rely on; the clients' lemmas
  are proved here once, and every adapter of the program interprets the locale on its own
  operations (\<^verbatim>\<open>Bus\<close>, \<^verbatim>\<open>Store\<close>, \<^verbatim>\<open>Plugin_Store\<close>, \<^verbatim>\<open>Plugin_Publish\<close>).
\<close>

section \<open>Publishing\<close>

text \<open>
  \<^term>\<open>published s\<close> is what the transport has taken over, in order; \<^term>\<open>carried e\<close> is the
  event a subscriber gets for \<^term>\<open>e\<close>.  A publish that reports success has added exactly that
  event; one that reports an error has added it or nothing, because an acknowledgement may be
  lost after the transport stored the message.
\<close>

locale publisher =
  fixes publish :: "event \<Rightarrow> 's \<Rightarrow> 'err option \<times> 's"
    and published :: "'s \<Rightarrow> event list"
    and carried :: "event \<Rightarrow> event"
  assumes publish_ok: "publish e s = (None, s') \<Longrightarrow>
      published s' = published s @ [carried e] \<and> valid_type (ev_type e)"
    and publish_err: "publish e s = (Some err, s') \<Longrightarrow>
      published s' = published s \<or> published s' = published s @ [carried e]"
begin

lemma publish_invalid_type:
  "\<not> valid_type (ev_type e) \<Longrightarrow> fst (publish e s) \<noteq> None"
  using publish_ok [of e s] by (cases "publish e s"; cases "fst (publish e s)") auto

lemma publish_at_most_once:
  "published (snd (publish e s)) = published s \<or> published (snd (publish e s)) = published s @ [carried e]"
  using publish_ok publish_err by (cases "publish e s"; cases "fst (publish e s)") fastforce+

lemma publish_appends:
  "\<exists>es. published (snd (publish e s)) = published s @ es \<and> length es \<le> 1 \<and>
     (fst (publish e s) = None \<longrightarrow> es = [carried e])"
proof (cases "publish e s")
  case (Pair r s')
  show ?thesis
  proof (cases r)
    case None
    then show ?thesis using publish_ok [of e s s'] Pair by simp
  next
    case (Some err)
    then show ?thesis using publish_at_most_once [of e s] Pair by auto
  qed
qed

end

section \<open>Consumer state\<close>

text \<open>
  A missing key loads as nil without an error; a save that succeeds changes that key alone and
  one that fails has changed it or nothing (the statement may have been executed before the
  connection failed).  A nil state is saved as the empty one.
\<close>

locale repository =
  fixes load :: "string \<Rightarrow> 's \<Rightarrow> 'err + bytes option"
    and save :: "string \<Rightarrow> bytes option \<Rightarrow> 's \<Rightarrow> 'err option \<times> 's"
    and contents :: "'s \<Rightarrow> string \<Rightarrow> bytes option"
  assumes save_ok: "save k v s = (None, s') \<Longrightarrow>
      contents s' = (contents s)(k \<mapsto> case v of None \<Rightarrow> [] | Some b \<Rightarrow> b)"
    and save_err: "save k v s = (Some err, s') \<Longrightarrow>
      contents s' = contents s \<or>
      contents s' = (contents s)(k \<mapsto> case v of None \<Rightarrow> [] | Some b \<Rightarrow> b)"
    and load_ok: "load k s = Inr r \<Longrightarrow> r = contents s k"
begin

lemma load_after_save:
  assumes "save k v s = (None, s')" and "load k' s' = Inr r"
  shows "r = (if k' = k then Some (case v of None \<Rightarrow> [] | Some b \<Rightarrow> b) else contents s k')"
  using save_ok [OF assms(1)] load_ok [OF assms(2)] by simp

lemma save_other_key:
  assumes "k' \<noteq> k"
  shows "contents (snd (save k v s)) k' = contents s k'"
proof (cases "save k v s")
  case (Pair r s')
  show ?thesis
    using Pair assms save_ok [of k v s s'] save_err [of k v s _ s'] by (cases r) fastforce+
qed

lemma save_this_key:
  "contents (snd (save k v s)) k = contents s k \<or>
   contents (snd (save k v s)) k = Some (case v of None \<Rightarrow> [] | Some b \<Rightarrow> b)"
proof (cases "save k v s")
  case (Pair r s')
  show ?thesis
    using Pair save_ok [of k v s s'] save_err [of k v s _ s'] by (cases r) fastforce+
qed

end

end
