(* ===== verification/Bus.thy ===== *)
theory Bus
  imports Wire Ports
begin

text \<open>
  The NATS JetStream adapter \<^verbatim>\<open>internal/bus/bus.go\<close> (its wire form and subjects are in
  \<^verbatim>\<open>Wire\<close>): connecting and the stream, publishing, the delivery callback with its
  acknowledgements.  The client library and the broker are not in the repository; what a
  call of theirs answers is an argument of the definition that makes the call, and the calls
  made are part of the result where their order or absence matters.
\<close>

section \<open>Connecting\<close>

text \<open>
  Durations are \<^verbatim>\<open>time.Duration\<close> values, in nanoseconds.  The options of a connection are applied
  in order; the three handlers only log.
\<close>

datatype conn_opt =
    Client_name string | Dial_timeout int | Retry_on_failed_connect bool | Max_reconnects int
  | Reconnect_wait int | Reconnect_jitter int int
  | Disconnect_handler | Reconnect_handler | Closed_handler | Caller_option string

record bus_config =
  cfg_url :: string
  cfg_stream :: string
  cfg_name :: string
  cfg_timeout :: int
  cfg_ack_wait :: int
  cfg_options :: "conn_opt list"

record bus =
  bus_stream :: string
  bus_ack_wait :: int

definition second :: int where "second = 1000000000"
definition millisecond :: int where "millisecond = 1000000"
definition default_stream :: string where "default_stream = ''BYTESWARM''"
definition default_ack_wait :: int where "default_ack_wait = 30 * second"
definition max_deliver :: nat where "max_deliver = 5"

datatype info_reply = Stream_found | Stream_not_found | Info_failed

record nats_env =
  connect_ok :: bool
  jetstream_ok :: bool
  info_reply :: info_reply
  add_ok :: bool

datatype nats_call =
    Connect string "conn_opt list"
  | Make_context
  | Stream_info string
  | Add_stream string "string list"
  | Close_conn

datatype bus_error =
    No_url | No_logger | Connect_failed | Context_failed
  | Stream_info_failed | Add_stream_failed string
  | Bad_subject subject_error | Publish_failed string
  | No_subject | Subscribe_failed string

definition ensure_stream :: "nats_env \<Rightarrow> string \<Rightarrow> nats_call list \<times> bus_error option" where
  "ensure_stream env stream =
     (case info_reply env of
        Stream_found \<Rightarrow> ([Stream_info stream], None)
      | Info_failed \<Rightarrow> ([Stream_info stream], Some Stream_info_failed)
      | Stream_not_found \<Rightarrow>
          ([Stream_info stream, Add_stream stream [subject_all]],
           if add_ok env then None else Some (Add_stream_failed stream)))"

definition conn_options :: "bus_config \<Rightarrow> conn_opt list" where
  "conn_options cfg =
     (let timeout = (if cfg_timeout cfg = 0 then 5 * second else cfg_timeout cfg) in
      [Client_name (cfg_name cfg), Dial_timeout timeout, Retry_on_failed_connect True,
       Max_reconnects (- 1), Reconnect_wait (2 * second),
       Reconnect_jitter (500 * millisecond) (2 * second),
       Disconnect_handler, Reconnect_handler, Closed_handler] @ cfg_options cfg)"

lemma conn_options_own:
  "\<exists>own. conn_options cfg = own @ cfg_options cfg \<and> Retry_on_failed_connect True \<in> set own \<and>
     Max_reconnects (- 1) \<in> set own \<and> (\<exists>t. Dial_timeout t \<in> set own \<and> t \<noteq> 0)"
  by (auto simp: conn_options_def Let_def second_def)

definition new_bus :: "nats_env \<Rightarrow> bus_config \<Rightarrow> bool \<Rightarrow> nats_call list \<times> (bus_error + bus)" where
  "new_bus env cfg has_logger =
     (if cfg_url cfg = [] then ([], Inl No_url)
      else if \<not> has_logger then ([], Inl No_logger)
      else
        let stream = (if cfg_stream cfg = [] then default_stream else cfg_stream cfg);
            ack_wait = (if cfg_ack_wait cfg = 0 then default_ack_wait else cfg_ack_wait cfg);
            dial = [Connect (cfg_url cfg) (conn_options cfg)]
        in
          if \<not> connect_ok env then (dial, Inl Connect_failed)
          else if \<not> jetstream_ok env then (dial @ [Make_context, Close_conn], Inl Context_failed)
          else case ensure_stream env stream of
            (calls, Some err) \<Rightarrow> (dial @ [Make_context] @ calls @ [Close_conn], Inl err)
          | (calls, None) \<Rightarrow>
              (dial @ [Make_context] @ calls, Inr \<lparr>bus_stream = stream, bus_ack_wait = ack_wait\<rparr>))"

text \<open>Closing is a hard close: the subscriptions are not drained, so their durables stay.\<close>

definition bus_close :: "bus \<Rightarrow> nats_call list" where
  "bus_close b = [Close_conn]"

text \<open>A connection is open after the calls when it was dialled with success and not closed.\<close>

fun conn_open :: "nats_env \<Rightarrow> nats_call list \<Rightarrow> bool \<Rightarrow> bool" where
  "conn_open env [] b = b"
| "conn_open env (Connect u os # cs) b = conn_open env cs (b \<or> connect_ok env)"
| "conn_open env (Close_conn # cs) b = conn_open env cs False"
| "conn_open env (_ # cs) b = conn_open env cs b"

section \<open>Publishing\<close>

record message =
  msg_subject :: string
  msg_data :: bytes

text \<open>
  The broker acknowledges a publish after storing the message; an error may come before or
  after it was stored.  Encoding a \<^verbatim>\<open>wireEvent\<close> cannot fail.
\<close>

datatype pub_reply = Pub_acked | Pub_error_stored | Pub_error_lost

definition bus_publish :: "pub_reply \<Rightarrow> event \<Rightarrow> message list \<Rightarrow> bus_error option \<times> message list" where
  "bus_publish reply e ms =
     (case subject_for e of
        Inl err \<Rightarrow> (Some (Bad_subject err), ms)
      | Inr subject \<Rightarrow>
          let m = \<lparr>msg_subject = subject, msg_data = wire_encode e\<rparr> in
          (case reply of
             Pub_acked \<Rightarrow> (None, ms @ [m])
           | Pub_error_stored \<Rightarrow> (Some (Publish_failed subject), ms @ [m])
           | Pub_error_lost \<Rightarrow> (Some (Publish_failed subject), ms)))"

definition carried :: "event \<Rightarrow> event" where
  "carried e = \<lparr>ev_type = sanitize (ev_type e), ev_workflow = sanitize (ev_workflow e), ev_payload = ev_payload e\<rparr>"

fun stream_events :: "message list \<Rightarrow> event list" where
  "stream_events [] = []"
| "stream_events (m # ms) =
     (case wire_decode (msg_data m) of None \<Rightarrow> stream_events ms | Some e \<Rightarrow> e # stream_events ms)"

lemma stream_events_append: "stream_events (ms @ ns) = stream_events ms @ stream_events ns"
  by (induction ms) (auto split: option.splits)

lemma stream_events_encode [simp]:
  "stream_events [\<lparr>msg_subject = s, msg_data = wire_encode e\<rparr>] = [carried e]"
  by (simp add: wire_decode_encode carried_def)

lemma carried_ok: "valid_type (ev_type e) \<Longrightarrow> valid_utf8 (ev_workflow e) \<Longrightarrow> carried e = e"
  by (simp add: carried_def sanitize_valid valid_utf8_ascii valid_type_ascii)

lemma published_message:
  assumes "bus_publish reply e ms = (None, ms')" and "valid_utf8 (ev_workflow e)"
  obtains m where "ms' = ms @ [m]" "subject_for e = Inr (msg_subject m)" "wire_decode (msg_data m) = Some e"
proof -
  obtain subject where s: "subject_for e = Inr subject"
    "ms' = ms @ [\<lparr>msg_subject = subject, msg_data = wire_encode e\<rparr>]"
    using assms(1) by (auto simp: bus_publish_def Let_def split: sum.splits pub_reply.splits)
  then have "wire_decode (wire_encode e) = Some e"
    using carried_ok [OF _ assms(2)] subject_for_Inr [of e] by (simp add: wire_decode_encode carried_def)
  with s show thesis by (intro that [of "\<lparr>msg_subject = subject, msg_data = wire_encode e\<rparr>"]) simp_all
qed

interpretation jetstream: publisher "bus_publish reply" stream_events carried for reply
proof
  fix e ms ms'
  assume "bus_publish reply e ms = (None, ms')"
  then show "stream_events ms' = stream_events ms @ [carried e] \<and> valid_type (ev_type e)"
    by (auto simp: bus_publish_def stream_events_append subject_for_Inr Let_def
        simp del: stream_events.simps split: sum.splits pub_reply.splits)
next
  fix e ms err ms'
  assume "bus_publish reply e ms = (Some err, ms')"
  then show "stream_events ms' = stream_events ms \<or> stream_events ms' = stream_events ms @ [carried e]"
    by (auto simp: bus_publish_def stream_events_append Let_def
        simp del: stream_events.simps split: sum.splits pub_reply.splits)
qed

section \<open>Subscribing\<close>

datatype sub_opt =
    Durable string | Manual_ack | Deliver_all | Max_deliver nat | Ack_wait int
  | Ack_none | Start_time int

text \<open>The subscription asked of the broker, if any, and the error.\<close>

definition bus_subscribe :: "bool \<Rightarrow> bus \<Rightarrow> string \<Rightarrow> (string \<times> sub_opt list) option \<times> bus_error option" where
  "bus_subscribe subscribe_ok b subject =
     (if subject = [] then (None, Some No_subject)
      else
        (Some (subject,
          [Durable (durable_name subject), Manual_ack, Deliver_all, Max_deliver max_deliver,
           Ack_wait (bus_ack_wait b)]),
         if subscribe_ok then None else Some (Subscribe_failed subject)))"

section \<open>Delivering\<close>

record delivery =
  dl_data :: bytes
  dl_number :: "nat option"

datatype settlement = Ack | Nak | Term

type_synonym ('s, 'err) handler = "event \<Rightarrow> 's \<Rightarrow> 'err option \<times> 's"

definition on_message :: "('s, 'err) handler \<Rightarrow> delivery \<Rightarrow> 's \<Rightarrow> settlement \<times> 's" where
  "on_message handle m s =
     (case wire_decode (dl_data m) of
        None \<Rightarrow> (Term, s)
      | Some e \<Rightarrow>
          (case handle e s of
             (Some err, s') \<Rightarrow>
               (case dl_number m of
                  Some n \<Rightarrow> (if n \<ge> max_deliver then (Term, s') else (Nak, s'))
                | None \<Rightarrow> (Nak, s'))
           | (None, s') \<Rightarrow> (Ack, s')))"

section \<open>Properties\<close>

lemmas new_bus_defs = new_bus_def ensure_stream_def Let_def

text \<open>
  C36: connecting never leaks a connection: after a failure of any kind no connection is open,
  after a success it is, until the bus is closed.  A bus that is returned has a stream name and an
  acknowledgement wait that are not zero, and its stream either existed or was created to capture
  every event subject.  Every connection is dialled with a timeout that is not zero, to retry the
  first connect and to reconnect without a limit, and the options of the caller come last.
\<close>

theorem new_bus_no_leak:
  "(case new_bus env cfg has_logger of
      (calls, Inl err) \<Rightarrow> \<not> conn_open env calls False
    | (calls, Inr b) \<Rightarrow> conn_open env calls False \<and> bus_stream b \<noteq> [] \<and> bus_ack_wait b \<noteq> 0 \<and>
        Stream_info (bus_stream b) \<in> set calls \<and>
        (info_reply env = Stream_found \<or>
         info_reply env = Stream_not_found \<and> add_ok env \<and>
         Add_stream (bus_stream b) [''bw.evt.>''] \<in> set calls) \<and>
        \<not> conn_open env (calls @ bus_close b) False) \<and>
   list_all (\<lambda>call. case call of
       Connect url opts \<Rightarrow> url = cfg_url cfg \<and> url \<noteq> [] \<and> (\<exists>own. opts = own @ cfg_options cfg \<and>
         Retry_on_failed_connect True \<in> set own \<and> Max_reconnects (- 1) \<in> set own \<and>
         (\<exists>t. Dial_timeout t \<in> set own \<and> t \<noteq> 0))
     | _ \<Rightarrow> True) (fst (new_bus env cfg has_logger))"
proof
  show "case new_bus env cfg has_logger of
      (calls, Inl err) \<Rightarrow> \<not> conn_open env calls False
    | (calls, Inr b) \<Rightarrow> conn_open env calls False \<and> bus_stream b \<noteq> [] \<and> bus_ack_wait b \<noteq> 0 \<and>
        Stream_info (bus_stream b) \<in> set calls \<and>
        (info_reply env = Stream_found \<or>
         info_reply env = Stream_not_found \<and> add_ok env \<and>
         Add_stream (bus_stream b) [''bw.evt.>''] \<in> set calls) \<and>
        \<not> conn_open env (calls @ bus_close b) False"
    by (cases "info_reply env")
      (simp_all add: new_bus_defs subject_all_def subject_prefix_def default_stream_def
        default_ack_wait_def second_def bus_close_def)
  have dial: "fst (new_bus env cfg has_logger) = [] \<or>
      cfg_url cfg \<noteq> [] \<and> (\<exists>rest. fst (new_bus env cfg has_logger) = Connect (cfg_url cfg) (conn_options cfg) # rest \<and>
        list_all (\<lambda>call. \<forall>url opts. call \<noteq> Connect url opts) rest)"
    by (cases "info_reply env") (simp_all add: new_bus_defs)
  moreover have "list_all (\<lambda>call. case call of Connect url opts \<Rightarrow> P url opts | _ \<Rightarrow> True) rest"
    if "list_all (\<lambda>call. \<forall>url opts. call \<noteq> Connect url opts) rest" for P rest
    using that by (induction rest) (auto split: nats_call.split)
  ultimately show "list_all (\<lambda>call. case call of
       Connect url opts \<Rightarrow> url = cfg_url cfg \<and> url \<noteq> [] \<and> (\<exists>own. opts = own @ cfg_options cfg \<and>
         Retry_on_failed_connect True \<in> set own \<and> Max_reconnects (- 1) \<in> set own \<and>
         (\<exists>t. Dial_timeout t \<in> set own \<and> t \<noteq> 0))
     | _ \<Rightarrow> True) (fst (new_bus env cfg has_logger))"
    using conn_options_own [of cfg] by auto
qed

text \<open>
  C21: publishing stores at most one message.  It succeeds only when the broker acknowledged
  the message, which then carries the event's subject and decodes to the event; an event
  without a subject is refused before anything is sent; on an error of the broker the message
  may have been stored (delivery is at least once).
\<close>

theorem bus_publish_spec:
  "(case bus_publish reply e ms of
      (None, ms') \<Rightarrow> reply = Pub_acked \<and> (\<exists>m. ms' = ms @ [m] \<and> subject_for e = Inr (msg_subject m) \<and>
          wire_decode (msg_data m) = Some (carried e))
    | (Some (Bad_subject err), ms') \<Rightarrow> ms' = ms \<and> subject_for e = Inl err
    | (Some _, ms') \<Rightarrow> reply \<noteq> Pub_acked \<and> (ms' \<noteq> ms \<longleftrightarrow> reply = Pub_error_stored)) \<and>
   (stream_events (snd (bus_publish reply e ms)) = stream_events ms \<or>
    stream_events (snd (bus_publish reply e ms)) = stream_events ms @ [carried e])"
proof
  show "stream_events (snd (bus_publish reply e ms)) = stream_events ms \<or>
    stream_events (snd (bus_publish reply e ms)) = stream_events ms @ [carried e]"
    by (rule jetstream.publish_at_most_once)
  have "wire_decode (wire_encode e) = Some (carried e)"
    by (simp add: wire_decode_encode carried_def)
  then show "(case bus_publish reply e ms of
      (None, ms') \<Rightarrow> reply = Pub_acked \<and> (\<exists>m. ms' = ms @ [m] \<and> subject_for e = Inr (msg_subject m) \<and>
          wire_decode (msg_data m) = Some (carried e))
    | (Some (Bad_subject err), ms') \<Rightarrow> ms' = ms \<and> subject_for e = Inl err
    | (Some _, ms') \<Rightarrow> reply \<noteq> Pub_acked \<and> (ms' \<noteq> ms \<longleftrightarrow> reply = Pub_error_stored))"
    by (cases "subject_for e"; cases reply) (simp_all add: bus_publish_def Let_def)
qed

end
