(* ===== verification/Delivery.thy ===== *)
theory Delivery
  imports Bus
begin

text \<open>
  At-least-once delivery of one stored message to one durable consumer: the callback of
  \<^verbatim>\<open>JetStreamBus.Subscribe\<close> (\<^term>\<open>on_message\<close>) in a loop with the broker, as a step
  relation whose steps are delivery attempts.

  The broker is a parameter, \<^verbatim>\<open>redeliver\<close>: given the settlement it received for the
  latest attempt (none when it got none before the acknowledgement wait ran out, say because
  the process died) and the number of attempts so far, whether it delivers again.
  \<^verbatim>\<open>broker_contract\<close> states what JetStream documents for the options the code passes
  (explicit acknowledgement, \<^verbatim>\<open>MaxDeliver\<close>): a settled message is not delivered again, an
  unsettled or negatively acknowledged one is, up to the limit.
\<close>

definition broker_contract :: "(settlement option \<Rightarrow> nat \<Rightarrow> bool) \<Rightarrow> bool" where
  "broker_contract redeliver \<longleftrightarrow>
     (\<forall>n. \<not> redeliver (Some Ack) n \<and> \<not> redeliver (Some Term) n) \<and>
     (\<forall>n. n < max_deliver \<longrightarrow> redeliver (Some Nak) n \<and> redeliver None n) \<and>
     (\<forall>l n. max_deliver \<le> n \<longrightarrow> \<not> redeliver l n)"

text \<open>
  The state of the message: attempts made, the settlement the broker holds, the state the
  handler works on, and the callback's decisions so far, the latest one last.
\<close>

record 's track =
  attempts :: nat
  settled :: "settlement option"
  app_state :: 's
  decisions :: "settlement list"

definition fresh :: "'s \<Rightarrow> 's track" where
  "fresh s = \<lparr>attempts = 0, settled = None, app_state = s, decisions = []\<rparr>"

definition attempt_delivery :: "bool \<Rightarrow> bytes \<Rightarrow> nat \<Rightarrow> delivery" where
  "attempt_delivery meta_ok data n = \<lparr>dl_data = data, dl_number = (if meta_ok then Some (Suc n) else None)\<rparr>"

inductive attempt ::
  "(settlement option \<Rightarrow> nat \<Rightarrow> bool) \<Rightarrow> bool \<Rightarrow> ('s, 'err) handler \<Rightarrow> bytes \<Rightarrow> 's track \<Rightarrow> 's track \<Rightarrow> bool"
  for redeliver meta_ok handle data where
  deliver: "redeliver (settled t) (attempts t) \<Longrightarrow>
    on_message handle (attempt_delivery meta_ok data (attempts t)) (app_state t) = (d, s') \<Longrightarrow>
    arrived = None \<or> arrived = Some d \<Longrightarrow>
    attempt redeliver meta_ok handle data t
      \<lparr>attempts = Suc (attempts t), settled = arrived, app_state = s', decisions = decisions t @ [d]\<rparr>"

inductive reached ::
  "(settlement option \<Rightarrow> nat \<Rightarrow> bool) \<Rightarrow> bool \<Rightarrow> ('s, 'err) handler \<Rightarrow> bytes \<Rightarrow> 's \<Rightarrow> 's track \<Rightarrow> bool"
  for redeliver meta_ok handle data s where
  start: "reached redeliver meta_ok handle data s (fresh s)"
| step: "reached redeliver meta_ok handle data s t \<Longrightarrow> attempt redeliver meta_ok handle data t t' \<Longrightarrow>
    reached redeliver meta_ok handle data s t'"

inductive_simps attempt_simps: "attempt redeliver meta_ok handle data t t'"
inductive_cases attempt_elim: "attempt redeliver meta_ok handle data t t'"

section \<open>The callback's decisions\<close>

lemma on_message_undecodable: "wire_decode (dl_data m) = None \<Longrightarrow> on_message h m s = (Term, s)"
  by (simp add: on_message_def)

lemma on_message_Ack:
  "on_message h m s = (Ack, s') \<longleftrightarrow>
     (\<exists>e. wire_decode (dl_data m) = Some e \<and> h e s = (None, s'))"
  by (auto simp: on_message_def split: option.splits prod.splits if_splits)

lemma on_message_Term:
  "on_message h m s = (Term, s') \<Longrightarrow>
     wire_decode (dl_data m) = None \<or> (\<exists>n. dl_number m = Some n \<and> max_deliver \<le> n)"
  by (auto simp: on_message_def split: option.splits prod.splits if_splits)

lemma on_message_failing:
  assumes "wire_decode (dl_data m) = Some e" and "fst (h e s) \<noteq> None"
  shows "fst (on_message h m s) =
    (if (\<exists>n. dl_number m = Some n \<and> max_deliver \<le> n) then Term else Nak)"
  using assms by (cases "h e s") (auto simp: on_message_def split: option.splits)

lemma broker_contractD:
  assumes "broker_contract redeliver" and "redeliver l n"
  shows "n < max_deliver" and "l = None \<or> l = Some Nak"
proof -
  show "n < max_deliver"
    using assms unfolding broker_contract_def by (meson not_less)
  show "l = None \<or> l = Some Nak"
  proof (cases l)
    case (Some d)
    then show ?thesis using assms by (cases d) (simp_all add: broker_contract_def)
  qed simp
qed

section \<open>Invariant of the attempts\<close>

definition track_inv :: "'s \<Rightarrow> bytes \<Rightarrow> 's track \<Rightarrow> bool" where
  "track_inv s data t \<longleftrightarrow>
     attempts t \<le> max_deliver \<and> length (decisions t) = attempts t \<and>
     (settled t = None \<or> decisions t \<noteq> [] \<and> settled t = Some (last (decisions t))) \<and>
     (wire_decode data = None \<longrightarrow> app_state t = s \<and> set (decisions t) \<subseteq> {Term}) \<and>
     (wire_decode data \<noteq> None \<longrightarrow> (\<forall>i < attempts t. decisions t ! i = Term \<longrightarrow> max_deliver \<le> Suc i))"

lemma track_inv_fresh: "track_inv s data (fresh s)"
  by (simp add: track_inv_def fresh_def)

lemma track_inv_step:
  assumes c: "broker_contract redeliver" and i: "track_inv s data t"
    and a: "attempt redeliver meta_ok handle data t t'"
  shows "track_inv s data t'"
  using a
proof (rule attempt_elim)
  fix d s' arrived
  assume t': "t' = \<lparr>attempts = Suc (attempts t), settled = arrived, app_state = s', decisions = decisions t @ [d]\<rparr>"
    and r: "redeliver (settled t) (attempts t)"
    and m: "on_message handle (attempt_delivery meta_ok data (attempts t)) (app_state t) = (d, s')"
    and arr: "arrived = None \<or> arrived = Some d"
  have len: "length (decisions t) = attempts t" using i by (simp add: track_inv_def)
  have "attempts t < max_deliver" using broker_contractD(1) [OF c r] .
  moreover have "wire_decode data = None \<longrightarrow> d = Term \<and> s' = app_state t"
    using m on_message_undecodable [of "attempt_delivery meta_ok data (attempts t)" handle "app_state t"]
    by (simp add: attempt_delivery_def)
  moreover have "wire_decode data \<noteq> None \<longrightarrow> d = Term \<longrightarrow> max_deliver \<le> Suc (attempts t)"
    using m on_message_Term [of handle "attempt_delivery meta_ok data (attempts t)" "app_state t" s']
    by (auto simp: attempt_delivery_def split: if_splits)
  ultimately show ?thesis
    using i arr len unfolding t' track_inv_def
    by (auto simp: nth_append less_Suc_eq)
qed

lemma reached_inv:
  assumes "broker_contract redeliver" and "reached redeliver meta_ok handle data s t"
  shows "track_inv s data t"
  using assms(2)
  by (induction rule: reached.induct) (auto intro: track_inv_fresh track_inv_step [OF assms(1)])

lemma attempts_step: "attempt redeliver meta_ok handle data t t' \<Longrightarrow> attempts t' = Suc (attempts t)"
  by (auto elim: attempt_elim)

lemma attempt_possible:
  assumes "redeliver (settled t) (attempts t)"
  shows "\<exists>t'. attempt redeliver meta_ok handle data t t'"
proof -
  obtain d s' where "on_message handle (attempt_delivery meta_ok data (attempts t)) (app_state t) = (d, s')"
    by fastforce
  then show ?thesis
    unfolding attempt_simps using assms by blast
qed

lemma broker_stops:
  assumes "broker_contract redeliver" and "\<not> redeliver l n" and "n < max_deliver"
  shows "l = Some Ack \<or> l = Some Term"
proof (cases l)
  case None
  then show ?thesis using assms by (simp add: broker_contract_def)
next
  case (Some d)
  then show ?thesis using assms by (cases d) (simp_all add: broker_contract_def)
qed

lemma reached_failing:
  assumes c: "broker_contract redeliver" and d: "wire_decode data = Some e"
    and f: "\<And>s. fst (handle e s) \<noteq> None"
    and r: "reached redeliver meta_ok handle data s t"
  shows "\<forall>x \<in> set (decisions t). x \<noteq> Ack" and
    "\<forall>i < attempts t. decisions t ! i = (if meta_ok \<and> max_deliver \<le> Suc i then Term else Nak)"
proof -
  have "length (decisions t) = attempts t \<and>
      (\<forall>i < attempts t. decisions t ! i = (if meta_ok \<and> max_deliver \<le> Suc i then Term else Nak))"
    using r
  proof (induction rule: reached.induct)
    case (step t t')
    from step.hyps(2) show ?case
    proof (rule attempt_elim)
      fix x s' arrived
      assume t': "t' = \<lparr>attempts = Suc (attempts t), settled = arrived, app_state = s', decisions = decisions t @ [x]\<rparr>"
        and m: "on_message handle (attempt_delivery meta_ok data (attempts t)) (app_state t) = (x, s')"
      have "x = (if meta_ok \<and> max_deliver \<le> Suc (attempts t) then Term else Nak)"
        using on_message_failing [of "attempt_delivery meta_ok data (attempts t)" e handle "app_state t"] m d f
        by (simp add: attempt_delivery_def)
      with step.IH show ?thesis unfolding t' by (auto simp: nth_append less_Suc_eq)
    qed
  qed (simp add: fresh_def)
  then show "\<forall>i < attempts t. decisions t ! i = (if meta_ok \<and> max_deliver \<le> Suc i then Term else Nak)"
    and "\<forall>x \<in> set (decisions t). x \<noteq> Ack"
    by (simp, metis in_set_conv_nth settlement.distinct(1,3))
qed

lemma stuck_inv:
  assumes c: "broker_contract redeliver" and inv: "track_inv s data t"
    and "\<not> redeliver (settled t) (attempts t)"
  shows "if wire_decode data = None
    then app_state t = s \<and> set (decisions t) = {Term}
    else (Ack \<in> set (decisions t) \<or> attempts t = 5) \<and>
      (\<forall>i < attempts t. decisions t ! i = Term \<longrightarrow> Suc i = 5)"
proof -
  have stop: "attempts t = max_deliver \<or> settled t = Some Ack \<or> settled t = Some Term"
    using assms(3) broker_stops [OF c, of "settled t" "attempts t"] inv
    by (auto simp: track_inv_def)
  show ?thesis
  proof (cases "wire_decode data")
    case None
    have "decisions t \<noteq> []"
      using inv stop by (auto simp: track_inv_def max_deliver_def)
    then show ?thesis
      using inv None by (auto simp: track_inv_def subset_singleton_iff)
  next
    case (Some e)
    have early: "\<forall>i < attempts t. decisions t ! i = Term \<longrightarrow> Suc i = 5"
      using inv Some by (fastforce simp: track_inv_def max_deliver_def)
    moreover have "Ack \<in> set (decisions t) \<or> attempts t = 5"
    proof (cases "attempts t = max_deliver")
      case False
      then have s: "settled t = Some Ack \<or> settled t = Some Term" using stop by blast
      then have l: "decisions t \<noteq> []" "settled t = Some (last (decisions t))"
        using inv by (auto simp: track_inv_def)
      have "last (decisions t) \<noteq> Term"
      proof
        assume "last (decisions t) = Term"
        then have "decisions t ! (attempts t - 1) = Term" "attempts t - 1 < attempts t"
          using l(1) inv length_greater_0_conv [of "decisions t"]
          by (simp_all add: track_inv_def last_conv_nth)
        then have "Suc (attempts t - 1) = 5" using early by blast
        then show False using False by (simp add: max_deliver_def)
      qed
      then show ?thesis using l s by (metis last_in_set option.inject)
    qed (simp add: max_deliver_def)
    ultimately show ?thesis using Some by simp
  qed
qed

lemma stuck_outcome:
  assumes "broker_contract redeliver" and "reached redeliver meta_ok handle data s t"
    and "\<nexists>t'. attempt redeliver meta_ok handle data t t'"
  shows "if wire_decode data = None
    then app_state t = s \<and> set (decisions t) = {Term}
    else (Ack \<in> set (decisions t) \<or> attempts t = 5) \<and>
      (\<forall>i < attempts t. decisions t ! i = Term \<longrightarrow> Suc i = 5)"
  using assms(3) attempt_possible by (intro stuck_inv [OF assms(1) reached_inv [OF assms(1,2)]]) blast

text \<open>
  The attempts as a function of the handler: the state its attempt number \<^verbatim>\<open>i\<close> works on, and what
  the callback decides after it.
\<close>

definition state_before :: "('s, 'err) handler \<Rightarrow> event \<Rightarrow> 's \<Rightarrow> nat \<Rightarrow> 's" where
  "state_before handle e s i = ((\<lambda>u. snd (handle e u)) ^^ i) s"

definition accepts_at :: "('s, 'err) handler \<Rightarrow> event \<Rightarrow> 's \<Rightarrow> nat \<Rightarrow> bool" where
  "accepts_at handle e s i \<longleftrightarrow> fst (handle e (state_before handle e s i)) = None"

lemma reached_decisions:
  assumes "wire_decode data = Some e" and "reached redeliver meta_ok handle data s t"
  shows "app_state t = state_before handle e s (attempts t) \<and> length (decisions t) = attempts t \<and>
    (\<forall>i < attempts t. decisions t ! i =
       (if accepts_at handle e s i then Ack else if meta_ok \<and> max_deliver \<le> Suc i then Term else Nak))"
  using assms(2)
proof (induction rule: reached.induct)
  case start
  then show ?case by (simp add: fresh_def state_before_def)
next
  case (step t t')
  from step.hyps(2) show ?case
  proof (rule attempt_elim)
    fix x s' arrived
    assume t': "t' = \<lparr>attempts = Suc (attempts t), settled = arrived, app_state = s', decisions = decisions t @ [x]\<rparr>"
      and m: "on_message handle (attempt_delivery meta_ok data (attempts t)) (app_state t) = (x, s')"
    obtain r u where h: "handle e (app_state t) = (r, u)" by fastforce
    have "x = (if r = None then Ack else if meta_ok \<and> max_deliver \<le> Suc (attempts t) then Term else Nak)" "s' = u"
      using m h assms(1) by (auto simp: on_message_def attempt_delivery_def split: option.splits if_splits)
    then show ?thesis
      using step.IH h unfolding t' by (auto simp: nth_append less_Suc_eq accepts_at_def state_before_def)
  qed
qed

section \<open>Properties\<close>

text \<open>
  Redelivery is bounded.  Whatever the handler does and whatever settlements get lost, a
  message is handed to the callback at most five times, and there is no infinite run of
  deliveries of it.
\<close>

lemma redelivery_bounded:
  assumes "broker_contract redeliver" and "reached redeliver meta_ok handle data s t"
  shows "attempts t \<le> 5 \<and> length (decisions t) = attempts t \<and>
    \<not> (\<exists>f. f 0 = t \<and> (\<forall>i. attempt redeliver meta_ok handle data (f i) (f (Suc i))))"
proof -
  have inv: "track_inv s data t" using assms by (rule reached_inv)
  have "\<not> (f 0 = t \<and> (\<forall>i. attempt redeliver meta_ok handle data (f i) (f (Suc i))))" for f
  proof
    assume f: "f 0 = t \<and> (\<forall>i. attempt redeliver meta_ok handle data (f i) (f (Suc i)))"
    have "reached redeliver meta_ok handle data s (f i) \<and> attempts (f i) = attempts t + i" for i
    proof (induction i)
      case (Suc i)
      then show ?case using f reached.step attempts_step by fastforce
    qed (use f assms(2) in simp)
    then have "attempts (f 6) = attempts t + 6" "reached redeliver meta_ok handle data s (f 6)"
      by blast+
    then show False using reached_inv [OF assms(1), of meta_ok handle data s "f 6"]
      by (simp add: track_inv_def max_deliver_def)
  qed
  with inv show ?thesis by (auto simp: track_inv_def max_deliver_def)
qed

definition five_deliveries :: "settlement option \<Rightarrow> nat \<Rightarrow> bool" where
  "five_deliveries l n = (n < max_deliver \<and> (l = None \<or> l = Some Nak))"

lemma five_deliveries_contract: "broker_contract five_deliveries"
  by (auto simp: broker_contract_def five_deliveries_def)

text \<open>
  C9: no event is dropped before its attempts are used up.  When the broker stops delivering a
  message that decodes, the handler accepted the event in one of the attempts made, on the state
  the attempts before it left, or all five attempts were made; the message is acknowledged by
  exactly the attempts in which the handler accepted it, terminated by a failed fifth attempt only,
  and asked for again by every other failure.  A message that does not decode is only terminated,
  and the handler is never run on it.
\<close>

theorem no_early_drop:
  assumes "broker_contract redeliver" and "reached redeliver meta_ok handle data s t"
    and "\<nexists>t'. attempt redeliver meta_ok handle data t t'"
  shows "case wire_decode data of
      None \<Rightarrow> app_state t = s \<and> set (decisions t) = {Term}
    | Some e \<Rightarrow>
        ((\<exists>i < attempts t. accepts_at handle e s i) \<or> attempts t = 5) \<and>
        length (decisions t) = attempts t \<and> app_state t = state_before handle e s (attempts t) \<and>
        (\<forall>i < attempts t. decisions t ! i =
           (if accepts_at handle e s i then Ack else if meta_ok \<and> Suc i = 5 then Term else Nak))"
proof (cases "wire_decode data")
  case None
  then show ?thesis using stuck_outcome [OF assms] by simp
next
  case (Some e)
  note d = reached_decisions [OF Some assms(2)]
  have n: "attempts t \<le> 5" using reached_inv [OF assms(1,2)] by (simp add: track_inv_def max_deliver_def)
  have "Ack \<in> set (decisions t) \<or> attempts t = 5" using stuck_outcome [OF assms] Some by simp
  then have "(\<exists>i < attempts t. accepts_at handle e s i) \<or> attempts t = 5"
    using d by (auto simp: in_set_conv_nth split: if_splits)
  moreover have "max_deliver \<le> Suc i \<longleftrightarrow> Suc i = 5" if "i < attempts t" for i
    using that n by (auto simp: max_deliver_def)
  ultimately show ?thesis using d Some by simp
qed

theorem no_early_drop_witness:
  "\<exists>t. reached five_deliveries True (\<lambda>_ n :: nat. (if n = 0 then Some () else None, Suc n)) ''{}'' 0 t \<and>
     decisions t = [Nak, Ack] \<and> app_state t = 2 \<and>
     accepts_at (\<lambda>_ n :: nat. (if n = 0 then Some () else None, Suc n)) zero_event 0 1"
proof -
  let ?h = "\<lambda>_ n :: nat. (if n = 0 then Some () else None, Suc n)"
  let ?t1 = "\<lparr>attempts = 1, settled = Some Nak, app_state = 1 :: nat, decisions = [Nak]\<rparr>"
  let ?t2 = "\<lparr>attempts = 2, settled = Some Ack, app_state = 2 :: nat, decisions = [Nak, Ack]\<rparr>"
  have d: "wire_decode ''{}'' = Some zero_event" by code_simp
  have one: "attempt five_deliveries True ?h ''{}'' (fresh 0) ?t1" and two: "attempt five_deliveries True ?h ''{}'' ?t1 ?t2"
    by (simp_all add: attempt_simps fresh_def five_deliveries_def max_deliver_def on_message_def attempt_delivery_def d)
  have r: "reached five_deliveries True ?h ''{}'' 0 ?t2"
    by (rule reached.step [OF reached.step [OF reached.start one] two])
  have stuck: "\<nexists>t'. attempt five_deliveries True ?h ''{}'' ?t2 t'" by (simp add: attempt_simps five_deliveries_def)
  from no_early_drop [OF five_deliveries_contract r stuck]
  have "\<forall>i < 2. decisions ?t2 ! i = (if accepts_at ?h zero_event 0 i then Ack else if Suc i = 5 then Term else Nak)"
    by (simp add: d)
  from this [rule_format, of 1] have "accepts_at ?h zero_event 0 1" by (simp split: if_splits)
  then show ?thesis using r by (intro exI [of _ ?t2]) simp
qed

text \<open>
  C15: a poison event ends.  If the handler fails on the event every time, the callback asks
  for redelivery four times and terminates the message on the fifth attempt (without delivery
  metadata it asks for redelivery again and the broker's own limit stops it).
\<close>

theorem poison_terminated:
  assumes "broker_contract redeliver" and "wire_decode data = Some e"
    and "\<And>s. fst (handle e s) \<noteq> None"
    and "reached redeliver meta_ok handle data s t"
    and "\<nexists>t'. attempt redeliver meta_ok handle data t t'"
  shows "decisions t = [Nak, Nak, Nak, Nak, if meta_ok then Term else Nak]"
proof -
  note failing = reached_failing [OF assms(1-4)]
  have inv: "track_inv s data t" using assms(1,4) by (rule reached_inv)
  have "\<not> redeliver (settled t) (attempts t)" using assms(5) attempt_possible by blast
  moreover have len: "length (decisions t) = attempts t" "attempts t \<le> max_deliver"
    using inv by (simp_all add: track_inv_def)
  moreover have "settled t = Some Nak \<or> settled t = None" if "attempts t < max_deliver"
  proof (cases "decisions t = []")
    case False
    then have "0 < length (decisions t)" by simp
    then have "last (decisions t) = decisions t ! (attempts t - 1)" "attempts t - 1 < attempts t"
      using False len by (simp_all add: last_conv_nth)
    then have "last (decisions t) = Nak" using failing(2) that by auto
    then show ?thesis using inv by (auto simp: track_inv_def)
  qed (use inv in \<open>auto simp: track_inv_def\<close>)
  ultimately have "attempts t = 5"
    using broker_stops [OF assms(1), of "settled t" "attempts t"]
    by (cases "attempts t < max_deliver") (auto simp: max_deliver_def)
  then have l: "length (decisions t) = 5"
    "\<forall>i < 5. decisions t ! i = (if meta_ok \<and> max_deliver \<le> Suc i then Term else Nak)"
    using len failing(2) by simp_all
  have "decisions t = map (\<lambda>i. if meta_ok \<and> max_deliver \<le> Suc i then Term else Nak) [0..<5]"
    by (rule nth_equalityI) (use l in simp_all)
  then show ?thesis by (simp add: max_deliver_def upt_rec numeral_eq_Suc)
qed

theorem poison_terminated_witness:
  "\<exists>t. reached five_deliveries True (\<lambda>_ n :: nat. (Some (), Suc n)) ''{}'' 0 t \<and>
     decisions t = [Nak, Nak, Nak, Nak, Term]"
proof -
  let ?h = "\<lambda>_ n :: nat. (Some (), Suc n)"
  define run where "run n = \<lparr>attempts = n,
      settled = (if n = 0 then None else Some (if n < 5 then Nak else Term)), app_state = n,
      decisions = replicate (min n 4) Nak @ (if n < 5 then [] else [Term])\<rparr>" for n :: nat
  have d: "wire_decode ''{}'' = Some zero_event" by code_simp
  have stuck: "\<nexists>t'. attempt five_deliveries True ?h ''{}'' (run 5) t'"
    by (simp add: attempt_simps five_deliveries_def run_def)
  have one: "attempt five_deliveries True ?h ''{}'' (run n) (run (Suc n))" if "n < 5" for n
  proof (cases "n = 4")
    case False
    with that have "n < 4" by simp
    then show ?thesis
      using d by (simp add: attempt_simps run_def five_deliveries_def max_deliver_def
          on_message_def attempt_delivery_def replicate_append_same)
  qed (simp add: attempt_simps run_def five_deliveries_def max_deliver_def on_message_def
      attempt_delivery_def d)
  have "n \<le> 5 \<Longrightarrow> reached five_deliveries True ?h ''{}'' 0 (run n)" for n
  proof (induction n)
    case 0
    have "run 0 = fresh 0" by (simp add: run_def fresh_def)
    then show ?case using reached.start by metis
  next
    case (Suc n)
    then show ?case using one [of n] by (auto intro: reached.step)
  qed
  then have r: "reached five_deliveries True ?h ''{}'' 0 (run 5)" by blast
  have "decisions (run 5) = [Nak, Nak, Nak, Nak, if True then Term else Nak]"
    using poison_terminated [OF five_deliveries_contract d _ r stuck] by simp
  with r show ?thesis by auto
qed

end
