(* ===== verification/Registry.thy ===== *)
theory Registry
  imports Bus
begin

text \<open>
  The consumer registry \<^verbatim>\<open>internal/consumer/registry.go\<close>: registration, dispatch of one
  event to its consumers, the recovered panics, the subscriptions of an instance.  A consumer
  is the \<^verbatim>\<open>Handle\<close> method of the port as a function on the state all consumers act on; a
  panic is an outcome of it.  One dispatch is a function here; the lock only guards the
  maps, which nothing changes after start, and dispatches that overlap are in \<^verbatim>\<open>Concurrent\<close>.
\<close>

section \<open>Registration\<close>

datatype 'err outcome = Returned "'err option" | Panicked string

record ('s, 'err) consumer =
  con_declared :: "string option"
  con_go_type :: string
  con_handle :: "event \<Rightarrow> 's \<Rightarrow> 'err outcome \<times> 's"

text \<open>A consumer that declares its own event types.\<close>

record ('s, 'err) subscriber = "('s, 'err) consumer" +
  sub_events :: "string list"

text \<open>The name in log lines and panic errors: the declared one, or the Go type.\<close>

definition consumer_name :: "('s, 'err, 'more) consumer_scheme \<Rightarrow> string" where
  "consumer_name c = (case con_declared c of Some n \<Rightarrow> n | None \<Rightarrow> con_go_type c)"

record ('s, 'err) registry =
  by_type :: "string \<Rightarrow> ('s, 'err) consumer list"
  all_consumers :: "('s, 'err) consumer list"

definition new_registry :: "('s, 'err) registry" where
  "new_registry = \<lparr>by_type = (\<lambda>_. []), all_consumers = []\<rparr>"

fun subscribe_types ::
  "('s, 'err) consumer \<Rightarrow> string list \<Rightarrow> (string \<Rightarrow> ('s, 'err) consumer list) \<Rightarrow> string \<Rightarrow> ('s, 'err) consumer list" where
  "subscribe_types c [] m = m"
| "subscribe_types c (t # ts) m = subscribe_types c ts (m(t := m t @ [c]))"

definition register ::
  "('s, 'err) consumer \<Rightarrow> string list \<Rightarrow> ('s, 'err) registry \<Rightarrow> ('s, 'err) registry" where
  "register c events r =
     r\<lparr>by_type := subscribe_types c events (by_type r), all_consumers := all_consumers r @ [c]\<rparr>"

definition register_subscriber :: "('s, 'err) subscriber \<Rightarrow> ('s, 'err) registry \<Rightarrow> ('s, 'err) registry" where
  "register_subscriber s r = register (consumer.truncate s) (sub_events s) r"

section \<open>Dispatch\<close>

datatype 'err handle_error = Handler_error 'err | Handler_panic string

datatype dispatch_error = Handlers_failed nat nat string

definition targets :: "('s, 'err) registry \<Rightarrow> string \<Rightarrow> ('s, 'err) consumer list" where
  "targets r t = (if t = broadcast_type then all_consumers r else by_type r t)"

definition safe_handle :: "('s, 'err) consumer \<Rightarrow> event \<Rightarrow> 's \<Rightarrow> 'err handle_error option \<times> 's" where
  "safe_handle c e s =
     (case con_handle c e s of
        (Panicked p, s') \<Rightarrow> (Some (Handler_panic (consumer_name c)), s')
      | (Returned (Some err), s') \<Rightarrow> (Some (Handler_error err), s')
      | (Returned None, s') \<Rightarrow> (None, s'))"

fun handle_targets :: "('s, 'err) consumer list \<Rightarrow> event \<Rightarrow> nat \<Rightarrow> 's \<Rightarrow> nat \<times> 's" where
  "handle_targets [] e failed s = (failed, s)"
| "handle_targets (c # cs) e failed s =
     (case safe_handle c e s of
        (Some _, s') \<Rightarrow> handle_targets cs e (failed + 1) s'
      | (None, s') \<Rightarrow> handle_targets cs e failed s')"

definition dispatch :: "('s, 'err) registry \<Rightarrow> event \<Rightarrow> 's \<Rightarrow> dispatch_error option \<times> 's" where
  "dispatch r e s =
     (let ts = targets r (ev_type e) in
      case handle_targets ts e 0 s of
        (failed, s') \<Rightarrow>
          (if failed > 0 then Some (Handlers_failed failed (length ts) (ev_type e)) else None, s'))"

section \<open>Running\<close>

text \<open>
  \<^verbatim>\<open>Run\<close> up to the wait for cancellation: the subscriptions in order, stopping at the first
  that fails.  Every subscription has \<^term>\<open>dispatch r\<close> as its handler.
\<close>

fun subscribe_all ::
  "(string \<Rightarrow> bool) \<Rightarrow> bus \<Rightarrow> string list \<Rightarrow> (string \<times> sub_opt list) list \<times> (string \<times> bus_error) option" where
  "subscribe_all ok b [] = ([], None)"
| "subscribe_all ok b (subject # subjects) =
     (case bus_subscribe (ok subject) b subject of
        (req, Some err) \<Rightarrow> (case req of None \<Rightarrow> [] | Some q \<Rightarrow> [q], Some (subject, err))
      | (req, None) \<Rightarrow>
          (case subscribe_all ok b subjects of
             (reqs, res) \<Rightarrow> ((case req of None \<Rightarrow> [] | Some q \<Rightarrow> [q]) @ reqs, res)))"

definition registry_run ::
  "(string \<Rightarrow> bool) \<Rightarrow> bus \<Rightarrow> string \<Rightarrow> (string \<times> sub_opt list) list \<times> (string \<times> bus_error) option" where
  "registry_run ok b workflow = subscribe_all ok b (subjects_for_workflow workflow)"

section \<open>Facts about registration and dispatch\<close>

lemma subscribe_types_apply:
  "subscribe_types c ts m t = m t @ replicate (count_list ts t) c"
  by (induction ts arbitrary: m) (simp_all add: replicate_app_Cons_same)

lemma targets_register:
  "targets (register c events r) t =
     targets r t @ (if t = broadcast_type then [c] else replicate (count_list events t) c)"
  by (simp add: targets_def register_def subscribe_types_apply)

definition state_after :: "('s, 'err) consumer list \<Rightarrow> event \<Rightarrow> 's \<Rightarrow> 's" where
  "state_after cs e s = fold (\<lambda>c s. snd (con_handle c e s)) cs s"

definition failures :: "('s, 'err) consumer list \<Rightarrow> event \<Rightarrow> 's \<Rightarrow> nat" where
  "failures cs e s =
     length (filter (\<lambda>i. fst (con_handle (cs ! i) e (state_after (take i cs) e s)) \<noteq> Returned None)
       [0..<length cs])"

lemma safe_handle_snd [simp]: "snd (safe_handle c e s) = snd (con_handle c e s)"
  by (auto simp: safe_handle_def split: prod.splits outcome.splits option.splits)

lemma safe_handle_None: "fst (safe_handle c e s) = None \<longleftrightarrow> fst (con_handle c e s) = Returned None"
  by (auto simp: safe_handle_def split: prod.splits outcome.splits option.splits)

lemma failures_Cons:
  "failures (c # cs) e s =
     (if fst (con_handle c e s) = Returned None then 0 else 1) + failures cs e (snd (con_handle c e s))"
proof -
  have "[0..<length (c # cs)] = 0 # map Suc [0..<length cs]"
    unfolding map_Suc_upt by (simp add: upt_conv_Cons del: upt_Suc)
  then show ?thesis
    by (simp add: failures_def state_after_def filter_map o_def)
qed

lemma handle_targets_spec:
  "handle_targets cs e n s = (n + failures cs e s, state_after cs e s)"
proof (induction cs arbitrary: n s)
  case (Cons c cs)
  obtain r s' where h: "safe_handle c e s = (r, s')" by fastforce
  then have s': "s' = snd (con_handle c e s)" using safe_handle_snd [of c e s] by simp
  have r: "r = None \<longleftrightarrow> fst (con_handle c e s) = Returned None"
    using h safe_handle_None [of c e s] by simp
  show ?case
    using Cons.IH h r by (cases r) (simp_all add: failures_Cons s' state_after_def)
qed (simp add: failures_def state_after_def)

lemma dispatch_spec:
  "dispatch r e s =
     (let cs = targets r (ev_type e); n = failures cs e s in
      (if n > 0 then Some (Handlers_failed n (length cs) (ev_type e)) else None, state_after cs e s))"
  by (simp add: dispatch_def handle_targets_spec Let_def)

lemma failures_zero:
  "failures cs e s = 0 \<longleftrightarrow>
     (\<forall>i < length cs. fst (con_handle (cs ! i) e (state_after (take i cs) e s)) = Returned None)"
  by (auto simp: failures_def filter_empty_conv)

section \<open>Which deliveries a scope gets\<close>

text \<open>
  Subject matching is the broker's.  \<^verbatim>\<open>nats_matching\<close> states what NATS documents for the
  two pattern shapes the program uses, on their dot-separated tokens: a final \<^verbatim>\<open>>\<close> stands
  for one token or more, a \<^verbatim>\<open>*\<close> for exactly one.
\<close>

definition wild_free :: "string \<Rightarrow> bool" where
  "wild_free p = (\<not> contains_any p ''*>'')"

definition nats_matching :: "(string \<Rightarrow> string \<Rightarrow> bool) \<Rightarrow> bool" where
  "nats_matching matches \<longleftrightarrow>
     (\<forall>p s. wild_free p \<longrightarrow> matches (p @ ''.>'') s =
        (\<exists>t ts. split_on (CHR ''.'') s = split_on (CHR ''.'') p @ t # ts)) \<and>
     (\<forall>p w s. wild_free p \<and> wild_free w \<longrightarrow> matches (p @ ''.*.'' @ w) s =
        (\<exists>t. split_on (CHR ''.'') s = split_on (CHR ''.'') p @ t # split_on (CHR ''.'') w))"

text \<open>A matcher on tokens, to show that the contract can hold.\<close>

fun token_match :: "string list \<Rightarrow> string list \<Rightarrow> bool" where
  "token_match [] ts = (ts = [])"
| "token_match (p # ps) [] = False"
| "token_match (p # ps) (t # ts) =
     (if p = ''>'' then True else (p = ''*'' \<or> p = t) \<and> token_match ps ts)"

lemma token_match_literal:
  "''>'' \<notin> set us \<Longrightarrow> ''*'' \<notin> set us \<Longrightarrow>
     token_match (us @ ps) ts \<longleftrightarrow> (\<exists>vs. ts = us @ vs \<and> token_match ps vs)"
proof (induction us arbitrary: ts)
  case (Cons u us)
  then show ?case by (cases ts) auto
qed simp

lemma wild_free_tokens:
  assumes "wild_free p"
  shows "''>'' \<notin> set (split_on (CHR ''.'') p)" and "''*'' \<notin> set (split_on (CHR ''.'') p)"
proof -
  have "set w \<subseteq> set p" if "w \<in> set (split_on (CHR ''.'') p)" for w
    using that by (induction p arbitrary: w) (fastforce split: list.splits if_splits)+
  then show "''>'' \<notin> set (split_on (CHR ''.'') p)" and "''*'' \<notin> set (split_on (CHR ''.'') p)"
    using assms by (fastforce simp: wild_free_def contains_any_iff)+
qed

lemma nats_matching_tokens:
  "nats_matching (\<lambda>p s. token_match (split_on (CHR ''.'') p) (split_on (CHR ''.'') s))"
proof -
  have "token_match (split_on (CHR ''.'') (p @ ''.>'')) ts = (\<exists>t us. ts = split_on (CHR ''.'') p @ t # us)"
    if "wild_free p" for p ts
  proof -
    have "split_on (CHR ''.'') (p @ ''.>'') = split_on (CHR ''.'') p @ [''>'']"
      using split_on_append_sep [of "CHR ''.''" p "''>''"] by simp
    then show ?thesis
      using token_match_literal [OF wild_free_tokens [OF that], of "[''>'']" ts]
      by (auto elim: token_match.elims)
  qed
  moreover have "token_match (split_on (CHR ''.'') (p @ ''.*.'' @ w)) ts =
      (\<exists>t. ts = split_on (CHR ''.'') p @ t # split_on (CHR ''.'') w)"
    if "wild_free p" "wild_free w" for p w ts
  proof -
    have "split_on (CHR ''.'') (p @ ''.*.'' @ w) = split_on (CHR ''.'') p @ ''*'' # split_on (CHR ''.'') w"
      using split_on_append_sep [of "CHR ''.''" p "''*.'' @ w"] by simp
    moreover have "token_match (split_on (CHR ''.'') w) vs \<longleftrightarrow> vs = split_on (CHR ''.'') w" for vs
      using token_match_literal [OF wild_free_tokens [OF that(2)], of "[]" vs] by auto
    ultimately show ?thesis
      using token_match_literal [OF wild_free_tokens [OF that(1)], of "''*'' # split_on (CHR ''.'') w" ts]
      by (auto elim: token_match.elims)
  qed
  ultimately show ?thesis unfolding nats_matching_def by blast
qed

definition deliveries :: "(string \<Rightarrow> string \<Rightarrow> bool) \<Rightarrow> string \<Rightarrow> string \<Rightarrow> nat" where
  "deliveries matches workflow subject =
     length (filter (\<lambda>p. matches p subject) (subjects_for_workflow workflow))"

lemma scope_matches:
  assumes "nats_matching matches" and "subject_for e = Inr s"
  shows "matches ''bw.evt.>'' s"
    and "wild_free workflow \<Longrightarrow> matches (''bw.evt.*.'' @ workflow) s \<longleftrightarrow> workflow_token e = workflow"
    and "matches ''bw.evt.@broadcast.>'' s \<longleftrightarrow> ev_type e = broadcast_type"
proof -
  have s: "split_on (CHR ''.'') s = ''bw'' # ''evt'' # ev_type e # split_on (CHR ''.'') (workflow_token e)"
    using assms(2) by (rule subject_for_split)
  have wf: "wild_free ''bw.evt''" "wild_free ''bw.evt.@broadcast''" by code_simp+
  obtain t ts where w: "split_on (CHR ''.'') (workflow_token e) = t # ts"
    by (cases "split_on (CHR ''.'') (workflow_token e)") auto
  show "matches ''bw.evt.>'' s"
  proof -
    have "matches (''bw.evt'' @ ''.>'') s \<longleftrightarrow>
        (\<exists>t ts. split_on (CHR ''.'') s = split_on (CHR ''.'') ''bw.evt'' @ t # ts)"
      using assms(1) wf(1) unfolding nats_matching_def by blast
    then show ?thesis by (simp add: s)
  qed
  show "matches (''bw.evt.*.'' @ workflow) s \<longleftrightarrow> workflow_token e = workflow" if w': "wild_free workflow"
  proof -
    have "matches (''bw.evt'' @ ''.*.'' @ workflow) s \<longleftrightarrow>
        (\<exists>t. split_on (CHR ''.'') s = split_on (CHR ''.'') ''bw.evt'' @ t # split_on (CHR ''.'') workflow)"
      using assms(1) w' wf(1) unfolding nats_matching_def by blast
    also have "\<dots> \<longleftrightarrow> split_on (CHR ''.'') (workflow_token e) = split_on (CHR ''.'') workflow"
      by (auto simp: s)
    also have "\<dots> \<longleftrightarrow> workflow_token e = workflow"
      by (auto dest: split_on_inj)
    finally show ?thesis by simp
  qed
  show "matches ''bw.evt.@broadcast.>'' s \<longleftrightarrow> ev_type e = broadcast_type"
  proof -
    have "matches (''bw.evt.@broadcast'' @ ''.>'') s \<longleftrightarrow>
        (\<exists>t ts. split_on (CHR ''.'') s = split_on (CHR ''.'') ''bw.evt.@broadcast'' @ t # ts)"
      using assms(1) wf(2) unfolding nats_matching_def by blast
    then show ?thesis by (auto simp: s w broadcast_type_def)
  qed
qed

lemma deliveries_count:
  assumes "nats_matching matches" and "subject_for e = Inr s" and "wild_free workflow"
  shows "deliveries matches workflow s =
    (if workflow = [] then 1
     else (if workflow_token e = workflow then 1 else 0) + (if ev_type e = broadcast_type then 1 else 0))"
  using scope_matches [OF assms(1,2)] assms(3)
  by (simp add: deliveries_def subjects_for_workflow_def subject_all_def subject_prefix_def broadcast_type_def)

lemma scope_subscribed:
  assumes "nats_matching matches" and "subject_for e = Inr s" and "wild_free workflow"
    and "workflow = [] \<or> workflow_token e = workflow \<or> ev_type e = broadcast_type"
  obtains i where "i < length (subjects_for_workflow workflow)" "matches (subjects_for_workflow workflow ! i) s"
proof -
  have "0 < deliveries matches workflow s" using deliveries_count [OF assms(1-3)] assms(4) by auto
  then obtain p where "p \<in> set (subjects_for_workflow workflow)" "matches p s"
    by (auto simp: deliveries_def filter_empty_conv)
  with that show thesis by (auto simp: in_set_conv_nth)
qed

section \<open>Properties\<close>

text \<open>
  Registration decides the targets.  After any registrations an event of an ordinary type
  goes to the consumers that listed it, in the order of registration and once per mention (a
  type listed twice runs its consumer twice); a broadcast goes to every registered consumer
  exactly once per registration, listed or not.
\<close>

lemma targets_after_registrations:
  "targets (fold (\<lambda>(c, events). register c events) regs new_registry) t =
     (if t = broadcast_type then map fst regs
      else concat (map (\<lambda>(c, events). replicate (count_list events t) c) regs))"
proof (induction regs rule: rev_induct)
  case Nil
  show ?case by (simp add: targets_def new_registry_def)
next
  case (snoc x regs)
  then show ?case by (cases x) (simp add: targets_register)
qed

text \<open>
  C16: dispatch isolates the consumers.  Every target's handler runs, in order, on the event
  and on the state the ones before it left, whether or not they failed or panicked; the
  dispatch reports an error exactly when some handler returned one or panicked, and the error
  names how many of how many failed.
\<close>

theorem dispatch_isolated:
  "(case dispatch r e s of (err, s') \<Rightarrow>
     s' = fold (\<lambda>c s. snd (con_handle c e s)) (targets r (ev_type e)) s \<and>
     (err = None \<longleftrightarrow> (\<forall>i < length (targets r (ev_type e)).
        fst (con_handle (targets r (ev_type e) ! i) e
          (fold (\<lambda>c s. snd (con_handle c e s)) (take i (targets r (ev_type e))) s)) = Returned None)) \<and>
     (err \<noteq> None \<longrightarrow> err = Some (Handlers_failed (failures (targets r (ev_type e)) e s)
        (length (targets r (ev_type e))) (ev_type e))))"
  using failures_zero [of "targets r (ev_type e)" e s]
  by (auto simp: dispatch_spec Let_def state_after_def)

theorem dispatch_isolated_witness:
  "fst (dispatch (register \<lparr>con_declared = Some ''a'', con_go_type = '''', con_handle = \<lambda>e n. (Panicked ''boom'', n + 1)\<rparr> [''t'']
      (register \<lparr>con_declared = None, con_go_type = ''*main.b'', con_handle = \<lambda>e n :: nat. (Returned (None :: unit option), n + 1)\<rparr> [''t''] new_registry))
      \<lparr>ev_type = ''t'', ev_workflow = [], ev_payload = []\<rparr> 0) \<noteq> None"
proof -
  let ?a = "\<lparr>con_declared = Some ''a'', con_go_type = '''', con_handle = \<lambda>e n. (Panicked ''boom'', n + 1)\<rparr>"
  let ?b = "\<lparr>con_declared = None, con_go_type = ''*main.b'', con_handle = \<lambda>e n :: nat. (Returned (None :: unit option), n + 1)\<rparr>"
  let ?r = "register ?a [''t''] (register ?b [''t''] new_registry)"
  have "targets ?r ''t'' = [?b, ?a]"
    by (simp add: targets_def register_def new_registry_def broadcast_type_def)
  then show ?thesis
    using dispatch_isolated [where r = ?r and e = "\<lparr>ev_type = ''t'', ev_workflow = [], ev_payload = []\<rparr>" and s = 0]
    by (cases "dispatch ?r \<lparr>ev_type = ''t'', ev_workflow = [], ev_payload = []\<rparr> 0") auto
qed

text \<open>
  C19: an unscoped instance gets every publishable event once.  An instance scoped to a
  workflow gets the events of that workflow and the broadcasts, nothing else; a broadcast
  published with the instance's own workflow ID matches both of its subscriptions and is
  delivered twice.
\<close>

theorem scope_deliveries:
  assumes "nats_matching matches" and "subject_for e = Inr s" and "wild_free workflow"
  shows "deliveries matches workflow s =
    (if workflow = [] then 1
     else (if workflow_token e = workflow then 1 else 0) + (if ev_type e = broadcast_type then 1 else 0))"
  using assms by (rule deliveries_count)

theorem scope_deliveries_witness:
  "deliveries (\<lambda>p s. token_match (split_on (CHR ''.'') p) (split_on (CHR ''.'') s)) ''w1'' ''bw.evt.@broadcast.w1'' = 2"
proof -
  have "subject_for \<lparr>ev_type = broadcast_type, ev_workflow = ''w1'', ev_payload = []\<rparr> = Inr ''bw.evt.@broadcast.w1''"
    "wild_free ''w1''"
    by code_simp+
  from scope_deliveries [OF nats_matching_tokens this] show ?thesis
    by (simp add: workflow_token_def)
qed

text \<open>
  An instance runs with exactly the subscriptions of its scope, each durable and
  acknowledged by hand with the bounded redelivery, or it reports the first subscription that
  failed and asks for none after it.
\<close>

lemma registry_run_subscriptions:
  "(case registry_run ok b workflow of (reqs, res) \<Rightarrow>
     (\<exists>rest. subjects_for_workflow workflow = map fst reqs @ rest \<and>
       (case res of
          None \<Rightarrow> rest = [] \<and> list_all ok (map fst reqs)
        | Some (subject, err) \<Rightarrow> reqs \<noteq> [] \<and> subject = fst (last reqs) \<and> \<not> ok subject \<and>
            list_all ok (map fst (butlast reqs)))) \<and>
     list_all (\<lambda>(subject, opts). opts =
       [Durable (durable_name subject), Manual_ack, Deliver_all, Max_deliver 5, Ack_wait (bus_ack_wait b)]) reqs)"
proof (cases "workflow = []")
  case True
  then show ?thesis
    by (simp add: registry_run_def subjects_for_workflow_def subject_all_def bus_subscribe_def
        subject_prefix_def max_deliver_def)
next
  case False
  then show ?thesis
    by (simp add: registry_run_def subjects_for_workflow_def bus_subscribe_def
        subject_prefix_def max_deliver_def)
qed

end
