(* ===== verification/Inbox.thy ===== *)
theory Inbox
  imports Event "HOL-Library.Sublist"
begin

text \<open>
  What an instance promises about the messages of the stream: for every subscription and message
  a status that counts the open attempts, or says that the message was handled or given up.
  The instance refines it with whole deliveries as steps (\<^verbatim>\<open>System\<close>) and with the single
  handler calls of concurrent deliveries as steps (\<^verbatim>\<open>Concurrent\<close>).
\<close>

datatype status = Open nat | Handled | Given_up

text \<open>Progress: an open message gets more attempts or an end, and an end stays.\<close>

instantiation status :: order
begin

fun less_eq_status :: "status \<Rightarrow> status \<Rightarrow> bool" where
  "less_eq_status (Open m) (Open n) = (m \<le> n)"
| "less_eq_status (Open m) st = True"
| "less_eq_status st st' = (st = st')"

definition less_status :: "status \<Rightarrow> status \<Rightarrow> bool" where
  "less_status st st' = (st \<le> st' \<and> \<not> st' \<le> st)"

instance
proof
  show "(x < y) = (x \<le> y \<and> \<not> y \<le> x)" for x y :: status by (simp add: less_status_def)
  show "x \<le> x" for x :: status by (cases x) simp_all
  show "x \<le> z" if "x \<le> y" "y \<le> z" for x y z :: status using that by (cases x; cases y; cases z) simp_all
  show "x = y" if "x \<le> y" "y \<le> x" for x y :: status using that by (cases x; cases y) simp_all
qed

end

text \<open>
  How the status of one message moves.  A message has five attempts.  For one that decodes each
  leaves it open with one attempt more, or handled, and it is given up only by the fifth; one that
  does not decode is given up by the first attempt that reaches the callback.  A handled message
  may come again, by a lost acknowledgement or a second copy on its way.
\<close>

inductive status_step :: "bool \<Rightarrow> status \<Rightarrow> status \<Rightarrow> bool" where
  retry: "Suc n < 5 \<Longrightarrow> status_step decodes (Open n) (Open (Suc n))"
| handled: "n < 5 \<Longrightarrow> status_step True (Open n) Handled"
| exhausted: "status_step True (Open 4) Given_up"
| again: "status_step True Handled Handled"
| poison: "n < 5 \<Longrightarrow> status_step False (Open n) Given_up"
| poison_again: "status_step False Given_up Given_up"

record inbox =
  log_entries :: "(string \<times> event option) list"
  statuses :: "nat \<Rightarrow> nat \<Rightarrow> status"

inductive inbox_step :: "inbox \<Rightarrow> inbox \<Rightarrow> bool" where
  stutter: "inbox_step b b"
| append: "inbox_step b (b\<lparr>log_entries := log_entries b @ [x]\<rparr>)"
| move: "k < length (log_entries b) \<Longrightarrow> status_step (snd (log_entries b ! k) \<noteq> None) (statuses b i k) st \<Longrightarrow>
    inbox_step b (b\<lparr>statuses := (statuses b)(i := (statuses b i)(k := st))\<rparr>)"

lemma status_step_progress: "status_step decodes st st' \<Longrightarrow> st \<le> st'"
  by (erule status_step.cases) simp_all

lemma inbox_step_progress:
  assumes "inbox_step b b'"
  shows "statuses b i k \<le> statuses b' i k" and "prefix (log_entries b) (log_entries b')"
proof -
  show "statuses b i k \<le> statuses b' i k"
    using assms by (cases rule: inbox_step.cases) (auto dest: status_step_progress)
  show "prefix (log_entries b) (log_entries b')"
    using assms by (cases rule: inbox_step.cases) simp_all
qed

end
