(* ===== verification/System.thy ===== *)
theory System
  imports Delivery Registry Inbox
begin

text \<open>
  One instance and its broker as a whole: the stream grows by publishes of anybody, the broker
  delivers the messages of the instance's subscriptions in any order and interleaving, the
  handlers work on one shared state, which others may change between deliveries (other
  instances, operators, restarts).  The steps are those of \<^verbatim>\<open>Bus\<close>, \<^verbatim>\<open>Delivery\<close> and
  \<^verbatim>\<open>Registry\<close>; the broker's redelivery and its subject matching are the same parameters.

  The specification is the inbox of \<^verbatim>\<open>Inbox\<close>.
\<close>

section \<open>The system\<close>

text \<open>A subscription is a subject filter; the track of a message exists once for each of them.\<close>

record 's system =
  sys_stream :: "message list"
  sys_tracks :: "nat \<Rightarrow> nat \<Rightarrow> 's track"
  sys_app :: 's

record ('s, 'err) instance_env =
  in_redeliver :: "settlement option \<Rightarrow> nat \<Rightarrow> bool"
  in_meta_ok :: bool
  in_matches :: "string \<Rightarrow> string \<Rightarrow> bool"
  in_registry :: "('s, 'err) registry"
  in_subjects :: "string list"

definition initial :: "'s \<Rightarrow> 's system" where
  "initial s = \<lparr>sys_stream = [], sys_tracks = (\<lambda>_ _. fresh s), sys_app = s\<rparr>"

definition concerns :: "('s, 'err) instance_env \<Rightarrow> 's system \<Rightarrow> nat \<Rightarrow> nat \<Rightarrow> bool" where
  "concerns env \<sigma> i k \<longleftrightarrow> i < length (in_subjects env) \<and> k < length (sys_stream \<sigma>) \<and>
     in_matches env (in_subjects env ! i) (msg_subject (sys_stream \<sigma> ! k))"

inductive delivery_step :: "('s, 'err) instance_env \<Rightarrow> 's system \<Rightarrow> 's system \<Rightarrow> bool" for env where
  deliver: "concerns env \<sigma> i k \<Longrightarrow>
    attempt (in_redeliver env) (in_meta_ok env) (dispatch (in_registry env)) (msg_data (sys_stream \<sigma> ! k))
      ((sys_tracks \<sigma> i k)\<lparr>app_state := sys_app \<sigma>\<rparr>) t \<Longrightarrow>
    delivery_step env \<sigma>
      (\<sigma>\<lparr>sys_tracks := (sys_tracks \<sigma>)(i := (sys_tracks \<sigma> i)(k := t)), sys_app := app_state t\<rparr>)"

inductive system_step :: "('s, 'err) instance_env \<Rightarrow> 's system \<Rightarrow> 's system \<Rightarrow> bool" for env where
  publish: "bus_publish reply e (sys_stream \<sigma>) = (err, ms) \<Longrightarrow> system_step env \<sigma> (\<sigma>\<lparr>sys_stream := ms\<rparr>)"
| environment: "system_step env \<sigma> (\<sigma>\<lparr>sys_app := s\<rparr>)"
| delivery: "delivery_step env \<sigma> \<sigma>' \<Longrightarrow> system_step env \<sigma> \<sigma>'"

inductive system_reached :: "('s, 'err) instance_env \<Rightarrow> 's system \<Rightarrow> bool" for env where
  init: "system_reached env (initial s)"
| step: "system_reached env \<sigma> \<Longrightarrow> system_step env \<sigma> \<sigma>' \<Longrightarrow> system_reached env \<sigma>'"

inductive_cases delivery_step_elim: "delivery_step env \<sigma> \<sigma>'"
inductive_cases system_step_elim: "system_step env \<sigma> \<sigma>'"

definition quiet :: "('s, 'err) instance_env \<Rightarrow> 's system \<Rightarrow> bool" where
  "quiet env \<sigma> \<longleftrightarrow> (\<nexists>\<sigma>'. delivery_step env \<sigma> \<sigma>')"

section \<open>The abstraction\<close>

definition status_of :: "'s track \<Rightarrow> status" where
  "status_of t =
     (if Ack \<in> set (decisions t) then Handled
      else if Term \<in> set (decisions t) \<or> attempts t = max_deliver then Given_up
      else Open (attempts t))"

definition inbox_of :: "'s system \<Rightarrow> inbox" where
  "inbox_of \<sigma> =
     \<lparr>log_entries = map (\<lambda>m. (msg_subject m, wire_decode (msg_data m))) (sys_stream \<sigma>),
      statuses = (\<lambda>i k. status_of (sys_tracks \<sigma> i k))\<rparr>"

section \<open>Invariant\<close>

text \<open>
  Every track is sound, an acknowledgement was earned by a dispatch without an error, and
  nothing happened yet to messages that do not exist or do not concern the subscription.
\<close>

definition earned :: "('s, 'err) instance_env \<Rightarrow> bytes \<Rightarrow> 's track \<Rightarrow> bool" where
  "earned env data t \<longleftrightarrow> (Ack \<in> set (decisions t) \<longrightarrow>
     (\<exists>e s0. wire_decode data = Some e \<and> fst (dispatch (in_registry env) e s0) = None))"

definition track_ok :: "('s, 'err) instance_env \<Rightarrow> bytes \<Rightarrow> 's track \<Rightarrow> bool" where
  "track_ok env data t \<longleftrightarrow> track_inv (app_state t) data t \<and> earned env data t"

definition untouched :: "'s track \<Rightarrow> bool" where
  "untouched t \<longleftrightarrow> attempts t = 0 \<and> decisions t = [] \<and> settled t = None"

definition system_inv :: "('s, 'err) instance_env \<Rightarrow> 's system \<Rightarrow> bool" where
  "system_inv env \<sigma> \<longleftrightarrow>
     (\<forall>i k. if concerns env \<sigma> i k then track_ok env (msg_data (sys_stream \<sigma> ! k)) (sys_tracks \<sigma> i k)
        else untouched (sys_tracks \<sigma> i k))"

lemma system_invD:
  "system_inv env \<sigma> \<Longrightarrow> concerns env \<sigma> i k \<Longrightarrow> track_ok env (msg_data (sys_stream \<sigma> ! k)) (sys_tracks \<sigma> i k)"
  "system_inv env \<sigma> \<Longrightarrow> \<not> concerns env \<sigma> i k \<Longrightarrow> untouched (sys_tracks \<sigma> i k)"
  unfolding system_inv_def by (metis (full_types))+

lemma track_inv_app:
  "track_inv (app_state t) data t \<Longrightarrow> track_inv s data (t\<lparr>app_state := s\<rparr>)"
  by (simp add: track_inv_def)

lemma track_inv_self: "track_inv s data t \<Longrightarrow> track_inv (app_state t) data t"
  by (simp add: track_inv_def)

lemma earned_step:
  assumes "earned env data t"
    and "attempt (in_redeliver env) (in_meta_ok env) (dispatch (in_registry env)) data t t'"
  shows "earned env data t'"
  using assms(2)
proof (rule attempt_elim)
  fix d s' arrived
  assume t': "t' = \<lparr>attempts = Suc (attempts t), settled = arrived, app_state = s', decisions = decisions t @ [d]\<rparr>"
    and m: "on_message (dispatch (in_registry env)) (attempt_delivery (in_meta_ok env) data (attempts t)) (app_state t) = (d, s')"
  show ?thesis
  proof (cases "d = Ack")
    case True
    then show ?thesis
      using m by (auto simp: earned_def on_message_Ack attempt_delivery_def intro!: exI [of _ "app_state t"])
  next
    case False
    then show ?thesis using assms(1) by (simp add: t' earned_def)
  qed
qed

lemma bus_publish_grows:
  "bus_publish reply e ms = (err, ms') \<Longrightarrow> ms' = ms \<or> (\<exists>m. ms' = ms @ [m])"
  by (auto simp: bus_publish_def Let_def split: sum.splits pub_reply.splits)

lemma untouched_ok: "untouched t \<Longrightarrow> track_ok env data t"
  by (simp add: untouched_def track_ok_def track_inv_def earned_def)

lemma system_inv_initial: "system_inv env (initial s)"
  by (simp add: system_inv_def initial_def concerns_def fresh_def untouched_def)

lemma system_inv_publish:
  assumes "system_inv env \<sigma>" and "ms = sys_stream \<sigma> @ [m]"
  shows "system_inv env (\<sigma>\<lparr>sys_stream := ms\<rparr>)"
  unfolding system_inv_def
proof (intro allI)
  fix i k
  let ?\<sigma> = "\<sigma>\<lparr>sys_stream := ms\<rparr>"
  have same: "concerns env ?\<sigma> i k = concerns env \<sigma> i k" if "k \<noteq> length (sys_stream \<sigma>)"
    using that assms(2) by (auto simp: concerns_def nth_append)
  have new: "untouched (sys_tracks \<sigma> i k)" if "k = length (sys_stream \<sigma>)"
    using that by (intro system_invD(2) [OF assms(1)]) (simp add: concerns_def)
  have old: "ms ! k = sys_stream \<sigma> ! k" if "concerns env \<sigma> i k"
    using that assms(2) by (simp add: concerns_def nth_append)
  show "if concerns env ?\<sigma> i k then track_ok env (msg_data (sys_stream ?\<sigma> ! k)) (sys_tracks ?\<sigma> i k)
      else untouched (sys_tracks ?\<sigma> i k)"
  proof (cases "k = length (sys_stream \<sigma>)")
    case True
    then show ?thesis using new by (simp add: untouched_ok)
  next
    case False
    show ?thesis unfolding same [OF False] using system_invD [OF assms(1)] old by simp
  qed
qed

lemma delivery_effect:
  assumes c: "broker_contract (in_redeliver env)" and i: "system_inv env \<sigma>" and con: "concerns env \<sigma> j m"
    and a: "attempt (in_redeliver env) (in_meta_ok env) (dispatch (in_registry env)) (msg_data (sys_stream \<sigma> ! m))
      ((sys_tracks \<sigma> j m)\<lparr>app_state := sys_app \<sigma>\<rparr>) t"
  shows "track_ok env (msg_data (sys_stream \<sigma> ! m)) t"
    and "track_ok env (msg_data (sys_stream \<sigma> ! m)) ((sys_tracks \<sigma> j m)\<lparr>app_state := sys_app \<sigma>\<rparr>)"
proof -
  let ?t0 = "(sys_tracks \<sigma> j m)\<lparr>app_state := sys_app \<sigma>\<rparr>" and ?data = "msg_data (sys_stream \<sigma> ! m)"
  have "track_ok env ?data (sys_tracks \<sigma> j m)" by (rule system_invD(1) [OF i con])
  then have t0: "track_inv (sys_app \<sigma>) ?data ?t0" "earned env ?data ?t0"
    unfolding track_ok_def by (blast intro: track_inv_app, simp add: earned_def)
  then show "track_ok env ?data ?t0" by (simp add: track_ok_def)
  show "track_ok env ?data t"
    unfolding track_ok_def
    using track_inv_self [OF track_inv_step [OF c t0(1) a]] earned_step [OF t0(2) a] by blast
qed

lemma system_inv_delivery:
  assumes c: "broker_contract (in_redeliver env)" and i: "system_inv env \<sigma>" and d: "delivery_step env \<sigma> \<sigma>'"
  shows "system_inv env \<sigma>'"
  using d
proof (rule delivery_step_elim)
  fix j m t
  assume \<sigma>': "\<sigma>' = \<sigma>\<lparr>sys_tracks := (sys_tracks \<sigma>)(j := (sys_tracks \<sigma> j)(m := t)), sys_app := app_state t\<rparr>"
    and con: "concerns env \<sigma> j m"
    and a: "attempt (in_redeliver env) (in_meta_ok env) (dispatch (in_registry env)) (msg_data (sys_stream \<sigma> ! m))
      ((sys_tracks \<sigma> j m)\<lparr>app_state := sys_app \<sigma>\<rparr>) t"
  have same: "concerns env \<sigma>' i k = concerns env \<sigma> i k" for i k by (simp add: \<sigma>' concerns_def)
  show ?thesis
    unfolding system_inv_def same
    using system_invD [OF i] con delivery_effect(1) [OF c i con a] unfolding \<sigma>' by simp
qed

lemma system_inv_step:
  assumes "broker_contract (in_redeliver env)" and "system_inv env \<sigma>" and "system_step env \<sigma> \<sigma>'"
  shows "system_inv env \<sigma>'"
  using assms(3)
proof (rule system_step_elim)
  fix reply e err ms
  assume "\<sigma>' = \<sigma>\<lparr>sys_stream := ms\<rparr>" "bus_publish reply e (sys_stream \<sigma>) = (err, ms)"
  then show ?thesis using bus_publish_grows system_inv_publish [OF assms(2)] assms(2) by fastforce
next
  fix s
  assume "\<sigma>' = \<sigma>\<lparr>sys_app := s\<rparr>"
  then show ?thesis using assms(2) by (simp add: system_inv_def concerns_def)
next
  assume "delivery_step env \<sigma> \<sigma>'"
  then show ?thesis by (rule system_inv_delivery [OF assms(1,2)])
qed

lemma system_reached_inv:
  assumes "broker_contract (in_redeliver env)" and "system_reached env \<sigma>"
  shows "system_inv env \<sigma>"
  using assms(2) by (induction rule: system_reached.induct) (auto intro: system_inv_initial system_inv_step [OF assms(1)])

section \<open>The system refines the inbox\<close>

lemma status_of_app [simp]: "status_of (t\<lparr>app_state := s\<rparr>) = status_of t"
  by (simp add: status_of_def)

lemma attempt_status:
  assumes c: "broker_contract redeliver" and i: "track_inv s data t"
    and a: "attempt redeliver meta_ok handle data t t'"
  shows "status_step (wire_decode data \<noteq> None) (status_of t) (status_of t')"
  using a
proof (rule attempt_elim)
  fix d s' arrived
  assume t': "t' = \<lparr>attempts = Suc (attempts t), settled = arrived, app_state = s', decisions = decisions t @ [d]\<rparr>"
    and r: "redeliver (settled t) (attempts t)"
    and m: "on_message handle (attempt_delivery meta_ok data (attempts t)) (app_state t) = (d, s')"
  have n: "attempts t < 5" using broker_contractD(1) [OF c r] by (simp add: max_deliver_def)
  have len: "length (decisions t) = attempts t" using i by (simp add: track_inv_def)
  show ?thesis
  proof (cases "wire_decode data")
    case None
    then have d: "d = Term"
      using m on_message_undecodable [of "attempt_delivery meta_ok data (attempts t)" handle "app_state t"]
      by (simp add: attempt_delivery_def)
    have only: "set (decisions t) \<subseteq> {Term}" using i None by (simp add: track_inv_def)
    show ?thesis
    proof (cases "decisions t = []")
      case True
      then have "status_of t = Open 0" "status_of t' = Given_up"
        using len d by (simp_all add: status_of_def t' max_deliver_def)
      then show ?thesis using None status_step.poison by simp
    next
      case False
      then have "Term \<in> set (decisions t)" "Ack \<notin> set (decisions t)"
        using only by (cases "decisions t"; auto)+
      then show ?thesis using None d status_step.poison_again by (simp add: status_of_def t')
    qed
  next
    case (Some e)
    show ?thesis
    proof (cases "Ack \<in> set (decisions t)")
      case True
      then show ?thesis using Some status_step.again by (simp add: status_of_def t')
    next
      case False
      have "Term \<notin> set (decisions t)"
      proof
        assume "Term \<in> set (decisions t)"
        then obtain j where "j < attempts t" "decisions t ! j = Term" using len by (auto simp: in_set_conv_nth)
        then have "max_deliver \<le> Suc j" using i Some by (simp add: track_inv_def)
        then show False using n \<open>j < attempts t\<close> by (simp add: max_deliver_def)
      qed
      then have st: "status_of t = Open (attempts t)" using False n by (simp add: status_of_def max_deliver_def)
      have term_last: "attempts t = 4" if "d = Term"
        using on_message_Term [of handle "attempt_delivery meta_ok data (attempts t)" "app_state t" s'] m that n Some
        by (auto simp: attempt_delivery_def max_deliver_def split: if_splits)
      have st': "status_of t' = (if d = Ack then Handled else if attempts t = 4 then Given_up else Open (Suc (attempts t)))"
        using False \<open>Term \<notin> set (decisions t)\<close> term_last
        by (cases d) (auto simp: status_of_def t' max_deliver_def)
      show ?thesis
        unfolding st st' using Some n
        by (auto intro: status_step.intros)
    qed
  qed
qed

lemma delivery_refines:
  assumes c: "broker_contract (in_redeliver env)" and i: "system_inv env \<sigma>" and d: "delivery_step env \<sigma> \<sigma>'"
  shows "inbox_step (inbox_of \<sigma>) (inbox_of \<sigma>')"
  using d
proof (rule delivery_step_elim)
  fix j m t
  assume \<sigma>': "\<sigma>' = \<sigma>\<lparr>sys_tracks := (sys_tracks \<sigma>)(j := (sys_tracks \<sigma> j)(m := t)), sys_app := app_state t\<rparr>"
    and con: "concerns env \<sigma> j m"
    and a: "attempt (in_redeliver env) (in_meta_ok env) (dispatch (in_registry env)) (msg_data (sys_stream \<sigma> ! m))
      ((sys_tracks \<sigma> j m)\<lparr>app_state := sys_app \<sigma>\<rparr>) t"
  have "track_inv (sys_app \<sigma>) (msg_data (sys_stream \<sigma> ! m)) ((sys_tracks \<sigma> j m)\<lparr>app_state := sys_app \<sigma>\<rparr>)"
    using delivery_effect(2) [OF c i con a] by (simp add: track_ok_def)
  from attempt_status [OF c this a]
  have st: "status_step (wire_decode (msg_data (sys_stream \<sigma> ! m)) \<noteq> None) (statuses (inbox_of \<sigma>) j m) (status_of t)"
    by (simp add: inbox_of_def)
  have "inbox_of \<sigma>' = (inbox_of \<sigma>)\<lparr>statuses := (statuses (inbox_of \<sigma>))(j := (statuses (inbox_of \<sigma>) j)(m := status_of t))\<rparr>"
    by (auto simp: inbox_of_def \<sigma>' fun_eq_iff)
  moreover have "m < length (sys_stream \<sigma>)" using con by (simp add: concerns_def)
  ultimately show ?thesis
    using st inbox_step.move [of m "inbox_of \<sigma>" j "status_of t"] by (simp add: inbox_of_def)
qed

section \<open>Deliveries end\<close>

definition slots :: "('s, 'err) instance_env \<Rightarrow> 's system \<Rightarrow> (nat \<times> nat) set" where
  "slots env \<sigma> = {..<length (in_subjects env)} \<times> {..<length (sys_stream \<sigma>)}"

definition remaining :: "('s, 'err) instance_env \<Rightarrow> 's system \<Rightarrow> nat" where
  "remaining env \<sigma> = (\<Sum>(i, k) \<in> slots env \<sigma>. 5 - attempts (sys_tracks \<sigma> i k))"

lemma remaining_step:
  assumes c: "broker_contract (in_redeliver env)" and d: "delivery_step env \<sigma> \<sigma>'"
  shows "remaining env \<sigma> = Suc (remaining env \<sigma>') \<and> slots env \<sigma>' = slots env \<sigma>"
  using d
proof (rule delivery_step_elim)
  fix j m t
  assume \<sigma>': "\<sigma>' = \<sigma>\<lparr>sys_tracks := (sys_tracks \<sigma>)(j := (sys_tracks \<sigma> j)(m := t)), sys_app := app_state t\<rparr>"
    and con: "concerns env \<sigma> j m"
    and a: "attempt (in_redeliver env) (in_meta_ok env) (dispatch (in_registry env)) (msg_data (sys_stream \<sigma> ! m))
      ((sys_tracks \<sigma> j m)\<lparr>app_state := sys_app \<sigma>\<rparr>) t"
  have n: "attempts (sys_tracks \<sigma> j m) < 5" "attempts t = Suc (attempts (sys_tracks \<sigma> j m))"
    using a broker_contractD(1) [OF c] by (auto simp: attempt_simps max_deliver_def)
  let ?f = "\<lambda>\<sigma> (i, k). 5 - attempts (sys_tracks \<sigma> i k)"
  have fin: "finite (slots env \<sigma>)" and jm: "(j, m) \<in> slots env \<sigma>"
    using con by (simp_all add: slots_def concerns_def)
  have same: "slots env \<sigma>' = slots env \<sigma>" by (simp add: slots_def \<sigma>')
  have "sum (?f \<sigma>') (slots env \<sigma> - {(j, m)}) = sum (?f \<sigma>) (slots env \<sigma> - {(j, m)})"
    by (rule sum.cong) (auto simp: \<sigma>' split: if_splits)
  moreover have "?f \<sigma> (j, m) = Suc (?f \<sigma>' (j, m))" using n by (simp add: \<sigma>')
  ultimately show ?thesis
    using sum.remove [OF fin jm, of "?f \<sigma>"] sum.remove [OF fin jm, of "?f \<sigma>'"] same
    by (simp add: remaining_def)
qed

lemma remaining_steps:
  assumes "broker_contract (in_redeliver env)" and "(delivery_step env ^^ n) \<sigma> \<sigma>'"
  shows "remaining env \<sigma> = n + remaining env \<sigma>'"
  using assms(2)
proof (induction n arbitrary: \<sigma>')
  case (Suc n)
  then obtain \<sigma>1 where "(delivery_step env ^^ n) \<sigma> \<sigma>1" "delivery_step env \<sigma>1 \<sigma>'" by auto
  with Suc.IH remaining_step [OF assms(1)] show ?case by fastforce
qed simp

lemma remaining_bound: "remaining env \<sigma> \<le> 5 * (length (in_subjects env) * length (sys_stream \<sigma>))"
proof -
  have "remaining env \<sigma> \<le> card (slots env \<sigma>) * 5"
    using sum_bounded_above [of "slots env \<sigma>" "\<lambda>(i, k). 5 - attempts (sys_tracks \<sigma> i k)" 5]
    by (auto simp: remaining_def)
  then show ?thesis by (simp add: slots_def card_cartesian_product mult.commute)
qed

lemma deliveries_stop:
  assumes "broker_contract (in_redeliver env)"
  shows "\<exists>\<sigma>'. (delivery_step env)\<^sup>*\<^sup>* \<sigma> \<sigma>' \<and> quiet env \<sigma>'"
proof (induction "remaining env \<sigma>" arbitrary: \<sigma> rule: less_induct)
  case less
  show ?case
  proof (cases "quiet env \<sigma>")
    case False
    then obtain \<sigma>1 where s: "delivery_step env \<sigma> \<sigma>1" by (auto simp: quiet_def)
    then obtain \<sigma>' where "(delivery_step env)\<^sup>*\<^sup>* \<sigma>1 \<sigma>'" "quiet env \<sigma>'"
      using less [of \<sigma>1] remaining_step [OF assms s] by auto
    with s show ?thesis by (meson converse_rtranclp_into_rtranclp)
  qed blast
qed

lemma system_inv_deliveries:
  assumes "broker_contract (in_redeliver env)" and "(delivery_step env)\<^sup>*\<^sup>* \<sigma> \<sigma>'" and "system_inv env \<sigma>"
  shows "system_inv env \<sigma>' \<and> sys_stream \<sigma>' = sys_stream \<sigma>"
  using assms(2,3)
proof (induction rule: rtranclp_induct)
  case (step \<sigma>1 \<sigma>2)
  have "sys_stream \<sigma>2 = sys_stream \<sigma>1" using step(2) by (auto elim: delivery_step_elim)
  with step system_inv_delivery [OF assms(1)] show ?case by auto
qed simp

lemma quiet_track:
  assumes c: "broker_contract (in_redeliver env)" and i: "system_inv env \<sigma>" and q: "quiet env \<sigma>"
    and con: "concerns env \<sigma> i k"
  shows "if wire_decode (msg_data (sys_stream \<sigma> ! k)) = None then set (decisions (sys_tracks \<sigma> i k)) = {Term}
    else Ack \<in> set (decisions (sys_tracks \<sigma> i k)) \<or> attempts (sys_tracks \<sigma> i k) = 5"
proof -
  let ?t = "sys_tracks \<sigma> i k" and ?data = "msg_data (sys_stream \<sigma> ! k)"
  have "\<not> in_redeliver env (settled ?t) (attempts ?t)"
  proof
    assume "in_redeliver env (settled ?t) (attempts ?t)"
    then obtain t where "attempt (in_redeliver env) (in_meta_ok env) (dispatch (in_registry env)) ?data
        (?t\<lparr>app_state := sys_app \<sigma>\<rparr>) t"
      using attempt_possible [of "in_redeliver env" "?t\<lparr>app_state := sys_app \<sigma>\<rparr>"] by fastforce
    then show False using q con delivery_step.deliver unfolding quiet_def by blast
  qed
  moreover have "track_inv (app_state ?t) ?data ?t" using system_invD(1) [OF i con] by (simp add: track_ok_def)
  ultimately show ?thesis using stuck_inv [OF c, of "app_state ?t" ?data ?t] by (auto split: if_splits)
qed

lemma quiet_status:
  assumes "broker_contract (in_redeliver env)" and "system_inv env \<sigma>" and "quiet env \<sigma>" and "concerns env \<sigma> i k"
  shows "status_of (sys_tracks \<sigma> i k) \<in> {Handled, Given_up}"
  using quiet_track [OF assms] by (auto simp: status_of_def max_deliver_def split: if_splits)

lemma step_refines:
  assumes c: "broker_contract (in_redeliver env)" and i: "system_inv env \<sigma>" and s: "system_step env \<sigma> \<sigma>'"
  shows "inbox_step (inbox_of \<sigma>) (inbox_of \<sigma>')"
  using s
proof (rule system_step_elim)
  fix reply e err ms
  assume \<sigma>': "\<sigma>' = \<sigma>\<lparr>sys_stream := ms\<rparr>" and "bus_publish reply e (sys_stream \<sigma>) = (err, ms)"
  then consider "ms = sys_stream \<sigma>" | m where "ms = sys_stream \<sigma> @ [m]" using bus_publish_grows by metis
  then show ?thesis
  proof cases
    case 1
    then show ?thesis by (simp add: \<sigma>' inbox_step.stutter)
  next
    case 2
    then show ?thesis
      using inbox_step.append [of "inbox_of \<sigma>" "(msg_subject m, wire_decode (msg_data m))"]
      by (simp add: \<sigma>' inbox_of_def)
  qed
next
  fix s
  assume "\<sigma>' = \<sigma>\<lparr>sys_app := s\<rparr>"
  then show ?thesis by (simp add: inbox_of_def inbox_step.stutter)
next
  assume "delivery_step env \<sigma> \<sigma>'"
  then show ?thesis by (rule delivery_refines [OF c i])
qed

lemma handled_earned:
  assumes "system_inv env \<sigma>" and "status_of (sys_tracks \<sigma> i k) = Handled"
  shows "concerns env \<sigma> i k \<and> (\<exists>e s0. wire_decode (msg_data (sys_stream \<sigma> ! k)) = Some e \<and>
    fst (dispatch (in_registry env) e s0) = None)"
proof -
  have a: "Ack \<in> set (decisions (sys_tracks \<sigma> i k))" using assms(2) by (simp add: status_of_def split: if_splits)
  have "concerns env \<sigma> i k"
  proof (rule ccontr)
    assume "\<not> concerns env \<sigma> i k"
    then show False using a system_invD(2) [OF assms(1)] by (auto simp: untouched_def)
  qed
  with a show ?thesis using system_invD(1) [OF assms(1)] by (auto simp: track_ok_def earned_def)
qed

text \<open>Steps only append to the stream.\<close>

lemma step_stream: "system_step env \<sigma> \<sigma>' \<Longrightarrow> \<exists>ms. sys_stream \<sigma>' = sys_stream \<sigma> @ ms"
  by (elim system_step_elim delivery_step_elim) (auto dest: bus_publish_grows)

lemma steps_stream:
  assumes "(system_step env)\<^sup>*\<^sup>* \<sigma> \<sigma>'"
  shows "\<exists>ms. sys_stream \<sigma>' = sys_stream \<sigma> @ ms"
  using assms
proof (induction rule: rtranclp_induct)
  case (step \<sigma>1 \<sigma>2)
  then show ?case using step_stream [OF step(2)] by fastforce
qed simp

lemma steps_reached:
  assumes "system_reached env \<sigma>" and "(system_step env)\<^sup>*\<^sup>* \<sigma> \<sigma>'"
  shows "system_reached env \<sigma>'"
  using assms(2,1) by (induction rule: rtranclp_induct) (auto intro: system_reached.step)

section \<open>Properties\<close>

text \<open>
  The system with whole deliveries refines the inbox.  Whatever the interleaving of publishes, deliveries
  and outside changes, every step of it is a step of the inbox: entries are only appended, and
  a message moves from open through at most five attempts to handled or given up, never back.
  Handled is the status only of a message of the subscription that decodes and whose event some
  dispatch handled without an error.
\<close>

lemma instance_refines_inbox:
  assumes "broker_contract (in_redeliver env)" and "system_reached env \<sigma>" and "system_step env \<sigma> \<sigma>'"
  shows "inbox_of (initial s) = \<lparr>log_entries = [], statuses = (\<lambda>_ _. Open 0)\<rparr> \<and>
    inbox_step (inbox_of \<sigma>) (inbox_of \<sigma>') \<and>
    prefix (log_entries (inbox_of \<sigma>)) (log_entries (inbox_of \<sigma>')) \<and>
    (\<forall>i k. statuses (inbox_of \<sigma>) i k \<le> statuses (inbox_of \<sigma>') i k) \<and>
    (\<forall>i k. statuses (inbox_of \<sigma>') i k = Handled \<longrightarrow> concerns env \<sigma>' i k \<and>
      (\<exists>e s0. wire_decode (msg_data (sys_stream \<sigma>' ! k)) = Some e \<and> fst (dispatch (in_registry env) e s0) = None))"
proof (intro conjI)
  have i: "system_inv env \<sigma>" by (rule system_reached_inv [OF assms(1,2)])
  show "inbox_of (initial s) = \<lparr>log_entries = [], statuses = (\<lambda>_ _. Open 0)\<rparr>"
    by (simp add: inbox_of_def initial_def fresh_def status_of_def max_deliver_def)
  show s: "inbox_step (inbox_of \<sigma>) (inbox_of \<sigma>')" by (rule step_refines [OF assms(1) i assms(3)])
  show "prefix (log_entries (inbox_of \<sigma>)) (log_entries (inbox_of \<sigma>'))"
    and "\<forall>i k. statuses (inbox_of \<sigma>) i k \<le> statuses (inbox_of \<sigma>') i k"
    using inbox_step_progress [OF s] by blast+
  show "\<forall>i k. statuses (inbox_of \<sigma>') i k = Handled \<longrightarrow> concerns env \<sigma>' i k \<and>
      (\<exists>e s0. wire_decode (msg_data (sys_stream \<sigma>' ! k)) = Some e \<and> fst (dispatch (in_registry env) e s0) = None)"
    using handled_earned [OF system_inv_step [OF assms(1) i assms(3)]] by (auto simp: inbox_of_def)
qed

definition demo_env :: "(nat, unit) instance_env" where
  "demo_env = \<lparr>in_redeliver = five_deliveries, in_meta_ok = True,
     in_matches = (\<lambda>p s. token_match (split_on (CHR ''.'') p) (split_on (CHR ''.'') s)),
     in_registry = register \<lparr>con_declared = None, con_go_type = ''*main.count'', con_handle = (\<lambda>e n. (Returned None, Suc n))\<rparr> [''t''] new_registry,
     in_subjects = subjects_for_workflow ''w''\<rparr>"

definition demo_event :: event where
  "demo_event = \<lparr>ev_type = ''t'', ev_workflow = ''w'', ev_payload = ''x''\<rparr>"

definition demo_message :: message where
  "demo_message = \<lparr>msg_subject = ''bw.evt.t.w'', msg_data = wire_encode demo_event\<rparr>"

definition demo_pending :: "nat system" where
  "demo_pending = (initial 0)\<lparr>sys_stream := [demo_message]\<rparr>"

definition demo_handled :: "nat system" where
  "demo_handled = demo_pending\<lparr>sys_tracks := (sys_tracks demo_pending)(0 := (sys_tracks demo_pending 0)(0 :=
     \<lparr>attempts = 1, settled = Some Ack, app_state = 1, decisions = [Ack]\<rparr>)), sys_app := 1\<rparr>"

lemma demo_contract: "broker_contract (in_redeliver demo_env)"
  by (simp add: demo_env_def five_deliveries_contract)

lemma demo_publish: "bus_publish Pub_acked demo_event [] = (None, [demo_message])"
proof -
  have "subject_for demo_event = Inr ''bw.evt.t.w''" by code_simp
  then show ?thesis by (simp add: bus_publish_def demo_message_def)
qed

lemma demo_decodes: "wire_decode (msg_data demo_message) = Some demo_event"
proof -
  have "valid_type (ev_type demo_event)" "valid_utf8 (ev_workflow demo_event)" by code_simp+
  then show ?thesis
    using carried_ok [of demo_event] by (simp add: demo_message_def wire_decode_encode carried_def)
qed

lemma demo_matches:
  "in_matches demo_env (in_subjects demo_env ! 0) ''bw.evt.t.w''"
  "length (in_subjects demo_env) = 2"
  by code_simp+

lemma demo_pending_reached: "system_reached demo_env demo_pending"
proof -
  have "bus_publish Pub_acked demo_event (sys_stream (initial 0)) = (None, [demo_message])"
    using demo_publish by (simp add: initial_def)
  then have "system_step demo_env (initial 0) ((initial 0)\<lparr>sys_stream := [demo_message]\<rparr>)"
    by (rule system_step.publish)
  then show ?thesis unfolding demo_pending_def by (rule system_reached.step [OF system_reached.init])
qed

lemma demo_delivery: "delivery_step demo_env demo_pending demo_handled"
proof -
  let ?t = "\<lparr>attempts = 1, settled = Some Ack, app_state = 1, decisions = [Ack]\<rparr>"
  have con: "concerns demo_env demo_pending 0 0"
    using demo_matches by (simp add: concerns_def demo_pending_def demo_message_def)
  have "targets (in_registry demo_env) ''t'' = [\<lparr>con_declared = None, con_go_type = ''*main.count'', con_handle = (\<lambda>e n. (Returned None, Suc n))\<rparr>]"
    by (simp add: demo_env_def targets_def register_def new_registry_def broadcast_type_def)
  then have "dispatch (in_registry demo_env) demo_event 0 = (None, 1)"
    by (simp add: dispatch_def demo_event_def safe_handle_def)
  then have "attempt (in_redeliver demo_env) (in_meta_ok demo_env) (dispatch (in_registry demo_env))
      (msg_data (sys_stream demo_pending ! 0)) ((sys_tracks demo_pending 0 0)\<lparr>app_state := sys_app demo_pending\<rparr>) ?t"
    using demo_decodes
    by (simp add: attempt_simps demo_pending_def initial_def fresh_def on_message_def attempt_delivery_def
        demo_env_def five_deliveries_def max_deliver_def)
  from delivery_step.deliver [OF con this] show ?thesis by (simp add: demo_handled_def)
qed

text \<open>
  Deliveries end, and they end settled.  From every state a system can reach the broker
  runs out of deliveries after at most five for each pair of a subscription and a message, and
  whenever it has, every message of every subscription is handled or given up; one that decodes
  is given up only after five attempts.
\<close>

lemma deliveries_complete:
  assumes "broker_contract (in_redeliver env)" and "system_reached env \<sigma>"
  shows "(\<exists>\<sigma>'. (delivery_step env)\<^sup>*\<^sup>* \<sigma> \<sigma>' \<and> quiet env \<sigma>') \<and>
    (\<forall>n \<sigma>'. (delivery_step env ^^ n) \<sigma> \<sigma>' \<longrightarrow>
      n \<le> 5 * (length (in_subjects env) * length (sys_stream \<sigma>))) \<and>
    (\<forall>\<sigma>' i k. (delivery_step env)\<^sup>*\<^sup>* \<sigma> \<sigma>' \<and> quiet env \<sigma>' \<and> concerns env \<sigma>' i k \<longrightarrow>
      statuses (inbox_of \<sigma>') i k \<in> {Handled, Given_up} \<and>
      (statuses (inbox_of \<sigma>') i k = Given_up \<and> wire_decode (msg_data (sys_stream \<sigma> ! k)) \<noteq> None \<longrightarrow>
        attempts (sys_tracks \<sigma>' i k) = 5))"
proof (intro conjI allI impI)
  have i: "system_inv env \<sigma>" by (rule system_reached_inv [OF assms])
  show "\<exists>\<sigma>'. (delivery_step env)\<^sup>*\<^sup>* \<sigma> \<sigma>' \<and> quiet env \<sigma>'" by (rule deliveries_stop [OF assms(1)])
  show "n \<le> 5 * (length (in_subjects env) * length (sys_stream \<sigma>))" if "(delivery_step env ^^ n) \<sigma> \<sigma>'" for n \<sigma>'
    using remaining_steps [OF assms(1) that] remaining_bound [of env \<sigma>] by linarith
  fix \<sigma>' j k
  assume a: "(delivery_step env)\<^sup>*\<^sup>* \<sigma> \<sigma>' \<and> quiet env \<sigma>' \<and> concerns env \<sigma>' j k"
  then have i': "system_inv env \<sigma>'" "sys_stream \<sigma>' = sys_stream \<sigma>" using system_inv_deliveries [OF assms(1) _ i] by blast+
  show "statuses (inbox_of \<sigma>') j k \<in> {Handled, Given_up}"
    using quiet_status [OF assms(1) i'(1)] a by (simp add: inbox_of_def)
  show "attempts (sys_tracks \<sigma>' j k) = 5"
    if "statuses (inbox_of \<sigma>') j k = Given_up \<and> wire_decode (msg_data (sys_stream \<sigma> ! k)) \<noteq> None"
    using that quiet_track [OF assms(1) i'(1), of j k] a i'(2) by (auto simp: inbox_of_def status_of_def split: if_splits)
qed

text \<open>
  A published event reaches its consumers: once the broker has finished it was handled in one
  dispatch by every consumer, or all five attempts were made, on each subscription that gets it.
\<close>

lemma published_event_settled:
  assumes "broker_contract (in_redeliver env)" and "nats_matching (in_matches env)"
    and "in_subjects env = subjects_for_workflow workflow" and "wild_free workflow"
    and "workflow = [] \<or> workflow_token e = workflow \<or> ev_type e = broadcast_type"
    and "system_reached env \<sigma>" and "bus_publish reply e (sys_stream \<sigma>) = (None, ms)"
    and "valid_utf8 (ev_workflow e)"
    and "(system_step env)\<^sup>*\<^sup>* (\<sigma>\<lparr>sys_stream := ms\<rparr>) \<sigma>'" and "quiet env \<sigma>'"
  shows "(\<exists>i. concerns env \<sigma>' i (length (sys_stream \<sigma>))) \<and>
    (\<forall>i. concerns env \<sigma>' i (length (sys_stream \<sigma>)) \<longrightarrow>
      (let cs = targets (in_registry env) (ev_type e) in
        (\<exists>s0. \<forall>n < length cs. fst (con_handle (cs ! n) e (state_after (take n cs) e s0)) = Returned None) \<or>
        attempts (sys_tracks \<sigma>' i (length (sys_stream \<sigma>))) = 5))"
proof -
  let ?k = "length (sys_stream \<sigma>)"
  obtain m where m: "ms = sys_stream \<sigma> @ [m]" "subject_for e = Inr (msg_subject m)" and d: "wire_decode (msg_data m) = Some e"
    using published_message [OF assms(7,8)] .
  have "system_reached env \<sigma>'"
    by (rule steps_reached [OF system_reached.step [OF assms(6) system_step.publish [OF assms(7)]] assms(9)])
  then have inv: "system_inv env \<sigma>'" by (rule system_reached_inv [OF assms(1)])
  obtain rest where "sys_stream \<sigma>' = ms @ rest" using steps_stream [OF assms(9)] by auto
  then have k: "sys_stream \<sigma>' ! ?k = m" "?k < length (sys_stream \<sigma>')" by (simp_all add: m(1) nth_append)
  obtain j where "j < length (subjects_for_workflow workflow)" "in_matches env (subjects_for_workflow workflow ! j) (msg_subject m)"
    using scope_subscribed [OF assms(2) m(2) assms(4,5)] .
  then have one: "\<exists>i. concerns env \<sigma>' i ?k" using k assms(3) by (auto simp: concerns_def)
  have each: "(\<exists>s0. failures (targets (in_registry env) (ev_type e)) e s0 = 0) \<or> attempts (sys_tracks \<sigma>' i ?k) = 5"
    if con: "concerns env \<sigma>' i ?k" for i
  proof -
    have "Ack \<in> set (decisions (sys_tracks \<sigma>' i ?k)) \<or> attempts (sys_tracks \<sigma>' i ?k) = 5"
      using quiet_track [OF assms(1) inv assms(10) con] by (simp add: k(1) d)
    moreover have "earned env (msg_data m) (sys_tracks \<sigma>' i ?k)"
      using system_invD(1) [OF inv con] by (simp add: track_ok_def k(1))
    ultimately show ?thesis by (auto simp: earned_def d dispatch_spec Let_def split: if_splits)
  qed
  then show ?thesis using one unfolding failures_zero Let_def by blast
qed

end
