(* ===== verification/Concurrent.thy ===== *)
theory Concurrent
  imports System
begin

text \<open>
  An instance with its deliveries running concurrently.  The broker sends copies of a message,
  numbered as they leave; the NATS client queues the copies of a subscription, and the goroutine
  of the subscription runs the callback of \<^verbatim>\<open>JetStreamBus.Subscribe\<close> on one after the other; the
  callback's dispatch calls the consumers one by one.  A step here is one call of a consumer, so
  the dispatches of two subscriptions interleave between the calls, and publishes, deliveries and
  outside changes happen between them too.  When a callback takes longer than the acknowledgement
  wait, the broker sends the next copy while the callback still runs: copies of one message then
  wait in the queue, and a copy may be handled after an earlier one was acknowledged.  A copy may
  be lost at any time, queued or in the middle of its dispatch (a crash loses them all): it ends
  without a settlement.

  The instance's configuration is that of \<^verbatim>\<open>System\<close>, and it refines the same inbox.
\<close>

section \<open>State and steps\<close>

text \<open>What the broker knows of one message on one durable, and the callback's decisions.\<close>

record slot =
  sl_attempts :: nat
  sl_settled :: "settlement option"
  sl_decisions :: "settlement list"

definition unused :: slot where
  "unused = \<lparr>sl_attempts = 0, sl_settled = None, sl_decisions = []\<rparr>"

text \<open>
  A running callback: its message, the number of the copy and the event, the consumers still to
  call, the failures so far.
\<close>

record ('s, 'err) thread =
  th_message :: nat
  th_number :: nat
  th_event :: event
  th_left :: "('s, 'err) consumer list"
  th_failed :: nat

text \<open>A finished call of a consumer: subscription, message, delivery number, target, its error.\<close>

datatype 'err call = Call (call_sub: nat) (call_msg: nat) (call_number: nat) (call_target: nat)
  (call_error: "'err handle_error option")

text \<open>The queue of a subscription holds the copies the callback has not seen: message and number.\<close>

record ('s, 'err) concurrent =
  cs_stream :: "message list"
  cs_slots :: "nat \<Rightarrow> nat \<Rightarrow> slot"
  cs_queues :: "nat \<Rightarrow> (nat \<times> nat) list"
  cs_threads :: "nat \<Rightarrow> ('s, 'err) thread option"
  cs_app :: 's
  cs_calls :: "'err call list"

definition started :: "'s \<Rightarrow> ('s, 'err) concurrent" where
  "started s = \<lparr>cs_stream = [], cs_slots = (\<lambda>_ _. unused), cs_queues = (\<lambda>_. []), cs_threads = (\<lambda>_. None),
     cs_app = s, cs_calls = []\<rparr>"

definition set_slot :: "nat \<Rightarrow> nat \<Rightarrow> slot \<Rightarrow> ('s, 'err) concurrent \<Rightarrow> ('s, 'err) concurrent" where
  "set_slot i k sl c = c\<lparr>cs_slots := (cs_slots c)(i := (cs_slots c i)(k := sl))\<rparr>"

definition set_queue :: "nat \<Rightarrow> (nat \<times> nat) list \<Rightarrow> ('s, 'err) concurrent \<Rightarrow> ('s, 'err) concurrent" where
  "set_queue i q c = c\<lparr>cs_queues := (cs_queues c)(i := q)\<rparr>"

definition set_thread :: "nat \<Rightarrow> ('s, 'err) thread option \<Rightarrow> ('s, 'err) concurrent \<Rightarrow> ('s, 'err) concurrent" where
  "set_thread i th c = c\<lparr>cs_threads := (cs_threads c)(i := th)\<rparr>"

definition selects :: "('s, 'err) instance_env \<Rightarrow> message list \<Rightarrow> nat \<Rightarrow> nat \<Rightarrow> bool" where
  "selects env ms i k \<longleftrightarrow> i < length (in_subjects env) \<and> k < length ms \<and>
     in_matches env (in_subjects env ! i) (msg_subject (ms ! k))"

text \<open>The broker may send the next copy whatever the client still has to do with earlier ones.\<close>

definition offered :: "('s, 'err) instance_env \<Rightarrow> ('s, 'err) concurrent \<Rightarrow> nat \<Rightarrow> nat \<Rightarrow> bool" where
  "offered env c i k \<longleftrightarrow> selects env (cs_stream c) i k \<and>
     in_redeliver env (sl_settled (cs_slots c i k)) (sl_attempts (cs_slots c i k))"

text \<open>The callback's settlement after its handler: the tail of \<^term>\<open>on_message\<close>.\<close>

definition settle :: "nat option \<Rightarrow> bool \<Rightarrow> settlement" where
  "settle number failed =
     (if failed then (case number of Some n \<Rightarrow> if n \<ge> max_deliver then Term else Nak | None \<Rightarrow> Nak) else Ack)"

text \<open>
  What the broker holds of the message after a settlement was sent, which may not arrive: an
  acknowledgement or a termination is final, whatever comes of the other copies.
\<close>

definition heard :: "settlement option \<Rightarrow> settlement option \<Rightarrow> settlement option" where
  "heard old arrived = (if arrived = None \<or> old = Some Ack \<or> old = Some Term then old else arrived)"

lemma on_message_settle:
  "on_message h m s =
     (case wire_decode (dl_data m) of None \<Rightarrow> (Term, s)
      | Some e \<Rightarrow> (case h e s of (err, s') \<Rightarrow> (settle (dl_number m) (err \<noteq> None), s')))"
  by (auto simp: on_message_def settle_def split: option.split prod.split)

inductive thread_step :: "('s, 'err) instance_env \<Rightarrow> ('s, 'err) concurrent \<Rightarrow> ('s, 'err) concurrent \<Rightarrow> bool" for env where
  deliver: "offered env c i k \<Longrightarrow> n = Suc (sl_attempts (cs_slots c i k)) \<Longrightarrow>
    sl = (cs_slots c i k)\<lparr>sl_attempts := n, sl_settled := None\<rparr> \<Longrightarrow>
    thread_step env c (set_queue i (cs_queues c i @ [(k, n)]) (set_slot i k sl c))"
| start: "cs_threads c i = None \<Longrightarrow> cs_queues c i = (k, n) # q \<Longrightarrow>
    wire_decode (msg_data (cs_stream c ! k)) = Some e \<Longrightarrow>
    th = \<lparr>th_message = k, th_number = n, th_event = e, th_left = targets (in_registry env) (ev_type e), th_failed = 0\<rparr> \<Longrightarrow>
    thread_step env c (set_thread i (Some th) (set_queue i q c))"
| poison: "cs_threads c i = None \<Longrightarrow> cs_queues c i = (k, n) # q \<Longrightarrow>
    wire_decode (msg_data (cs_stream c ! k)) = None \<Longrightarrow> arrived = None \<or> arrived = Some Term \<Longrightarrow>
    sl = (cs_slots c i k)\<lparr>sl_settled := heard (sl_settled (cs_slots c i k)) arrived,
      sl_decisions := sl_decisions (cs_slots c i k) @ [Term]\<rparr> \<Longrightarrow>
    thread_step env c (set_queue i q (set_slot i k sl c))"
| handle: "cs_threads c i = Some th \<Longrightarrow> th_left th = t # ts \<Longrightarrow>
    safe_handle t (th_event th) (cs_app c) = (err, s) \<Longrightarrow>
    th' = th\<lparr>th_left := ts, th_failed := th_failed th + (if err = None then 0 else 1)\<rparr> \<Longrightarrow>
    x = Call i (th_message th) (th_number th)
      (length (targets (in_registry env) (ev_type (th_event th))) - length (th_left th)) err \<Longrightarrow>
    thread_step env c ((set_thread i (Some th') c)\<lparr>cs_app := s, cs_calls := cs_calls c @ [x]\<rparr>)"
| finish: "cs_threads c i = Some th \<Longrightarrow> th_left th = [] \<Longrightarrow> k = th_message th \<Longrightarrow>
    d = settle (if in_meta_ok env then Some (th_number th) else None) (th_failed th > 0) \<Longrightarrow>
    arrived = None \<or> arrived = Some d \<Longrightarrow>
    sl = (cs_slots c i k)\<lparr>sl_settled := heard (sl_settled (cs_slots c i k)) arrived,
      sl_decisions := sl_decisions (cs_slots c i k) @ [d]\<rparr> \<Longrightarrow>
    thread_step env c (set_thread i None (set_slot i k sl c))"

inductive concurrent_step :: "('s, 'err) instance_env \<Rightarrow> ('s, 'err) concurrent \<Rightarrow> ('s, 'err) concurrent \<Rightarrow> bool" for env where
  publish: "bus_publish reply e (cs_stream c) = (err, ms) \<Longrightarrow> concurrent_step env c (c\<lparr>cs_stream := ms\<rparr>)"
| environment: "concurrent_step env c (c\<lparr>cs_app := s\<rparr>)"
| abandon: "concurrent_step env c (set_thread i None c)"
| lose: "cs_queues c i = q @ p # r \<Longrightarrow> concurrent_step env c (set_queue i (q @ r) c)"
| thread: "thread_step env c c' \<Longrightarrow> concurrent_step env c c'"

inductive concurrent_reached :: "('s, 'err) instance_env \<Rightarrow> ('s, 'err) concurrent \<Rightarrow> bool" for env where
  init: "concurrent_reached env (started s)"
| step: "concurrent_reached env c \<Longrightarrow> concurrent_step env c c' \<Longrightarrow> concurrent_reached env c'"

definition idle :: "('s, 'err) instance_env \<Rightarrow> ('s, 'err) concurrent \<Rightarrow> bool" where
  "idle env c \<longleftrightarrow> (\<nexists>c'. thread_step env c c')"

inductive_cases thread_step_elim: "thread_step env c c'"
inductive_cases concurrent_step_elim: "concurrent_step env c c'"

lemma set_fields [simp]:
  "cs_stream (set_slot i k sl c) = cs_stream c" "cs_app (set_slot i k sl c) = cs_app c"
  "cs_calls (set_slot i k sl c) = cs_calls c" "cs_threads (set_slot i k sl c) = cs_threads c"
  "cs_queues (set_slot i k sl c) = cs_queues c"
  "cs_slots (set_slot i k sl c) j l = (if j = i \<and> l = k then sl else cs_slots c j l)"
  "cs_stream (set_queue i q c) = cs_stream c" "cs_app (set_queue i q c) = cs_app c"
  "cs_calls (set_queue i q c) = cs_calls c" "cs_threads (set_queue i q c) = cs_threads c"
  "cs_slots (set_queue i q c) = cs_slots c"
  "cs_queues (set_queue i q c) j = (if j = i then q else cs_queues c j)"
  "cs_stream (set_thread i th c) = cs_stream c" "cs_app (set_thread i th c) = cs_app c"
  "cs_calls (set_thread i th c) = cs_calls c" "cs_slots (set_thread i th c) = cs_slots c"
  "cs_queues (set_thread i th c) = cs_queues c"
  "cs_threads (set_thread i th c) j = (if j = i then th else cs_threads c j)"
  by (simp_all add: set_slot_def set_queue_def set_thread_def)

section \<open>The abstraction\<close>

text \<open>
  The copies of a message that the client still has, by their numbers: the one its callback runs
  on, then those queued.  An attempt counts once its copy is gone.
\<close>

definition numbers :: "nat \<Rightarrow> (nat \<times> nat) list \<Rightarrow> nat list" where
  "numbers k q = map snd (filter (\<lambda>p. fst p = k) q)"

definition running :: "nat \<Rightarrow> ('s, 'err) thread option \<Rightarrow> nat list" where
  "running k th = (case th of None \<Rightarrow> [] | Some t \<Rightarrow> if th_message t = k then [th_number t] else [])"

definition outstanding :: "('s, 'err) concurrent \<Rightarrow> nat \<Rightarrow> nat \<Rightarrow> nat list" where
  "outstanding c i k = running k (cs_threads c i) @ numbers k (cs_queues c i)"

definition slot_status :: "nat \<Rightarrow> slot \<Rightarrow> status" where
  "slot_status copies sl =
     (let over = sl_attempts sl - copies in
      if Ack \<in> set (sl_decisions sl) then Handled
      else if Term \<in> set (sl_decisions sl) \<or> over = max_deliver then Given_up
      else Open over)"

definition status_at :: "('s, 'err) concurrent \<Rightarrow> nat \<Rightarrow> nat \<Rightarrow> status" where
  "status_at c i k = slot_status (length (outstanding c i k)) (cs_slots c i k)"

definition concurrent_inbox :: "('s, 'err) concurrent \<Rightarrow> inbox" where
  "concurrent_inbox c =
     \<lparr>log_entries = map (\<lambda>m. (msg_subject m, wire_decode (msg_data m))) (cs_stream c), statuses = status_at c\<rparr>"

lemma numbers_simps [simp]:
  "numbers k [] = []" "numbers k (p # q) = (if fst p = k then snd p # numbers k q else numbers k q)"
  "numbers k (q @ r) = numbers k q @ numbers k r"
  by (simp_all add: numbers_def)

lemma running_simps [simp]:
  "running k None = []" "running k (Some t) = (if th_message t = k then [th_number t] else [])"
  by (simp_all add: running_def)

section \<open>Invariant\<close>

text \<open>
  The invariant is one of each message of a subscription, and one of its thread.  Both depend on
  the stream and on the calls made so far, and are kept when these grow.  The copies of a message
  are in order, the oldest first, so that the last one allowed is decided when no other is left.
\<close>

text \<open>A delivery in which every consumer was called, and none reported an error.\<close>

definition delivered_well :: "('s, 'err) instance_env \<Rightarrow> 'err call list \<Rightarrow> nat \<Rightarrow> nat \<Rightarrow> event \<Rightarrow> bool" where
  "delivered_well env calls i k e \<longleftrightarrow>
     (\<exists>n. \<forall>j < length (targets (in_registry env) (ev_type e)). Call i k n j None \<in> set calls)"

definition slot_inv :: "nat list \<Rightarrow> event option \<Rightarrow> slot \<Rightarrow> bool" where
  "slot_inv ns e sl \<longleftrightarrow>
     sl_attempts sl \<le> max_deliver \<and> sorted_wrt (<) ns \<and> set ns \<subseteq> {1..sl_attempts sl} \<and>
     (\<forall>d. sl_settled sl = Some d \<longrightarrow> d \<in> set (sl_decisions sl)) \<and>
     (if e = None then set (sl_decisions sl) \<subseteq> {Term}
      else Term \<in> set (sl_decisions sl) \<longrightarrow> sl_attempts sl = max_deliver \<and> ns = [])"

definition thread_inv ::
  "('s, 'err) instance_env \<Rightarrow> message list \<Rightarrow> 'err call list \<Rightarrow> nat \<Rightarrow> ('s, 'err) thread \<Rightarrow> bool" where
  "thread_inv env ms calls i th \<longleftrightarrow>
     selects env ms i (th_message th) \<and> wire_decode (msg_data (ms ! th_message th)) = Some (th_event th) \<and>
     suffix (th_left th) (targets (in_registry env) (ev_type (th_event th))) \<and>
     (th_failed th = 0 \<longrightarrow>
       (\<forall>j < length (targets (in_registry env) (ev_type (th_event th))) - length (th_left th).
          Call i (th_message th) (th_number th) j None \<in> set calls))"

definition message_inv ::
  "('s, 'err) instance_env \<Rightarrow> message list \<Rightarrow> 'err call list \<Rightarrow> nat \<Rightarrow> nat \<Rightarrow> nat list \<Rightarrow> slot \<Rightarrow> bool" where
  "message_inv env ms calls i k ns sl \<longleftrightarrow>
     (if selects env ms i k
      then slot_inv ns (wire_decode (msg_data (ms ! k))) sl \<and>
        (\<forall>e. Ack \<in> set (sl_decisions sl) \<and> wire_decode (msg_data (ms ! k)) = Some e \<longrightarrow> delivered_well env calls i k e)
      else sl = unused \<and> ns = [])"

definition concurrent_inv :: "('s, 'err) instance_env \<Rightarrow> ('s, 'err) concurrent \<Rightarrow> bool" where
  "concurrent_inv env c \<longleftrightarrow>
     (\<forall>i t. cs_threads c i = Some t \<longrightarrow> thread_inv env (cs_stream c) (cs_calls c) i t) \<and>
     (\<forall>i k. message_inv env (cs_stream c) (cs_calls c) i k (outstanding c i k) (cs_slots c i k))"

lemma concurrent_invD:
  assumes "concurrent_inv env c"
  shows "cs_threads c i = Some t \<Longrightarrow> thread_inv env (cs_stream c) (cs_calls c) i t"
    and "message_inv env (cs_stream c) (cs_calls c) i k (outstanding c i k) (cs_slots c i k)"
  using assms unfolding concurrent_inv_def by blast+

lemma delivered_well_mono: "delivered_well env calls i k e \<Longrightarrow> set calls \<subseteq> set calls' \<Longrightarrow> delivered_well env calls' i k e"
  unfolding delivered_well_def by blast

lemma message_inv_calls:
  "message_inv env ms calls i k ns sl \<Longrightarrow> set calls \<subseteq> set calls' \<Longrightarrow> message_inv env ms calls' i k ns sl"
  unfolding message_inv_def using delivered_well_mono by (metis (no_types))

lemma thread_inv_calls:
  "thread_inv env ms calls i t \<Longrightarrow> set calls \<subseteq> set calls' \<Longrightarrow> thread_inv env ms calls' i t"
  by (auto simp: thread_inv_def)

lemma unused_inv: "slot_inv [] e unused \<and> Ack \<notin> set (sl_decisions unused)"
  by (simp add: unused_def slot_inv_def)

lemma selects_append:
  "k \<noteq> length ms \<Longrightarrow> selects env (ms @ [m]) i k = selects env ms i k"
  "selects env ms i k \<Longrightarrow> (ms @ [m]) ! k = ms ! k"
  by (auto simp: selects_def nth_append)

lemma thread_inv_stream: "thread_inv env ms calls i t \<Longrightarrow> thread_inv env (ms @ [m]) calls i t"
  by (auto simp: thread_inv_def selects_def nth_append)

lemma message_inv_stream:
  assumes "message_inv env ms calls i k ns sl"
  shows "message_inv env (ms @ [m]) calls i k ns sl"
proof (cases "k = length ms")
  case True
  then have "sl = unused" "ns = []" using assms by (simp_all add: message_inv_def selects_def)
  then show ?thesis using unused_inv by (auto simp: message_inv_def)
next
  case False
  then show ?thesis using assms by (simp add: message_inv_def selects_append)
qed

lemma concurrent_inv_started: "concurrent_inv env (started s)"
  by (simp add: concurrent_inv_def started_def message_inv_def selects_def outstanding_def)

text \<open>A step changes one thread and one message of its subscription.\<close>

lemma concurrent_inv_change:
  assumes inv: "concurrent_inv env c" and "cs_stream c' = cs_stream c" and calls: "set (cs_calls c) \<subseteq> set (cs_calls c')"
    and others: "\<And>j l. j \<noteq> i \<or> l \<noteq> k \<Longrightarrow> cs_slots c' j l = cs_slots c j l \<and> outstanding c' j l = outstanding c j l"
    and threads: "\<And>j. j \<noteq> i \<Longrightarrow> cs_threads c' j = cs_threads c j"
    and thread: "\<And>t. cs_threads c' i = Some t \<Longrightarrow> thread_inv env (cs_stream c) (cs_calls c') i t"
    and here: "message_inv env (cs_stream c) (cs_calls c') i k (outstanding c' i k) (cs_slots c' i k)"
  shows "concurrent_inv env c'"
  unfolding concurrent_inv_def assms(2)
proof (intro conjI allI impI)
  fix j t
  assume t: "cs_threads c' j = Some t"
  show "thread_inv env (cs_stream c) (cs_calls c') j t"
  proof (cases "j = i")
    case True
    then show ?thesis using thread t by simp
  next
    case False
    then show ?thesis using concurrent_invD(1) [OF inv, THEN thread_inv_calls [OF _ calls]] t threads by simp
  qed
next
  fix j l
  show "message_inv env (cs_stream c) (cs_calls c') j l (outstanding c' j l) (cs_slots c' j l)"
  proof (cases "j = i \<and> l = k")
    case True
    then show ?thesis using here by simp
  next
    case False
    then show ?thesis using others [of j l] message_inv_calls [OF concurrent_invD(2) [OF inv] calls] by auto
  qed
qed

lemma busyD:
  assumes inv: "concurrent_inv env c" and th: "cs_threads c i = Some th"
  shows "selects env (cs_stream c) i (th_message th)"
    and "wire_decode (msg_data (cs_stream c ! th_message th)) = Some (th_event th)"
    and "thread_inv env (cs_stream c) (cs_calls c) i th"
    and "slot_inv (th_number th # numbers (th_message th) (cs_queues c i)) (Some (th_event th)) (cs_slots c i (th_message th))"
proof -
  show t: "thread_inv env (cs_stream c) (cs_calls c) i th" by (rule concurrent_invD(1) [OF inv th])
  then show "selects env (cs_stream c) i (th_message th)"
    and "wire_decode (msg_data (cs_stream c ! th_message th)) = Some (th_event th)"
    by (simp_all add: thread_inv_def)
  then show "slot_inv (th_number th # numbers (th_message th) (cs_queues c i)) (Some (th_event th)) (cs_slots c i (th_message th))"
    using concurrent_invD(2) [OF inv, of i "th_message th"] th by (simp add: message_inv_def outstanding_def)
qed

lemma queuedD:
  assumes inv: "concurrent_inv env c" and q: "cs_queues c i = q @ (k, n) # r"
  shows "selects env (cs_stream c) i k"
    and "slot_inv (outstanding c i k) (wire_decode (msg_data (cs_stream c ! k))) (cs_slots c i k)"
    and "n \<in> set (outstanding c i k)"
proof -
  show n: "n \<in> set (outstanding c i k)" by (simp add: outstanding_def q)
  show s: "selects env (cs_stream c) i k"
    using concurrent_invD(2) [OF inv, of i k] n by (auto simp: message_inv_def split: if_splits)
  show "slot_inv (outstanding c i k) (wire_decode (msg_data (cs_stream c ! k))) (cs_slots c i k)"
    using concurrent_invD(2) [OF inv, of i k] s by (simp add: message_inv_def)
qed

lemma offeredD:
  assumes c: "broker_contract (in_redeliver env)" and o: "offered env c i k" and inv: "concurrent_inv env c"
  shows "selects env (cs_stream c) i k" and "sl_attempts (cs_slots c i k) < max_deliver"
    and "slot_inv (outstanding c i k) (wire_decode (msg_data (cs_stream c ! k))) (cs_slots c i k)"
proof -
  show s: "selects env (cs_stream c) i k" using o by (simp add: offered_def)
  show "sl_attempts (cs_slots c i k) < max_deliver" using o unfolding offered_def by (blast intro: broker_contractD(1) [OF c])
  show "slot_inv (outstanding c i k) (wire_decode (msg_data (cs_stream c ! k))) (cs_slots c i k)"
    using concurrent_invD(2) [OF inv, of i k] s by (simp add: message_inv_def)
qed

section \<open>Every step keeps the invariant\<close>

text \<open>A copy that ends leaves the others in order; what it adds to the slot is one decision.\<close>

lemma slot_inv_lost:
  "slot_inv (xs @ n # ys) e sl \<Longrightarrow> slot_inv (xs @ ys) e sl"
  by (auto simp: slot_inv_def sorted_wrt_append)

lemma slot_inv_ended:
  assumes "slot_inv (n # ns) e sl" and "arrived = None \<or> arrived = Some d"
    and "if e = None then d = Term else d = Term \<longrightarrow> max_deliver \<le> n"
    and "sl' = sl\<lparr>sl_settled := heard (sl_settled sl) arrived, sl_decisions := sl_decisions sl @ [d]\<rparr>"
  shows "slot_inv ns e sl'"
proof -
  have "ns = []" if "max_deliver \<le> n"
    using assms(1) that by (cases ns) (auto simp: slot_inv_def)
  then show ?thesis
    using assms by (auto simp: slot_inv_def heard_def split: if_splits)
qed

lemma message_inv_lost:
  "message_inv env ms calls i k (xs @ n # ys) sl \<Longrightarrow> message_inv env ms calls i k (xs @ ys) sl"
  by (auto simp: message_inv_def dest: slot_inv_lost)

lemma settle_cases:
  "settle number failed = Ack \<longleftrightarrow> \<not> failed"
  "settle number failed = Term \<longleftrightarrow> failed \<and> (\<exists>n. number = Some n \<and> max_deliver \<le> n)"
  by (auto simp: settle_def split: option.splits)

lemma concurrent_inv_deliver:
  assumes c: "broker_contract (in_redeliver env)" and inv: "concurrent_inv env c" and o: "offered env c i k"
    and n: "n = Suc (sl_attempts (cs_slots c i k))"
    and sl: "sl = (cs_slots c i k)\<lparr>sl_attempts := n, sl_settled := None\<rparr>"
  shows "concurrent_inv env (set_queue i (cs_queues c i @ [(k, n)]) (set_slot i k sl c))"
proof (rule concurrent_inv_change [OF inv, where i = i and k = k])
  let ?c = "set_queue i (cs_queues c i @ [(k, n)]) (set_slot i k sl c)"
  note off = offeredD [OF c o inv]
  have "slot_inv (outstanding c i k @ [n]) (wire_decode (msg_data (cs_stream c ! k))) sl"
    using off(2,3) by (fastforce simp: slot_inv_def sl n sorted_wrt_append)
  moreover have "outstanding ?c i k = outstanding c i k @ [n]" by (simp add: outstanding_def)
  ultimately show "message_inv env (cs_stream c) (cs_calls ?c) i k (outstanding ?c i k) (cs_slots ?c i k)"
    using concurrent_invD(2) [OF inv, of i k] off(1) by (simp add: message_inv_def sl)
qed (use concurrent_invD(1) [OF inv] in \<open>auto simp: outstanding_def\<close>)

lemma concurrent_inv_start:
  assumes inv: "concurrent_inv env c" and free: "cs_threads c i = None" and q: "cs_queues c i = (k, n) # q"
    and e: "wire_decode (msg_data (cs_stream c ! k)) = Some e"
    and th: "th = \<lparr>th_message = k, th_number = n, th_event = e, th_left = targets (in_registry env) (ev_type e), th_failed = 0\<rparr>"
  shows "concurrent_inv env (set_thread i (Some th) (set_queue i q c))"
proof (rule concurrent_inv_change [OF inv, where i = i and k = k])
  have same: "outstanding (set_thread i (Some th) (set_queue i q c)) j l = outstanding c j l" for j l
    by (simp add: outstanding_def free q th)
  show "message_inv env (cs_stream c) (cs_calls (set_thread i (Some th) (set_queue i q c))) i k
      (outstanding (set_thread i (Some th) (set_queue i q c)) i k) (cs_slots (set_thread i (Some th) (set_queue i q c)) i k)"
    using concurrent_invD(2) [OF inv] by (simp add: same)
  show "cs_slots (set_thread i (Some th) (set_queue i q c)) j l = cs_slots c j l \<and>
      outstanding (set_thread i (Some th) (set_queue i q c)) j l = outstanding c j l" for j l
    by (simp add: same)
qed (use queuedD(1) [OF inv, of i "[]"] q e in \<open>simp_all add: thread_inv_def th\<close>)

lemma concurrent_inv_poison:
  assumes inv: "concurrent_inv env c" and free: "cs_threads c i = None" and q: "cs_queues c i = (k, n) # q"
    and e: "wire_decode (msg_data (cs_stream c ! k)) = None" and a: "arrived = None \<or> arrived = Some Term"
    and sl: "sl = (cs_slots c i k)\<lparr>sl_settled := heard (sl_settled (cs_slots c i k)) arrived,
      sl_decisions := sl_decisions (cs_slots c i k) @ [Term]\<rparr>"
  shows "concurrent_inv env (set_queue i q (set_slot i k sl c))"
proof (rule concurrent_inv_change [OF inv, where i = i and k = k])
  have old: "outstanding c i k = n # numbers k q" and new: "outstanding (set_queue i q (set_slot i k sl c)) i k = numbers k q"
    by (simp_all add: outstanding_def free q)
  have "slot_inv (numbers k q) None sl"
    using queuedD(2) [OF inv, of i "[]" k n q] q e by (intro slot_inv_ended [OF _ a _ sl]) (simp_all add: old)
  then show "message_inv env (cs_stream c) (cs_calls (set_queue i q (set_slot i k sl c))) i k
      (outstanding (set_queue i q (set_slot i k sl c)) i k) (cs_slots (set_queue i q (set_slot i k sl c)) i k)"
    using queuedD(1) [OF inv, of i "[]"] q by (simp add: message_inv_def new e)
qed (use free q in \<open>auto simp: outstanding_def\<close>)

lemma concurrent_inv_handle:
  assumes inv: "concurrent_inv env c" and busy: "cs_threads c i = Some th" and left: "th_left th = t # ts"
    and th': "th' = th\<lparr>th_left := ts, th_failed := th_failed th + (if err = None then 0 else 1)\<rparr>"
    and x: "x = Call i (th_message th) (th_number th)
      (length (targets (in_registry env) (ev_type (th_event th))) - length (th_left th)) err"
  shows "concurrent_inv env ((set_thread i (Some th') c)\<lparr>cs_app := s, cs_calls := cs_calls c @ [x]\<rparr>)"
proof (rule concurrent_inv_change [OF inv, where i = i and k = "th_message th"])
  let ?cs = "targets (in_registry env) (ev_type (th_event th))" and ?calls = "cs_calls c @ [x]"
  let ?c = "(set_thread i (Some th') c)\<lparr>cs_app := s, cs_calls := cs_calls c @ [x]\<rparr>"
  note thread = busyD(3) [OF inv busy]
  have same: "outstanding ?c j l = outstanding c j l" for j l by (simp add: outstanding_def busy th')
  have suf: "suffix (t # ts) ?cs" using thread left by (simp add: thread_inv_def)
  then have n: "length ?cs - length ts = Suc (length ?cs - length (th_left th))"
    using suffix_length_le [OF suf] left by simp
  have "thread_inv env (cs_stream c) ?calls i th'"
    unfolding thread_inv_def
  proof (intro conjI impI allI)
    show "suffix (th_left th') (targets (in_registry env) (ev_type (th_event th')))"
      using suffix_ConsD [OF suf] by (simp add: th')
    fix j
    assume "th_failed th' = 0"
      and "j < length (targets (in_registry env) (ev_type (th_event th'))) - length (th_left th')"
    then have z: "th_failed th = 0" "err = None" and j: "j < Suc (length ?cs - length (th_left th))"
      using n by (auto simp: th' split: if_splits)
    show "Call i (th_message th') (th_number th') j None \<in> set ?calls"
    proof (cases "j < length ?cs - length (th_left th)")
      case True
      then show ?thesis using thread z(1) by (simp add: thread_inv_def th')
    next
      case False
      then show ?thesis using j z(2) by (simp add: th' x)
    qed
  qed (use thread in \<open>simp_all add: thread_inv_def th'\<close>)
  then show "thread_inv env (cs_stream c) (cs_calls ?c) i t" if "cs_threads ?c i = Some t" for t using that by simp
  show "message_inv env (cs_stream c) (cs_calls ?c) i (th_message th) (outstanding ?c i (th_message th)) (cs_slots ?c i (th_message th))"
    using message_inv_calls [OF concurrent_invD(2) [OF inv], of ?calls i "th_message th"] by (simp only: same) auto
  show "cs_slots ?c j l = cs_slots c j l \<and> outstanding ?c j l = outstanding c j l" for j l by (simp add: same)
qed auto

lemma concurrent_inv_finish:
  assumes inv: "concurrent_inv env c" and busy: "cs_threads c i = Some th" and left: "th_left th = []"
    and k: "k = th_message th"
    and d: "d = settle (if in_meta_ok env then Some (th_number th) else None) (th_failed th > 0)"
    and a: "arrived = None \<or> arrived = Some d"
    and sl: "sl = (cs_slots c i k)\<lparr>sl_settled := heard (sl_settled (cs_slots c i k)) arrived,
      sl_decisions := sl_decisions (cs_slots c i k) @ [d]\<rparr>"
  shows "concurrent_inv env (set_thread i None (set_slot i k sl c))"
proof (rule concurrent_inv_change [OF inv, where i = i and k = k])
  let ?c = "set_thread i None (set_slot i k sl c)"
  note b = busyD [OF inv busy, folded k]
  have good: "delivered_well env (cs_calls c) i k (th_event th)" if "d = Ack"
    using b(3) that left by (auto simp: delivered_well_def thread_inv_def d settle_cases k)
  have "slot_inv (numbers k (cs_queues c i)) (Some (th_event th)) sl"
    by (rule slot_inv_ended [OF b(4) a _ sl]) (auto simp: d settle_cases split: if_splits)
  moreover have "outstanding ?c i k = numbers k (cs_queues c i)" by (simp add: outstanding_def)
  ultimately show "message_inv env (cs_stream c) (cs_calls ?c) i k (outstanding ?c i k) (cs_slots ?c i k)"
    using b(1,2) good concurrent_invD(2) [OF inv, of i k] by (auto simp: message_inv_def sl)
qed (use busy k in \<open>auto simp: outstanding_def\<close>)

lemma concurrent_inv_abandon:
  assumes inv: "concurrent_inv env c" and busy: "cs_threads c i = Some th"
  shows "concurrent_inv env (set_thread i None c)"
proof (rule concurrent_inv_change [OF inv, where i = i and k = "th_message th"])
  have "outstanding c i (th_message th) = [] @ th_number th # numbers (th_message th) (cs_queues c i)"
    and new: "outstanding (set_thread i None c) i (th_message th) = [] @ numbers (th_message th) (cs_queues c i)"
    by (simp_all add: outstanding_def busy)
  then have "message_inv env (cs_stream c) (cs_calls c) i (th_message th)
      ([] @ numbers (th_message th) (cs_queues c i)) (cs_slots c i (th_message th))"
    by (metis concurrent_invD(2) [OF inv] message_inv_lost)
  then show "message_inv env (cs_stream c) (cs_calls (set_thread i None c)) i (th_message th)
      (outstanding (set_thread i None c) i (th_message th)) (cs_slots (set_thread i None c) i (th_message th))"
    by (simp add: new)
qed (use busy in \<open>auto simp: outstanding_def\<close>)

lemma concurrent_inv_lose:
  assumes inv: "concurrent_inv env c" and q: "cs_queues c i = q @ (k, n) # r"
  shows "concurrent_inv env (set_queue i (q @ r) c)"
proof (rule concurrent_inv_change [OF inv, where i = i and k = k])
  have "outstanding c i k = (running k (cs_threads c i) @ numbers k q) @ n # numbers k r"
    and new: "outstanding (set_queue i (q @ r) c) i k = (running k (cs_threads c i) @ numbers k q) @ numbers k r"
    by (simp_all add: outstanding_def q)
  then have "message_inv env (cs_stream c) (cs_calls c) i k (outstanding (set_queue i (q @ r) c) i k) (cs_slots c i k)"
    by (metis concurrent_invD(2) [OF inv] message_inv_lost)
  then show "message_inv env (cs_stream c) (cs_calls (set_queue i (q @ r) c)) i k
      (outstanding (set_queue i (q @ r) c) i k) (cs_slots (set_queue i (q @ r) c) i k)"
    by simp
qed (use q concurrent_invD(1) [OF inv] in \<open>auto simp: outstanding_def\<close>)

lemma concurrent_inv_thread:
  assumes "broker_contract (in_redeliver env)" and "concurrent_inv env c" and "thread_step env c c'"
  shows "concurrent_inv env c'"
  using assms(3)
proof (cases rule: thread_step.cases)
  case (deliver i k n sl)
  then show ?thesis using concurrent_inv_deliver [OF assms(1,2)] by blast
next
  case (start i k n q e th)
  then show ?thesis using concurrent_inv_start [OF assms(2)] by blast
next
  case (poison i k n q arrived sl)
  then show ?thesis using concurrent_inv_poison [OF assms(2)] by blast
next
  case (handle i th t ts err s th' x)
  then show ?thesis using concurrent_inv_handle [OF assms(2)] by blast
next
  case (finish i th k d arrived sl)
  then show ?thesis using concurrent_inv_finish [OF assms(2)] by blast
qed

lemma set_thread_same: "cs_threads c i = x \<Longrightarrow> set_thread i x c = c"
  by (auto simp: set_thread_def)

lemma concurrent_inv_step:
  assumes "broker_contract (in_redeliver env)" and "concurrent_inv env c" and "concurrent_step env c c'"
  shows "concurrent_inv env c'"
  using assms(3)
proof (rule concurrent_step_elim)
  fix reply e err ms
  assume c': "c' = c\<lparr>cs_stream := ms\<rparr>" and p: "bus_publish reply e (cs_stream c) = (err, ms)"
  have out: "outstanding c' i k = outstanding c i k" for i k by (simp add: c' outstanding_def)
  from bus_publish_grows [OF p] show ?thesis
    using assms(2) by (auto simp: concurrent_inv_def out) (auto simp: c' thread_inv_stream message_inv_stream)
next
  fix s
  assume "c' = c\<lparr>cs_app := s\<rparr>"
  then show ?thesis using assms(2) by (simp add: concurrent_inv_def outstanding_def)
next
  fix i
  assume "c' = set_thread i None c"
  then show ?thesis
    using concurrent_inv_abandon [OF assms(2)] set_thread_same [of c i None] assms(2) by (cases "cs_threads c i") auto
next
  fix i q p r
  assume "c' = set_queue i (q @ r) c" and "cs_queues c i = q @ p # r"
  then show ?thesis using concurrent_inv_lose [OF assms(2)] by (cases p) simp
next
  assume "thread_step env c c'"
  then show ?thesis by (rule concurrent_inv_thread [OF assms(1,2)])
qed

lemma concurrent_reached_inv:
  assumes "broker_contract (in_redeliver env)" and "concurrent_reached env c"
  shows "concurrent_inv env c"
  using assms(2)
  by (induction rule: concurrent_reached.induct) (auto intro: concurrent_inv_started concurrent_inv_step [OF assms(1)])

section \<open>The steps refine the inbox\<close>

text \<open>A copy that ends makes its attempt count; what was decided for it moves the status.\<close>

lemma copies_bounded:
  assumes "slot_inv (xs @ n # ys) e sl"
  shows "Suc (length (xs @ ys)) \<le> sl_attempts sl" and "sl_attempts sl \<le> 5"
proof -
  have s: "sorted_wrt (<) (xs @ n # ys)" "set (xs @ n # ys) \<subseteq> {1..sl_attempts sl}"
    using assms by (simp_all add: slot_inv_def)
  have "distinct (xs @ n # ys)" using s(1) by (simp only: strict_sorted_iff)
  then have "length (xs @ n # ys) = card (set (xs @ n # ys))" by (simp only: distinct_card)
  also have "\<dots> \<le> card {1..sl_attempts sl}" by (rule card_mono [OF _ s(2)]) simp
  finally show "Suc (length (xs @ ys)) \<le> sl_attempts sl" by simp
  show "sl_attempts sl \<le> 5" using assms by (simp add: slot_inv_def max_deliver_def)
qed

lemma ended_status:
  assumes old: "slot_inv (xs @ n # ys) e sl" and new: "slot_inv (xs @ ys) e sl'"
    and same: "sl_attempts sl' = sl_attempts sl" and more: "set (sl_decisions sl) \<subseteq> set (sl_decisions sl')"
  shows "status_step (e \<noteq> None) (slot_status (length (xs @ n # ys)) sl) (slot_status (length (xs @ ys)) sl')"
proof -
  define m where "m = sl_attempts sl - length (xs @ n # ys)"
  have m: "sl_attempts sl - length (xs @ ys) = Suc m" "m < 5" "sl_attempts sl - Suc (length xs + length ys) = m"
    using copies_bounded [OF old] by (simp_all add: m_def)
  show ?thesis
  proof (cases e)
    case None
    have "Ack \<notin> set (sl_decisions sl)" "Ack \<notin> set (sl_decisions sl')"
      using old new None by (auto simp: slot_inv_def)
    then show ?thesis
      using m more status_step.poison [of m] poison_again retry [of m False]
      by (auto simp: slot_status_def same None max_deliver_def Let_def)
  next
    case (Some x)
    have "Term \<notin> set (sl_decisions sl)" using old Some by (auto simp: slot_inv_def)
    moreover have "m = 4" if "Term \<in> set (sl_decisions sl')"
      using new that m(1) Some same by (auto simp: slot_inv_def max_deliver_def)
    ultimately show ?thesis
      using m more again handled [of m] exhausted retry [of m True]
      by (auto simp: slot_status_def same Some max_deliver_def Let_def)
  qed
qed

lemma inbox_same:
  assumes "cs_stream c' = cs_stream c" and "\<And>j l. status_at c' j l = status_at c j l"
  shows "inbox_step (concurrent_inbox c) (concurrent_inbox c')"
proof -
  have "status_at c' = status_at c" using assms(2) by (intro ext)
  then show ?thesis using assms(1) stutter by (simp add: concurrent_inbox_def)
qed

lemma inbox_moves:
  assumes "cs_stream c' = cs_stream c" and "\<And>j l. j \<noteq> i \<or> l \<noteq> k \<Longrightarrow> status_at c' j l = status_at c j l"
    and "k < length (cs_stream c)"
    and "status_step (wire_decode (msg_data (cs_stream c ! k)) \<noteq> None) (status_at c i k) (status_at c' i k)"
  shows "inbox_step (concurrent_inbox c) (concurrent_inbox c')"
proof -
  have "status_at c' = (status_at c)(i := (status_at c i)(k := status_at c' i k))"
    using assms(2) by (auto simp: fun_eq_iff)
  then have "concurrent_inbox c' = (concurrent_inbox c)\<lparr>statuses := (statuses (concurrent_inbox c))
      (i := (statuses (concurrent_inbox c) i)(k := status_at c' i k))\<rparr>"
    by (simp add: concurrent_inbox_def assms(1))
  then show ?thesis
    using move [of k "concurrent_inbox c" i "status_at c' i k"] assms(3,4) by (simp add: concurrent_inbox_def)
qed

text \<open>The step of a copy that ends, from the invariants before and after.\<close>

lemma copy_ends:
  assumes inv: "concurrent_inv env c" and inv': "concurrent_inv env c'" and st: "cs_stream c' = cs_stream c"
    and others: "\<And>j l. j \<noteq> i \<or> l \<noteq> k \<Longrightarrow> cs_slots c' j l = cs_slots c j l \<and> outstanding c' j l = outstanding c j l"
    and copies: "outstanding c i k = xs @ n # ys" "outstanding c' i k = xs @ ys"
    and slot: "sl_attempts (cs_slots c' i k) = sl_attempts (cs_slots c i k)"
      "set (sl_decisions (cs_slots c i k)) \<subseteq> set (sl_decisions (cs_slots c' i k))"
  shows "inbox_step (concurrent_inbox c) (concurrent_inbox c')"
proof (rule inbox_moves [OF st, where i = i and k = k])
  have sel: "selects env (cs_stream c) i k"
    using concurrent_invD(2) [OF inv, of i k] copies(1) by (auto simp: message_inv_def split: if_splits)
  then show "k < length (cs_stream c)" by (simp add: selects_def)
  have "slot_inv (xs @ n # ys) (wire_decode (msg_data (cs_stream c ! k))) (cs_slots c i k)"
    "slot_inv (xs @ ys) (wire_decode (msg_data (cs_stream c ! k))) (cs_slots c' i k)"
    using concurrent_invD(2) [OF inv, of i k] concurrent_invD(2) [OF inv', of i k] sel
    by (simp_all add: message_inv_def copies st)
  from ended_status [OF this slot]
  show "status_step (wire_decode (msg_data (cs_stream c ! k)) \<noteq> None) (status_at c i k) (status_at c' i k)"
    by (simp only: status_at_def copies)
  show "status_at c' j l = status_at c j l" if "j \<noteq> i \<or> l \<noteq> k" for j l
    using others [OF that] by (simp add: status_at_def)
qed

lemma concurrent_refines:
  assumes c: "broker_contract (in_redeliver env)" and inv: "concurrent_inv env c" and step: "concurrent_step env c c'"
  shows "inbox_step (concurrent_inbox c) (concurrent_inbox c')"
  using step
proof (rule concurrent_step_elim)
  fix reply e err ms
  assume c': "c' = c\<lparr>cs_stream := ms\<rparr>" and "bus_publish reply e (cs_stream c) = (err, ms)"
  then consider "ms = cs_stream c" | m where "ms = cs_stream c @ [m]" using bus_publish_grows by metis
  then show ?thesis
  proof cases
    case 1
    then show ?thesis by (simp add: c' stutter)
  next
    case 2
    have "status_at c' = status_at c" by (intro ext) (simp add: status_at_def outstanding_def c')
    then show ?thesis
      using append [of "concurrent_inbox c" "(msg_subject m, wire_decode (msg_data m))"] 2
      by (simp add: c' concurrent_inbox_def)
  qed
next
  fix s
  assume "c' = c\<lparr>cs_app := s\<rparr>"
  then show ?thesis by (intro inbox_same) (simp_all add: status_at_def outstanding_def)
next
  fix i
  assume c': "c' = set_thread i None c"
  show ?thesis
  proof (cases "cs_threads c i")
    case None
    then show ?thesis by (simp add: c' set_thread_same stutter)
  next
    case (Some th)
    show ?thesis
      by (rule copy_ends [OF inv concurrent_inv_step [OF c inv step], where i = i and k = "th_message th"
            and xs = "[]" and n = "th_number th"])
        (use Some in \<open>auto simp: c' outstanding_def\<close>)
  qed
next
  fix i q p r
  assume c': "c' = set_queue i (q @ r) c" and q: "cs_queues c i = q @ p # r"
  show ?thesis
    by (rule copy_ends [OF inv concurrent_inv_step [OF c inv step], where i = i and k = "fst p"
          and xs = "running (fst p) (cs_threads c i) @ numbers (fst p) q" and n = "snd p"])
      (use q in \<open>auto simp: c' outstanding_def\<close>)
next
  assume "thread_step env c c'"
  then show ?thesis
  proof (cases rule: thread_step.cases)
    case (deliver i k n sl)
    then show ?thesis
      by (intro inbox_same) (auto simp: status_at_def outstanding_def slot_status_def Let_def)
  next
    case (start i k n q e th)
    then show ?thesis by (intro inbox_same) (auto simp: status_at_def outstanding_def)
  next
    case (poison i k n q arrived sl)
    show ?thesis
      by (rule copy_ends [OF inv concurrent_inv_step [OF c inv step], where i = i and k = k and xs = "[]" and n = n])
        (use poison in \<open>auto simp: outstanding_def\<close>)
  next
    case (handle i th t ts err s th' x)
    then show ?thesis by (intro inbox_same) (auto simp: status_at_def outstanding_def)
  next
    case (finish i th k d arrived sl)
    show ?thesis
      by (rule copy_ends [OF inv concurrent_inv_step [OF c inv step], where i = i and k = k
            and xs = "[]" and n = "th_number th"])
        (use finish in \<open>auto simp: outstanding_def\<close>)
  qed
qed

end
