(* ===== verification/Concurrent_Runs.thy ===== *)
theory Concurrent_Runs
  imports Concurrent
begin

text \<open>
  What runs of the concurrent instance of \<^verbatim>\<open>Concurrent\<close> do: which calls of consumers they make
  and how many, that they end and in which state, and that a delivery of \<^verbatim>\<open>System\<close>, with its
  dispatch as one step, is a run of one subscription's thread.
\<close>

section \<open>The calls made\<close>

definition call_key :: "'err call \<Rightarrow> nat \<times> nat \<times> nat \<times> nat" where
  "call_key x = (call_sub x, call_msg x, call_number x, call_target x)"

text \<open>A call was one of a consumer of the event that a message of the subscription carries.\<close>

definition call_real :: "('s, 'err) instance_env \<Rightarrow> message list \<Rightarrow> 'err call \<Rightarrow> bool" where
  "call_real env ms x \<longleftrightarrow> selects env ms (call_sub x) (call_msg x) \<and>
     (\<exists>e. wire_decode (msg_data (ms ! call_msg x)) = Some e \<and>
        call_target x < length (targets (in_registry env) (ev_type e)) \<and>
        (\<exists>s. fst (safe_handle (targets (in_registry env) (ev_type e) ! call_target x) e s) = call_error x))"

text \<open>It was made for a copy that is no longer queued, and for a target the callback has passed.\<close>

definition call_dated :: "('s, 'err) instance_env \<Rightarrow> ('s, 'err) concurrent \<Rightarrow> 'err call \<Rightarrow> bool" where
  "call_dated env c x \<longleftrightarrow> 0 < call_number x \<and> call_number x \<le> sl_attempts (cs_slots c (call_sub x) (call_msg x)) \<and>
     call_number x \<notin> set (numbers (call_msg x) (cs_queues c (call_sub x))) \<and>
     (\<forall>t. cs_threads c (call_sub x) = Some t \<and> th_message t = call_msg x \<and> th_number t = call_number x \<longrightarrow>
        call_target x < length (targets (in_registry env) (ev_type (th_event t))) - length (th_left t))"

definition calls_inv :: "('s, 'err) instance_env \<Rightarrow> ('s, 'err) concurrent \<Rightarrow> bool" where
  "calls_inv env c \<longleftrightarrow> distinct (map call_key (cs_calls c)) \<and>
     (\<forall>x \<in> set (cs_calls c). call_real env (cs_stream c) x \<and> call_dated env c x)"

lemma calls_invI:
  assumes "calls_inv env c" and "cs_stream c' = cs_stream c" and "cs_calls c' = cs_calls c"
    and "\<And>x. call_dated env c x \<Longrightarrow> call_dated env c' x"
  shows "calls_inv env c'"
  using assms unfolding calls_inv_def by simp

lemma calls_inv_handle:
  assumes calls: "calls_inv env c" and inv: "concurrent_inv env c"
    and busy: "cs_threads c i = Some th" and left: "th_left th = t # ts"
    and h: "safe_handle t (th_event th) (cs_app c) = (err, s)"
    and th': "th' = th\<lparr>th_left := ts, th_failed := th_failed th + (if err = None then 0 else 1)\<rparr>"
    and x: "x = Call i (th_message th) (th_number th)
      (length (targets (in_registry env) (ev_type (th_event th))) - length (th_left th)) err"
  shows "calls_inv env ((set_thread i (Some th') c)\<lparr>cs_app := s, cs_calls := cs_calls c @ [x]\<rparr>)"
proof -
  let ?cs = "targets (in_registry env) (ev_type (th_event th))"
  let ?c = "(set_thread i (Some th') c)\<lparr>cs_app := s, cs_calls := cs_calls c @ [x]\<rparr>"
  have "suffix (t # ts) ?cs" using busyD(3) [OF inv busy] left by (simp add: thread_inv_def)
  then obtain us where us: "?cs = us @ t # ts" by (auto elim: suffixE)
  then have n: "length ?cs - length (th_left th) = length us" "length ?cs - length ts = Suc (length us)"
    by (simp_all add: left)
  have key: "x = Call i (th_message th) (th_number th) (length us) err" by (simp only: x n(1))
  have "fst (safe_handle (?cs ! length us) (th_event th) (cs_app c)) = err" by (simp add: us h)
  moreover have "length us < length ?cs" by (simp add: us)
  ultimately have real: "call_real env (cs_stream c) x"
    using busyD(1,2) [OF inv busy] unfolding call_real_def key by auto
  have dated: "call_dated env ?c x"
    using busyD(4) [OF inv busy] n by (auto simp: call_dated_def key th' slot_inv_def)
  have others: "call_dated env ?c y" if "y \<in> set (cs_calls c)" for y
    using calls that busy n by (fastforce simp: calls_inv_def call_dated_def th')
  have "call_key x \<notin> call_key ` set (cs_calls c)"
  proof
    assume "call_key x \<in> call_key ` set (cs_calls c)"
    then obtain y where y: "y \<in> set (cs_calls c)" "call_key y = call_key x" by auto
    then have "call_dated env c y" using calls by (simp add: calls_inv_def)
    then show False using y(2) busy n(1) by (auto simp: call_dated_def call_key_def key)
  qed
  then show ?thesis
    using calls real dated others by (auto simp: calls_inv_def)
qed

lemma calls_inv_step:
  assumes inv: "concurrent_inv env c" and calls: "calls_inv env c" and step: "thread_step env c c'"
  shows "calls_inv env c'"
  using step
proof (cases rule: thread_step.cases)
  case (handle i th t ts err s th' x)
  then show ?thesis using calls_inv_handle [OF calls inv] by blast
qed (auto intro!: calls_invI [OF calls] simp: call_dated_def split: if_splits)

lemma call_real_grows: "call_real env ms x \<Longrightarrow> call_real env (ms @ [m]) x"
  by (auto simp: call_real_def selects_def nth_append)

lemma calls_inv_concurrent:
  assumes inv: "concurrent_inv env c" and calls: "calls_inv env c" and step: "concurrent_step env c c'"
  shows "calls_inv env c'"
  using step
proof (rule concurrent_step_elim)
  fix reply e err ms
  assume "c' = c\<lparr>cs_stream := ms\<rparr>" and "bus_publish reply e (cs_stream c) = (err, ms)"
  then show ?thesis using calls bus_publish_grows by (fastforce simp: calls_inv_def call_dated_def call_real_grows)
next
  fix s
  assume "c' = c\<lparr>cs_app := s\<rparr>"
  then show ?thesis using calls by (simp add: calls_inv_def call_dated_def)
next
  fix i
  assume "c' = set_thread i None c"
  then show ?thesis by (auto intro!: calls_invI [OF calls] simp: call_dated_def)
next
  fix i q p r
  assume "c' = set_queue i (q @ r) c" and "cs_queues c i = q @ p # r"
  then show ?thesis by (auto intro!: calls_invI [OF calls] simp: call_dated_def split: if_splits)
next
  assume "thread_step env c c'"
  then show ?thesis by (rule calls_inv_step [OF inv calls])
qed

lemma concurrent_reached_calls:
  assumes "broker_contract (in_redeliver env)" and "concurrent_reached env c"
  shows "calls_inv env c"
  using assms(2)
proof (induction rule: concurrent_reached.induct)
  case (init s)
  then show ?case by (simp add: calls_inv_def started_def)
next
  case (step c c')
  then show ?case using calls_inv_concurrent concurrent_reached_inv [OF assms(1)] by blast
qed

section \<open>Runs end\<close>

text \<open>
  The steps a delivery of a message takes: its way to the queue, its start, a call of each
  consumer, its end; two in all when it does not decode.  The work left for a message counts them
  for every attempt left, less those already taken by a copy that is queued or running.
\<close>

definition steps_for :: "('s, 'err) instance_env \<Rightarrow> message \<Rightarrow> nat" where
  "steps_for env m =
     (case wire_decode (msg_data m) of None \<Rightarrow> 2 | Some e \<Rightarrow> 3 + length (targets (in_registry env) (ev_type e)))"

definition thread_work :: "('s, 'err) thread option \<Rightarrow> nat \<Rightarrow> nat" where
  "thread_work th k =
     (case th of None \<Rightarrow> 0 | Some t \<Rightarrow> if th_message t = k then Suc (length (th_left t)) else 0)"

definition message_work :: "('s, 'err) instance_env \<Rightarrow> ('s, 'err) concurrent \<Rightarrow> nat \<times> nat \<Rightarrow> nat" where
  "message_work env c = (\<lambda>(i, k). (5 - sl_attempts (cs_slots c i k)) * steps_for env (cs_stream c ! k) +
     length (numbers k (cs_queues c i)) * (steps_for env (cs_stream c ! k) - 1) + thread_work (cs_threads c i) k)"

definition places :: "('s, 'err) instance_env \<Rightarrow> ('s, 'err) concurrent \<Rightarrow> (nat \<times> nat) set" where
  "places env c = {..<length (in_subjects env)} \<times> {..<length (cs_stream c)}"

definition work :: "('s, 'err) instance_env \<Rightarrow> ('s, 'err) concurrent \<Rightarrow> nat" where
  "work env c = sum (message_work env c) (places env c)"

lemma thread_work_simps [simp]:
  "thread_work None k = 0"
  "thread_work (Some t) k = (if th_message t = k then Suc (length (th_left t)) else 0)"
  by (simp_all add: thread_work_def)

lemma work_changes:
  assumes "selects env (cs_stream c) i k" and "cs_stream c' = cs_stream c"
    and "\<And>p. p \<noteq> (i, k) \<Longrightarrow> message_work env c p = message_work env c' p"
    and "message_work env c (i, k) = Suc (message_work env c' (i, k))"
  shows "work env c = Suc (work env c')"
proof -
  have "(i, k) \<in> places env c" "finite (places env c)" using assms(1) by (simp_all add: places_def selects_def)
  moreover have "places env c' = places env c" by (simp add: places_def assms(2))
  ultimately show ?thesis
    using sum.remove [of "places env c" "(i, k)" "message_work env c"]
      sum.remove [of "places env c" "(i, k)" "message_work env c'"] assms(3,4)
      sum.cong [of "places env c - {(i, k)}" "places env c - {(i, k)}" "message_work env c" "message_work env c'"]
    by (simp add: work_def)
qed

lemma work_step:
  assumes c: "broker_contract (in_redeliver env)" and inv: "concurrent_inv env c" and step: "thread_step env c c'"
  shows "work env c = Suc (work env c')"
  using step
proof (cases rule: thread_step.cases)
  case (deliver i k n sl)
  note o = offeredD [OF c deliver(2) inv]
  have n: "5 - sl_attempts (cs_slots c i k) = Suc (5 - sl_attempts sl)" using o(2) deliver(3,4) by (simp add: max_deliver_def)
  have w: "steps_for env (cs_stream c ! k) = Suc (steps_for env (cs_stream c ! k) - 1)"
    by (auto simp: steps_for_def split: option.split)
  show ?thesis unfolding deliver(1)
  proof (rule work_changes [OF o(1)])
    let ?c = "set_queue i (cs_queues c i @ [(k, n)]) (set_slot i k sl c)"
    show "message_work env c p = message_work env ?c p" if "p \<noteq> (i, k)" for p
      using that by (cases p) (auto simp: message_work_def)
    have "message_work env ?c (i, k) + steps_for env (cs_stream c ! k) =
        message_work env c (i, k) + (steps_for env (cs_stream c ! k) - 1)"
      by (simp add: message_work_def n)
    then show "message_work env c (i, k) = Suc (message_work env ?c (i, k))" using w by linarith
  qed simp
next
  case (start i k n q e th)
  show ?thesis unfolding start(1)
  proof (rule work_changes [OF queuedD(1) [OF inv, of i "[]" k n q]])
    show "message_work env c p = message_work env (set_thread i (Some th) (set_queue i q c)) p" if "p \<noteq> (i, k)" for p
      using that by (cases p) (auto simp: message_work_def start(2,3,5))
  qed (simp_all add: message_work_def start(2,3,5) steps_for_def start(4))
next
  case (poison i k n q arrived sl)
  show ?thesis unfolding poison(1)
  proof (rule work_changes [OF queuedD(1) [OF inv, of i "[]" k n q]])
    show "message_work env c p = message_work env (set_queue i q (set_slot i k sl c)) p" if "p \<noteq> (i, k)" for p
      using that by (cases p) (auto simp: message_work_def poison(2,3))
  qed (simp_all add: message_work_def poison(2,3,6) steps_for_def poison(4))
next
  case (handle i th t ts err s th' x)
  show ?thesis unfolding handle(1)
  proof (rule work_changes [OF busyD(1) [OF inv handle(2)]])
    show "message_work env c p = message_work env
        ((set_thread i (Some th') c)\<lparr>cs_app := s, cs_calls := cs_calls c @ [x]\<rparr>) p" if "p \<noteq> (i, th_message th)" for p
      using that by (cases p) (auto simp: message_work_def handle(2,5))
  qed (simp_all add: message_work_def handle(2,3,5))
next
  case (finish i th k d arrived sl)
  show ?thesis unfolding finish(1)
  proof (rule work_changes [OF busyD(1) [OF inv finish(2)]])
    show "message_work env c p = message_work env (set_thread i None (set_slot i k sl c)) p"
      if "p \<noteq> (i, th_message th)" for p
      using that by (cases p) (auto simp: message_work_def finish(2,4))
  qed (simp_all add: message_work_def finish(2,3,4,7))
qed

lemma work_steps:
  assumes "broker_contract (in_redeliver env)" and "(thread_step env ^^ n) c c'" and "concurrent_inv env c"
  shows "work env c = n + work env c' \<and> concurrent_inv env c' \<and> cs_stream c' = cs_stream c"
  using assms(2)
proof (induction n arbitrary: c')
  case 0
  then show ?case using assms(3) by simp
next
  case (Suc n)
  then obtain c1 where s: "(thread_step env ^^ n) c c1" "thread_step env c1 c'" by auto
  have "cs_stream c' = cs_stream c1" using s(2) by (cases rule: thread_step.cases) simp_all
  then show ?case
    using Suc.IH [OF s(1)] work_step [OF assms(1) _ s(2)] concurrent_inv_thread [OF assms(1) _ s(2)] by simp
qed

lemma outstanding_bounded:
  assumes "concurrent_inv env c"
  shows "length (outstanding c i k) \<le> sl_attempts (cs_slots c i k) \<and> sl_attempts (cs_slots c i k) \<le> 5"
proof (cases "selects env (cs_stream c) i k")
  case True
  then have s: "slot_inv (outstanding c i k) (wire_decode (msg_data (cs_stream c ! k))) (cs_slots c i k)"
    using concurrent_invD(2) [OF assms, of i k] by (simp add: message_inv_def)
  then have "sl_attempts (cs_slots c i k) \<le> 5" by (simp add: slot_inv_def max_deliver_def)
  then show ?thesis using copies_bounded [of "[]"] s by (cases "outstanding c i k") auto
next
  case False
  then show ?thesis using concurrent_invD(2) [OF assms, of i k] by (simp add: message_inv_def unused_def)
qed

lemma work_bound:
  assumes inv: "concurrent_inv env c"
  shows "work env c \<le> 5 * (length (in_subjects env) * sum_list (map (steps_for env) (cs_stream c)))"
proof -
  have each: "message_work env c (i, k) \<le> 5 * steps_for env (cs_stream c ! k)"
    if "k < length (cs_stream c)" for i k
  proof -
    let ?S = "steps_for env (cs_stream c ! k)" and ?a = "sl_attempts (cs_slots c i k)"
    have th: "thread_work (cs_threads c i) k \<le> length (running k (cs_threads c i)) * ?S"
    proof (cases "cs_threads c i")
      case (Some th)
      then show ?thesis
        using busyD(2,3) [OF inv Some] suffix_length_le
        by (fastforce simp: thread_inv_def steps_for_def)
    qed simp
    have "length (outstanding c i k) \<le> ?a \<and> ?a \<le> 5"
      using outstanding_bounded [OF inv] .
    then have "(5 - ?a) * ?S + length (outstanding c i k) * ?S \<le> 5 * ?S"
      unfolding add_mult_distrib [symmetric] by (intro mult_right_mono) auto
    moreover have "length (numbers k (cs_queues c i)) * (?S - 1) \<le> length (numbers k (cs_queues c i)) * ?S" by simp
    ultimately show ?thesis
      using th unfolding message_work_def outstanding_def length_append add_mult_distrib prod.case by linarith
  qed
  have "work env c \<le> (\<Sum>(i, k) \<in> places env c. 5 * steps_for env (cs_stream c ! k))"
    unfolding work_def using each by (intro sum_mono) (auto simp: places_def)
  also have "\<dots> = length (in_subjects env) * (\<Sum>k < length (cs_stream c). 5 * steps_for env (cs_stream c ! k))"
    unfolding places_def by (simp add: sum.cartesian_product [symmetric])
  also have "(\<Sum>k < length (cs_stream c). 5 * steps_for env (cs_stream c ! k)) = 5 * sum_list (map (steps_for env) (cs_stream c))"
    by (simp add: sum_list_sum_nth sum_distrib_left atLeast0LessThan)
  finally show ?thesis by (simp add: ac_simps)
qed

lemma runs_stop:
  assumes "broker_contract (in_redeliver env)" and "concurrent_inv env c"
  shows "\<exists>c'. (thread_step env)\<^sup>*\<^sup>* c c' \<and> idle env c'"
  using assms(2)
proof (induction "work env c" arbitrary: c rule: less_induct)
  case less
  show ?case
  proof (cases "idle env c")
    case False
    then obtain c1 where s: "thread_step env c c1" by (auto simp: idle_def)
    then obtain c' where "(thread_step env)\<^sup>*\<^sup>* c1 c'" "idle env c'"
      using less(1) [of c1] work_step [OF assms(1) less(2) s] concurrent_inv_thread [OF assms(1) less(2) s] by auto
    with s show ?thesis by (meson converse_rtranclp_into_rtranclp)
  qed blast
qed

lemma idle_free:
  assumes "idle env c"
  shows "cs_threads c i = None"
proof (cases "cs_threads c i")
  case (Some th)
  show ?thesis
  proof (cases "th_left th")
    case Nil
    then show ?thesis using thread_step.finish [OF Some Nil refl refl, of None] assms by (auto simp: idle_def)
  next
    case (Cons t ts)
    obtain err s where "safe_handle t (th_event th) (cs_app c) = (err, s)" by fastforce
    then show ?thesis using thread_step.handle [OF Some Cons _ refl refl] assms by (auto simp: idle_def)
  qed
qed

lemma idle_queue:
  assumes "idle env c"
  shows "cs_queues c i = []"
proof (cases "cs_queues c i")
  case (Cons p q)
  obtain k n where q: "cs_queues c i = (k, n) # q" using Cons by (cases p) simp
  show ?thesis
  proof (cases "wire_decode (msg_data (cs_stream c ! k))")
    case None
    then show ?thesis
      using thread_step.poison [OF idle_free [OF assms] q None _ refl, of None] assms by (auto simp: idle_def)
  next
    case (Some e)
    then show ?thesis using thread_step.start [OF idle_free [OF assms] q Some refl] assms by (auto simp: idle_def)
  qed
qed

lemma idle_outstanding: "idle env c \<Longrightarrow> outstanding c i k = []"
  by (simp add: outstanding_def idle_free idle_queue)

lemma idle_not_offered: "idle env c \<Longrightarrow> \<not> offered env c i k"
  unfolding idle_def by (blast intro: thread_step.deliver [OF _ refl refl])

lemma idle_slot:
  assumes c: "broker_contract (in_redeliver env)" and inv: "concurrent_inv env c" and idle: "idle env c"
    and sel: "selects env (cs_stream c) i k"
  shows "if wire_decode (msg_data (cs_stream c ! k)) = None
    then set (sl_decisions (cs_slots c i k)) = {Term} \<or>
      set (sl_decisions (cs_slots c i k)) = {} \<and> sl_attempts (cs_slots c i k) = 5
    else Ack \<in> set (sl_decisions (cs_slots c i k)) \<or> sl_attempts (cs_slots c i k) = 5"
proof -
  let ?sl = "cs_slots c i k"
  have s: "slot_inv [] (wire_decode (msg_data (cs_stream c ! k))) ?sl"
    using concurrent_invD(2) [OF inv, of i k] sel by (simp add: message_inv_def idle_outstanding [OF idle])
  have "\<not> in_redeliver env (sl_settled ?sl) (sl_attempts ?sl)"
    using idle_not_offered [OF idle, of i k] sel by (simp add: offered_def)
  then have "sl_attempts ?sl = 5 \<or> sl_settled ?sl = Some Ack \<or> sl_settled ?sl = Some Term"
    using broker_stops [OF c] s by (fastforce simp: slot_inv_def max_deliver_def)
  then have "sl_attempts ?sl = 5 \<or> Ack \<in> set (sl_decisions ?sl) \<or> Term \<in> set (sl_decisions ?sl)"
    using s by (auto simp: slot_inv_def)
  moreover have "if wire_decode (msg_data (cs_stream c ! k)) = None then set (sl_decisions ?sl) \<subseteq> {Term}
      else Term \<in> set (sl_decisions ?sl) \<longrightarrow> sl_attempts ?sl = 5"
    using s by (simp add: slot_inv_def max_deliver_def)
  ultimately show ?thesis
    by (cases "wire_decode (msg_data (cs_stream c ! k))") (auto simp: subset_singleton_iff)
qed

lemma idle_status:
  assumes "broker_contract (in_redeliver env)" and "concurrent_inv env c" and "idle env c"
    and "selects env (cs_stream c) i k"
  shows "status_at c i k \<in> {Handled, Given_up}"
proof -
  have "status_at c i k = slot_status 0 (cs_slots c i k)" by (simp add: status_at_def idle_outstanding [OF assms(3)])
  moreover have "Ack \<in> set (sl_decisions (cs_slots c i k)) \<or> Term \<in> set (sl_decisions (cs_slots c i k)) \<or>
      sl_attempts (cs_slots c i k) = 5"
    using idle_slot [OF assms] by (auto split: if_splits)
  ultimately show ?thesis by (auto simp: slot_status_def Let_def max_deliver_def split: if_splits)
qed

section \<open>Whole deliveries are runs\<close>

lemma set_thread_twice [simp]: "set_thread i y (set_thread i x c) = set_thread i y c"
  by (simp add: set_thread_def)

lemma set_queue_simps [simp]:
  "set_queue i q (set_queue i r c) = set_queue i q c"
  "set_queue i q (set_slot i k sl c) = set_slot i k sl (set_queue i q c)"
  "set_queue i q (set_thread i th c) = set_thread i th (set_queue i q c)"
  by (simp_all add: set_queue_def set_slot_def set_thread_def)

lemma set_queue_same: "cs_queues c i = q \<Longrightarrow> set_queue i q c = c"
  by (auto simp: set_queue_def)

lemma set_thread_app:
  "set_thread i x (c\<lparr>cs_app := s, cs_calls := xs\<rparr>) = (set_thread i x c)\<lparr>cs_app := s, cs_calls := xs\<rparr>"
  by (simp add: set_thread_def)

text \<open>A thread that is not interrupted runs its consumers as \<^term>\<open>handle_targets\<close> does.\<close>

lemma handle_run:
  assumes "cs_threads c i = Some th" and "handle_targets (th_left th) (th_event th) (th_failed th) (cs_app c) = (n, s)"
  shows "\<exists>xs. (thread_step env)\<^sup>*\<^sup>* c
    ((set_thread i (Some (th\<lparr>th_left := [], th_failed := n\<rparr>)) c)\<lparr>cs_app := s, cs_calls := cs_calls c @ xs\<rparr>)"
  using assms
proof (induction "th_left th" arbitrary: c th)
  case Nil
  then have "th\<lparr>th_left := [], th_failed := n\<rparr> = th" "s = cs_app c" by simp_all
  then show ?case using Nil(2) set_thread_same [of c i "Some th"] by (intro exI [of _ "[]"]) simp
next
  case (Cons t ts)
  note left = Cons(2) [symmetric]
  obtain err s1 where h: "safe_handle t (th_event th) (cs_app c) = (err, s1)" by fastforce
  let ?th = "th\<lparr>th_left := ts, th_failed := th_failed th + (if err = None then 0 else 1)\<rparr>"
  let ?x = "Call i (th_message th) (th_number th)
      (length (targets (in_registry env) (ev_type (th_event th))) - length (th_left th)) err"
  let ?c = "(set_thread i (Some ?th) c)\<lparr>cs_app := s1, cs_calls := cs_calls c @ [?x]\<rparr>"
  have one: "thread_step env c ?c" by (rule thread_step.handle [OF Cons(3) left h refl refl])
  have "handle_targets ts (th_event th) (th_failed ?th) s1 = (n, s)"
    using Cons(4) h left by (cases err) simp_all
  then obtain xs where "(thread_step env)\<^sup>*\<^sup>* ?c
      ((set_thread i (Some (?th\<lparr>th_left := [], th_failed := n\<rparr>)) ?c)\<lparr>cs_app := s, cs_calls := cs_calls ?c @ xs\<rparr>)"
    using Cons(1) [of ?th ?c] by auto
  with one show ?case
    by (intro exI [of _ "?x # xs"]) (simp add: set_thread_app converse_rtranclp_into_rtranclp)
qed

lemma slot_updated [simp]:
  "sl\<lparr>sl_attempts := n, sl_settled := x, sl_decisions := ds\<rparr> = \<lparr>sl_attempts = n, sl_settled = x, sl_decisions = ds\<rparr>"
  by (cases sl) simp

lemma delivery_run:
  assumes o: "offered env c i k" and free: "cs_threads c i = None" and empty: "cs_queues c i = []"
    and m: "on_message (dispatch (in_registry env))
      (attempt_delivery (in_meta_ok env) (msg_data (cs_stream c ! k)) (sl_attempts (cs_slots c i k))) (cs_app c) = (d, s)"
    and a: "arrived = None \<or> arrived = Some d"
  shows "\<exists>xs. (thread_step env)\<^sup>*\<^sup>* c
    ((set_slot i k \<lparr>sl_attempts = Suc (sl_attempts (cs_slots c i k)), sl_settled = arrived,
        sl_decisions = sl_decisions (cs_slots c i k) @ [d]\<rparr> c)\<lparr>cs_app := s, cs_calls := cs_calls c @ xs\<rparr>)"
proof -
  let ?sl = "cs_slots c i k" and ?n = "Suc (sl_attempts (cs_slots c i k))"
  let ?sl1 = "?sl\<lparr>sl_attempts := ?n, sl_settled := None\<rparr>"
  let ?res = "set_slot i k \<lparr>sl_attempts = ?n, sl_settled = arrived, sl_decisions = sl_decisions ?sl @ [d]\<rparr> c"
  let ?c1 = "set_queue i [(k, ?n)] (set_slot i k ?sl1 c)"
  have deliver: "thread_step env c ?c1" using thread_step.deliver [OF o refl refl] by (simp add: empty)
  have q: "cs_threads ?c1 i = None" "cs_queues ?c1 i = (k, ?n) # []" by (simp_all add: free)
  have emptied: "set_queue i [] ?c1 = set_slot i k ?sl1 c" by (simp add: set_queue_same empty)
  show ?thesis
  proof (cases "wire_decode (msg_data (cs_stream c ! k))")
    case None
    then have d: "d = Term" "s = cs_app c" using m by (simp_all add: on_message_def attempt_delivery_def)
    have "thread_step env ?c1 (set_queue i [] (set_slot i k (?sl1\<lparr>sl_settled := arrived, sl_decisions := sl_decisions ?sl @ [d]\<rparr>) ?c1))"
      by (rule thread_step.poison [OF q, where arrived = arrived]) (use None a in \<open>simp_all add: d heard_def\<close>)
    moreover have "set_queue i [] (set_slot i k (?sl1\<lparr>sl_settled := arrived, sl_decisions := sl_decisions ?sl @ [d]\<rparr>) ?c1) =
        ?res\<lparr>cs_app := s, cs_calls := cs_calls c @ []\<rparr>"
      by (simp add: d set_queue_same empty) (simp add: set_slot_def)
    ultimately have poison: "thread_step env ?c1 (?res\<lparr>cs_app := s, cs_calls := cs_calls c @ []\<rparr>)" by simp
    show ?thesis
    proof (intro exI [of _ "[]"], rule converse_rtranclp_into_rtranclp)
      show "thread_step env c ?c1" by (rule deliver)
    qed (rule r_into_rtranclp, rule poison)
  next
    case (Some e)
    let ?cs = "targets (in_registry env) (ev_type e)"
    obtain n s1 where h: "handle_targets ?cs e 0 (cs_app c) = (n, s1)" by fastforce
    then have d: "d = settle (if in_meta_ok env then Some ?n else None) (n > 0)" "s = s1"
      using m Some by (auto simp: on_message_settle attempt_delivery_def dispatch_def Let_def)
    let ?th = "\<lparr>th_message = k, th_number = ?n, th_event = e, th_left = ?cs, th_failed = 0\<rparr>"
    let ?c2 = "set_thread i (Some ?th) (set_slot i k ?sl1 c)"
    have start: "thread_step env ?c1 ?c2"
      using thread_step.start [OF q _ refl, of e env] Some by (simp only: emptied) simp
    have "cs_threads ?c2 i = Some ?th" "handle_targets (th_left ?th) (th_event ?th) (th_failed ?th) (cs_app ?c2) = (n, s1)"
      using h by simp_all
    from handle_run [OF this]
    obtain xs where mid: "(thread_step env)\<^sup>*\<^sup>* ?c2
        ((set_thread i (Some (?th\<lparr>th_left := [], th_failed := n\<rparr>)) ?c2)\<lparr>cs_app := s1, cs_calls := cs_calls ?c2 @ xs\<rparr>)"
      by blast
    let ?c3 = "(set_thread i (Some (?th\<lparr>th_left := [], th_failed := n\<rparr>)) ?c2)\<lparr>cs_app := s1, cs_calls := cs_calls ?c2 @ xs\<rparr>"
    let ?sl2 = "?sl1\<lparr>sl_settled := arrived, sl_decisions := sl_decisions ?sl @ [d]\<rparr>"
    have "thread_step env ?c3 (set_thread i None (set_slot i k ?sl2 ?c3))"
      by (rule thread_step.finish [where th = "?th\<lparr>th_left := [], th_failed := n\<rparr>" and d = d and arrived = arrived])
        (use a in \<open>simp_all add: d heard_def\<close>)
    moreover have "set_thread i None (set_slot i k ?sl2 ?c3) = ?res\<lparr>cs_app := s, cs_calls := cs_calls c @ xs\<rparr>"
      using free by (auto simp: set_slot_def set_thread_def d(2) fun_eq_iff)
    ultimately have fin: "(thread_step env)\<^sup>*\<^sup>* ?c3 (?res\<lparr>cs_app := s, cs_calls := cs_calls c @ xs\<rparr>)" by simp
    have "(thread_step env)\<^sup>*\<^sup>* c ?c2"
    proof (rule converse_rtranclp_into_rtranclp)
      show "thread_step env c ?c1" by (rule deliver)
      show "(thread_step env)\<^sup>*\<^sup>* ?c1 ?c2" by (rule r_into_rtranclp) (rule start)
    qed
    from rtranclp_trans [OF this rtranclp_trans [OF mid fin]] show ?thesis by (rule exI [of _ xs])
  qed
qed

text \<open>A system between deliveries as a concurrent instance without a running thread or a queued copy.\<close>

definition track_slot :: "'s track \<Rightarrow> slot" where
  "track_slot t = \<lparr>sl_attempts = attempts t, sl_settled = settled t, sl_decisions = decisions t\<rparr>"

definition mirrors :: "'s system \<Rightarrow> ('s, 'err) concurrent \<Rightarrow> bool" where
  "mirrors \<sigma> c \<longleftrightarrow> cs_stream c = sys_stream \<sigma> \<and> cs_app c = sys_app \<sigma> \<and> cs_threads c = (\<lambda>_. None) \<and> cs_queues c = (\<lambda>_. []) \<and>
     cs_slots c = (\<lambda>i k. track_slot (sys_tracks \<sigma> i k))"

lemma mirrors_initial: "mirrors (initial s) (started s)"
  by (simp add: mirrors_def initial_def started_def track_slot_def fresh_def unused_def)

lemma mirrors_inbox: "mirrors \<sigma> c \<Longrightarrow> concurrent_inbox c = inbox_of \<sigma>"
  by (simp add: mirrors_def concurrent_inbox_def inbox_of_def fun_eq_iff status_at_def slot_status_def
      outstanding_def status_of_def track_slot_def)

lemma mirrors_selects: "mirrors \<sigma> c \<Longrightarrow> selects env (cs_stream c) i k = concerns env \<sigma> i k"
  by (simp add: mirrors_def selects_def concerns_def)

lemma delivery_mirrored:
  assumes "mirrors \<sigma> c" and "delivery_step env \<sigma> \<sigma>'"
  shows "\<exists>c'. (thread_step env)\<^sup>*\<^sup>* c c' \<and> mirrors \<sigma>' c'"
  using assms(2)
proof (rule delivery_step_elim)
  fix i k t
  assume \<sigma>': "\<sigma>' = \<sigma>\<lparr>sys_tracks := (sys_tracks \<sigma>)(i := (sys_tracks \<sigma> i)(k := t)), sys_app := app_state t\<rparr>"
    and con: "concerns env \<sigma> i k"
    and a: "attempt (in_redeliver env) (in_meta_ok env) (dispatch (in_registry env)) (msg_data (sys_stream \<sigma> ! k))
      ((sys_tracks \<sigma> i k)\<lparr>app_state := sys_app \<sigma>\<rparr>) t"
  let ?t = "sys_tracks \<sigma> i k"
  have c: "cs_stream c = sys_stream \<sigma>" "cs_app c = sys_app \<sigma>" "cs_threads c = (\<lambda>_. None)" "cs_queues c = (\<lambda>_. [])"
    "cs_slots c = (\<lambda>i k. track_slot (sys_tracks \<sigma> i k))"
    using assms(1) by (simp_all add: mirrors_def)
  obtain d arrived where
    t: "t = \<lparr>attempts = Suc (attempts ?t), settled = arrived, app_state = app_state t, decisions = decisions ?t @ [d]\<rparr>"
    and r: "in_redeliver env (settled ?t) (attempts ?t)"
    and m: "on_message (dispatch (in_registry env))
      (attempt_delivery (in_meta_ok env) (msg_data (sys_stream \<sigma> ! k)) (attempts ?t)) (sys_app \<sigma>) = (d, app_state t)"
    and arr: "arrived = None \<or> arrived = Some d"
    using a by (elim attempt_elim) auto
  have o: "offered env c i k" using con r by (simp add: offered_def mirrors_selects [OF assms(1)] c(3,5) track_slot_def)
  have s: "cs_slots c i k = track_slot ?t" by (simp add: c(5))
  have "on_message (dispatch (in_registry env))
      (attempt_delivery (in_meta_ok env) (msg_data (cs_stream c ! k)) (sl_attempts (cs_slots c i k))) (cs_app c) = (d, app_state t)"
    using m by (simp add: c(1,2) s track_slot_def)
  moreover have "\<lparr>sl_attempts = Suc (sl_attempts (cs_slots c i k)), sl_settled = arrived,
      sl_decisions = sl_decisions (cs_slots c i k) @ [d]\<rparr> = track_slot t"
    unfolding s by (subst t) (simp add: track_slot_def)
  ultimately obtain xs where
    run: "(thread_step env)\<^sup>*\<^sup>* c ((set_slot i k (track_slot t) c)\<lparr>cs_app := app_state t, cs_calls := cs_calls c @ xs\<rparr>)"
    using delivery_run [OF o _ _ _ arr, where s = "app_state t"] c(3,4) by auto
  have "mirrors \<sigma>' ((set_slot i k (track_slot t) c)\<lparr>cs_app := app_state t, cs_calls := cs_calls c @ xs\<rparr>)"
    by (auto simp: mirrors_def \<sigma>' c set_slot_def fun_eq_iff)
  with run show ?thesis by blast
qed

lemma thread_steps_concurrent: "(thread_step env)\<^sup>*\<^sup>* c c' \<Longrightarrow> (concurrent_step env)\<^sup>*\<^sup>* c c'"
  by (rule rtranclp_mono [THEN predicate2D]) (auto intro: concurrent_step.thread)

lemma steps_concurrent_reached:
  assumes "(concurrent_step env)\<^sup>*\<^sup>* c c'" and "concurrent_reached env c"
  shows "concurrent_reached env c'"
  using assms by (induction rule: rtranclp_induct) (auto intro: concurrent_reached.step)

lemma step_mirrored:
  assumes "mirrors \<sigma> c" and "system_step env \<sigma> \<sigma>'"
  shows "\<exists>c'. (concurrent_step env)\<^sup>*\<^sup>* c c' \<and> mirrors \<sigma>' c'"
  using assms(2)
proof (rule system_step_elim)
  fix reply e err ms
  assume \<sigma>': "\<sigma>' = \<sigma>\<lparr>sys_stream := ms\<rparr>" and "bus_publish reply e (sys_stream \<sigma>) = (err, ms)"
  then have "concurrent_step env c (c\<lparr>cs_stream := ms\<rparr>)"
    using assms(1) by (intro concurrent_step.publish) (simp add: mirrors_def)
  moreover have "mirrors \<sigma>' (c\<lparr>cs_stream := ms\<rparr>)" using assms(1) by (simp add: mirrors_def \<sigma>')
  ultimately show ?thesis by blast
next
  fix s
  assume "\<sigma>' = \<sigma>\<lparr>sys_app := s\<rparr>"
  then have "mirrors \<sigma>' (c\<lparr>cs_app := s\<rparr>)" using assms(1) by (simp add: mirrors_def)
  with r_into_rtranclp [of "concurrent_step env", OF concurrent_step.environment [of env c s]]
  show ?thesis by (intro exI conjI)
next
  assume "delivery_step env \<sigma> \<sigma>'"
  then show ?thesis using delivery_mirrored [OF assms(1)] thread_steps_concurrent by blast
qed

lemma reached_mirrored:
  assumes "system_reached env \<sigma>"
  shows "\<exists>c. concurrent_reached env c \<and> mirrors \<sigma> c"
  using assms
proof (induction rule: system_reached.induct)
  case (init s)
  show ?case by (intro exI conjI, rule concurrent_reached.init, rule mirrors_initial)
next
  case (step \<sigma> \<sigma>')
  then show ?case using step_mirrored steps_concurrent_reached by metis
qed

section \<open>Facts about reached states\<close>

lemma status_handled:
  assumes inv: "concurrent_inv env c" and h: "status_at c i k = Handled"
  shows "selects env (cs_stream c) i k \<and>
    (\<exists>e. wire_decode (msg_data (cs_stream c ! k)) = Some e \<and> delivered_well env (cs_calls c) i k e)"
proof -
  have a: "Ack \<in> set (sl_decisions (cs_slots c i k))"
    using h by (simp add: status_at_def slot_status_def Let_def split: if_splits)
  have m: "message_inv env (cs_stream c) (cs_calls c) i k (outstanding c i k) (cs_slots c i k)"
    by (rule concurrent_invD(2) [OF inv])
  have sel: "selects env (cs_stream c) i k" using m a by (auto simp: message_inv_def unused_def split: if_splits)
  then have "wire_decode (msg_data (cs_stream c ! k)) \<noteq> None"
    using m a by (cases "wire_decode (msg_data (cs_stream c ! k))") (auto simp: message_inv_def slot_inv_def)
  then show ?thesis using m a sel by (auto simp: message_inv_def)
qed

lemma calls_per_target:
  assumes c: "broker_contract (in_redeliver env)" and r: "concurrent_reached env c"
  shows "length (filter (\<lambda>x. call_sub x = i \<and> call_msg x = k \<and> call_target x = j) (cs_calls c)) \<le> 5"
proof -
  let ?xs = "filter (\<lambda>x. call_sub x = i \<and> call_msg x = k \<and> call_target x = j) (cs_calls c)"
  have calls: "calls_inv env c" by (rule concurrent_reached_calls [OF c r])
  then have "distinct (map call_key ?xs)" by (simp add: calls_inv_def distinct_map_filter)
  then have "distinct ?xs" and inj: "inj_on call_number (set ?xs)"
    by (auto simp: distinct_map inj_on_def call_key_def)
  then have "length ?xs = card (set ?xs)" using distinct_card [of ?xs] by simp
  also have "\<dots> = card (call_number ` set ?xs)" by (rule card_image [OF inj, symmetric])
  also have "\<dots> \<le> card {1..5 :: nat}"
  proof (rule card_mono)
    have "sl_attempts (cs_slots c i k) \<le> 5" using outstanding_bounded [OF concurrent_reached_inv [OF c r]] by blast
    then show "call_number ` set ?xs \<subseteq> {1..5}"
      using calls by (force simp: calls_inv_def call_dated_def)
  qed simp
  finally show ?thesis by simp
qed

text \<open>A consumer may be a target several times; each registration is bounded on its own.\<close>

definition calls_to :: "('s, 'err) instance_env \<Rightarrow> ('s, 'err) concurrent \<Rightarrow> nat \<Rightarrow> nat \<Rightarrow> event \<Rightarrow> ('s, 'err) consumer \<Rightarrow> 'err call list" where
  "calls_to env c i k e t =
     filter (\<lambda>x. call_sub x = i \<and> call_msg x = k \<and> targets (in_registry env) (ev_type e) ! call_target x = t) (cs_calls c)"

lemma length_filter_bex:
  assumes "finite A"
  shows "length (filter (\<lambda>x. \<exists>j \<in> A. P j x) xs) \<le> (\<Sum>j \<in> A. length (filter (P j) xs))"
proof (induction xs)
  case (Cons x xs)
  have one: "(if \<exists>j \<in> A. P j x then 1 else 0) \<le> (\<Sum>j \<in> A. if P j x then 1 else 0 :: nat)"
  proof (cases "\<exists>j \<in> A. P j x")
    case True
    then obtain j where j: "j \<in> A" "P j x" by blast
    then have "(if P j x then 1 else 0 :: nat) \<le> (\<Sum>j \<in> A. if P j x then 1 else 0)"
      using assms by (intro member_le_sum) simp_all
    then show ?thesis using j by simp
  qed simp
  have "(\<Sum>j \<in> A. length (filter (P j) (x # xs))) =
      (\<Sum>j \<in> A. if P j x then 1 else 0) + (\<Sum>j \<in> A. length (filter (P j) xs))"
    by (subst sum.distrib [symmetric]) (rule sum.cong, simp_all)
  then show ?case using Cons one by (cases "\<exists>j \<in> A. P j x") auto
qed simp

lemma calls_per_consumer:
  assumes c: "broker_contract (in_redeliver env)" and r: "concurrent_reached env c"
    and d: "wire_decode (msg_data (cs_stream c ! k)) = Some e"
  shows "length (calls_to env c i k e t) \<le> 5 * count_list (targets (in_registry env) (ev_type e)) t"
proof -
  let ?cs = "targets (in_registry env) (ev_type e)" and ?at = "\<lambda>j x. call_sub x = i \<and> call_msg x = k \<and> call_target x = j"
  define A where "A = {j. j < length ?cs \<and> ?cs ! j = t}"
  have real: "call_target x < length ?cs" if "x \<in> set (cs_calls c)" "call_msg x = k" for x
    using that concurrent_reached_calls [OF c r] d by (auto simp: calls_inv_def call_real_def)
  have A: "finite A" "card A = count_list ?cs t" by (simp_all add: A_def count_list_eq_length_filter length_filter_conv_card eq_commute)
  have "calls_to env c i k e t = filter (\<lambda>x. \<exists>j \<in> A. ?at j x) (cs_calls c)"
    unfolding calls_to_def A_def by (rule filter_cong) (use real in auto)
  also have "length \<dots> \<le> (\<Sum>j \<in> A. length (filter (?at j) (cs_calls c)))" by (rule length_filter_bex [OF A(1)])
  also have "\<dots> \<le> (\<Sum>j \<in> A. 5)" by (rule sum_mono) (rule calls_per_target [OF c r])
  finally show ?thesis by (simp add: A(2))
qed

lemma thread_steps_inv:
  assumes "broker_contract (in_redeliver env)" and "(thread_step env)\<^sup>*\<^sup>* c c'" and "concurrent_inv env c"
  shows "concurrent_inv env c' \<and> cs_stream c' = cs_stream c"
  using work_steps [OF assms(1) _ assms(3)] assms(2) by (metis rtranclp_imp_relpowp)

lemma idle_given_up:
  assumes "broker_contract (in_redeliver env)" and "concurrent_inv env c" and "idle env c"
    and "selects env (cs_stream c) i k" and "status_at c i k = Given_up"
    and "wire_decode (msg_data (cs_stream c ! k)) \<noteq> None"
  shows "sl_attempts (cs_slots c i k) = 5"
  using idle_slot [OF assms(1-4)] assms(5,6) idle_outstanding [OF assms(3), of i k]
  by (auto simp: status_at_def slot_status_def split: if_splits)

text \<open>Steps only append to the stream, and the calls made are never forgotten.\<close>

lemma concurrent_step_stream: "concurrent_step env c c' \<Longrightarrow> \<exists>ms. cs_stream c' = cs_stream c @ ms"
  by (elim concurrent_step_elim thread_step_elim) (auto dest: bus_publish_grows)

lemma concurrent_steps_stream:
  assumes "(concurrent_step env)\<^sup>*\<^sup>* c c'"
  shows "\<exists>ms. cs_stream c' = cs_stream c @ ms"
  using assms
proof (induction rule: rtranclp_induct)
  case (step c1 c2)
  then show ?case using concurrent_step_stream [OF step(2)] by fastforce
qed simp

lemma delivered_well_calls:
  assumes "calls_inv env c" and "delivered_well env (cs_calls c) i k e"
    and "wire_decode (msg_data (cs_stream c ! k)) = Some e"
  shows "\<exists>n. \<forall>j < length (targets (in_registry env) (ev_type e)). Call i k n j None \<in> set (cs_calls c) \<and>
    (\<exists>s. fst (con_handle (targets (in_registry env) (ev_type e) ! j) e s) = Returned None)"
proof -
  obtain n where n: "\<forall>j < length (targets (in_registry env) (ev_type e)). Call i k n j None \<in> set (cs_calls c)"
    using assms(2) by (auto simp: delivered_well_def)
  have "\<exists>s. fst (con_handle (targets (in_registry env) (ev_type e) ! j) e s) = Returned None"
    if "j < length (targets (in_registry env) (ev_type e))" for j
  proof -
    have "call_real env (cs_stream c) (Call i k n j None :: 'b call)"
      using n that assms(1) unfolding calls_inv_def by blast
    then show ?thesis using assms(3) by (simp add: call_real_def safe_handle_None)
  qed
  with n show ?thesis by blast
qed

lemma concurrent_event_settled:
  assumes c: "broker_contract (in_redeliver env)" and nats: "nats_matching (in_matches env)"
    and subs: "in_subjects env = subjects_for_workflow workflow" and w: "wild_free workflow"
    and scope: "workflow = [] \<or> workflow_token e = workflow \<or> ev_type e = broadcast_type"
    and r: "concurrent_reached env c" and p: "bus_publish reply e (cs_stream c) = (None, ms)"
    and utf8: "valid_utf8 (ev_workflow e)"
    and steps: "(concurrent_step env)\<^sup>*\<^sup>* (c\<lparr>cs_stream := ms\<rparr>) c'" and rest: "idle env c'"
  shows "(\<exists>i. selects env (cs_stream c') i (length (cs_stream c))) \<and>
    (\<forall>i. selects env (cs_stream c') i (length (cs_stream c)) \<longrightarrow>
      (let cs = targets (in_registry env) (ev_type e) in
        (\<exists>n. \<forall>j < length cs. Call i (length (cs_stream c)) n j None \<in> set (cs_calls c') \<and>
          (\<exists>s. fst (con_handle (cs ! j) e s) = Returned None)) \<or>
        sl_attempts (cs_slots c' i (length (cs_stream c))) = 5))"
proof -
  let ?k = "length (cs_stream c)"
  obtain m where m: "ms = cs_stream c @ [m]" "subject_for e = Inr (msg_subject m)" and d: "wire_decode (msg_data m) = Some e"
    using published_message [OF p utf8] .
  have r': "concurrent_reached env c'"
    by (rule steps_concurrent_reached [OF steps concurrent_reached.step [OF r concurrent_step.publish [OF p]]])
  note inv = concurrent_reached_inv [OF c r'] and calls = concurrent_reached_calls [OF c r']
  obtain more where "cs_stream c' = ms @ more" using concurrent_steps_stream [OF steps] by auto
  then have k: "cs_stream c' ! ?k = m" "?k < length (cs_stream c')" by (simp_all add: m(1) nth_append)
  obtain j where "j < length (subjects_for_workflow workflow)" "in_matches env (subjects_for_workflow workflow ! j) (msg_subject m)"
    using scope_subscribed [OF nats m(2) w scope] .
  then have one: "\<exists>i. selects env (cs_stream c') i ?k" using k subs by (auto simp: selects_def)
  have dec: "wire_decode (msg_data (cs_stream c' ! ?k)) = Some e" by (simp add: k(1) d)
  have each: "delivered_well env (cs_calls c') i ?k e \<or> sl_attempts (cs_slots c' i ?k) = 5"
    if sel: "selects env (cs_stream c') i ?k" for i
  proof -
    have "Ack \<in> set (sl_decisions (cs_slots c' i ?k)) \<or> sl_attempts (cs_slots c' i ?k) = 5"
      using idle_slot [OF c inv rest sel] dec by simp
    then show ?thesis
      using concurrent_invD(2) [OF inv, of i ?k] sel dec by (auto simp: message_inv_def)
  qed
  show ?thesis
    using one each delivered_well_calls [OF calls _ dec] unfolding Let_def by blast
qed

section \<open>Properties\<close>

text \<open>
  C2: the running instance refines the inbox, call by call.  The dispatches of its subscriptions
  interleave between the calls of consumers, with publishes, outside changes and crashes, and
  copies of a message may queue while its callback still runs on an earlier one; every step is a step of the inbox, entries are only appended, and a message moves from open through
  at most five attempts to handled or given up, never back.  Handled is the status only of a
  message of the subscription that decodes, and of whose event one delivery called every
  consumer without an error.
\<close>

theorem interleaved_refines_inbox:
  assumes "broker_contract (in_redeliver env)" and "concurrent_reached env c" and "concurrent_step env c c'"
  shows "concurrent_inbox (started s) = \<lparr>log_entries = [], statuses = (\<lambda>_ _. Open 0)\<rparr> \<and>
    inbox_step (concurrent_inbox c) (concurrent_inbox c') \<and>
    prefix (log_entries (concurrent_inbox c)) (log_entries (concurrent_inbox c')) \<and>
    (\<forall>i k. statuses (concurrent_inbox c) i k \<le> statuses (concurrent_inbox c') i k) \<and>
    (\<forall>i k. statuses (concurrent_inbox c') i k = Handled \<longrightarrow> selects env (cs_stream c') i k \<and>
      (\<exists>e. wire_decode (msg_data (cs_stream c' ! k)) = Some e \<and> delivered_well env (cs_calls c') i k e))"
proof (intro conjI)
  have inv: "concurrent_inv env c" by (rule concurrent_reached_inv [OF assms(1,2)])
  show "concurrent_inbox (started s) = \<lparr>log_entries = [], statuses = (\<lambda>_ _. Open 0)\<rparr>"
    by (simp add: concurrent_inbox_def started_def fun_eq_iff status_at_def slot_status_def unused_def max_deliver_def outstanding_def)
  show s: "inbox_step (concurrent_inbox c) (concurrent_inbox c')" by (rule concurrent_refines [OF assms(1) inv assms(3)])
  show "prefix (log_entries (concurrent_inbox c)) (log_entries (concurrent_inbox c'))"
    and "\<forall>i k. statuses (concurrent_inbox c) i k \<le> statuses (concurrent_inbox c') i k"
    using inbox_step_progress [OF s] by blast+
  show "\<forall>i k. statuses (concurrent_inbox c') i k = Handled \<longrightarrow> selects env (cs_stream c') i k \<and>
      (\<exists>e. wire_decode (msg_data (cs_stream c' ! k)) = Some e \<and> delivered_well env (cs_calls c') i k e)"
    using status_handled [OF concurrent_inv_step [OF assms(1) inv assms(3)]] by (simp add: concurrent_inbox_def)
qed

lemma demo_mirrored:
  "\<exists>c. concurrent_reached demo_env c \<and> mirrors demo_handled c"
proof -
  obtain c0 where c0: "concurrent_reached demo_env c0" "mirrors demo_pending c0"
    using reached_mirrored [OF demo_pending_reached] by blast
  then obtain c where "(thread_step demo_env)\<^sup>*\<^sup>* c0 c" "mirrors demo_handled c"
    using delivery_mirrored [OF c0(2) demo_delivery] by blast
  then show ?thesis using steps_concurrent_reached [OF thread_steps_concurrent c0(1)] by blast
qed

lemma demo_handled_status: "statuses (inbox_of demo_handled) 0 0 = Handled"
  by (simp add: inbox_of_def demo_handled_def status_of_def)

lemma demo_stream: "sys_stream demo_handled = [demo_message]" "sys_stream demo_pending = [demo_message]"
  by (simp_all add: demo_handled_def demo_pending_def)

theorem interleaved_refines_inbox_witness:
  "\<exists>c. concurrent_reached demo_env c \<and> delivered_well demo_env (cs_calls c) 0 0 demo_event"
proof -
  obtain c where c: "concurrent_reached demo_env c" "mirrors demo_handled c" using demo_mirrored by blast
  let ?c = "c\<lparr>cs_app := 7\<rparr>"
  have "mirrors (demo_handled\<lparr>sys_app := 7\<rparr>) ?c" using c(2) by (simp add: mirrors_def)
  from mirrors_inbox [OF this] have h: "statuses (concurrent_inbox ?c) 0 0 = Handled"
    using demo_handled_status by (simp add: inbox_of_def)
  have "cs_stream ?c ! 0 = demo_message" using c(2) demo_stream(1) by (simp add: mirrors_def)
  then have "delivered_well demo_env (cs_calls ?c) 0 0 demo_event"
    using interleaved_refines_inbox [OF demo_contract c(1) concurrent_step.environment [of demo_env c 7]] h demo_decodes
    by (metis option.inject)
  then show ?thesis using c(1) by auto
qed

text \<open>
  C3: concurrent deliveries end, and they end settled.  From every state an instance can reach
  its threads come to rest after a bounded number of steps, which counts for each subscription
  and message five deliveries with their calls; at rest no thread is left in a dispatch, no copy is
  queued, and every message of every subscription is handled or given up, one that decodes only after five
  attempts.
\<close>

theorem interleaved_deliveries_complete:
  assumes "broker_contract (in_redeliver env)" and "concurrent_reached env c"
  shows "(\<exists>c'. (thread_step env)\<^sup>*\<^sup>* c c' \<and> idle env c') \<and>
    (\<forall>n c'. (thread_step env ^^ n) c c' \<longrightarrow>
      n \<le> 5 * (length (in_subjects env) * sum_list (map (steps_for env) (cs_stream c)))) \<and>
    (\<forall>c' i k. (thread_step env)\<^sup>*\<^sup>* c c' \<and> idle env c' \<longrightarrow> cs_threads c' i = None \<and> cs_queues c' i = [] \<and>
      (selects env (cs_stream c) i k \<longrightarrow> statuses (concurrent_inbox c') i k \<in> {Handled, Given_up} \<and>
        (statuses (concurrent_inbox c') i k = Given_up \<and> wire_decode (msg_data (cs_stream c ! k)) \<noteq> None \<longrightarrow>
          sl_attempts (cs_slots c' i k) = 5)))"
proof (intro conjI)
  have inv: "concurrent_inv env c" by (rule concurrent_reached_inv [OF assms])
  show "\<exists>c'. (thread_step env)\<^sup>*\<^sup>* c c' \<and> idle env c'" by (rule runs_stop [OF assms(1) inv])
  show "\<forall>n c'. (thread_step env ^^ n) c c' \<longrightarrow>
      n \<le> 5 * (length (in_subjects env) * sum_list (map (steps_for env) (cs_stream c)))"
    using work_steps [OF assms(1) _ inv] work_bound [OF inv] by (metis le_add1 order_trans)
  show "\<forall>c' i k. (thread_step env)\<^sup>*\<^sup>* c c' \<and> idle env c' \<longrightarrow> cs_threads c' i = None \<and> cs_queues c' i = [] \<and>
      (selects env (cs_stream c) i k \<longrightarrow> statuses (concurrent_inbox c') i k \<in> {Handled, Given_up} \<and>
        (statuses (concurrent_inbox c') i k = Given_up \<and> wire_decode (msg_data (cs_stream c ! k)) \<noteq> None \<longrightarrow>
          sl_attempts (cs_slots c' i k) = 5))"
  proof (intro allI impI, elim conjE)
    fix c' i k
    assume steps: "(thread_step env)\<^sup>*\<^sup>* c c'" and rest: "idle env c'"
    have i: "concurrent_inv env c'" "cs_stream c' = cs_stream c" using thread_steps_inv [OF assms(1) steps inv] by simp_all
    show "cs_threads c' i = None \<and> cs_queues c' i = [] \<and>
      (selects env (cs_stream c) i k \<longrightarrow> statuses (concurrent_inbox c') i k \<in> {Handled, Given_up} \<and>
        (statuses (concurrent_inbox c') i k = Given_up \<and> wire_decode (msg_data (cs_stream c ! k)) \<noteq> None \<longrightarrow>
          sl_attempts (cs_slots c' i k) = 5))"
      using idle_free [OF rest, of i] idle_queue [OF rest, of i] idle_status [OF assms(1) i(1) rest, of i k]
        idle_given_up [OF assms(1) i(1) rest, of i k] i(2)
      by (simp add: concurrent_inbox_def)
  qed
qed

theorem interleaved_deliveries_complete_witness:
  "\<exists>c c'. concurrent_reached demo_env c \<and> (thread_step demo_env)\<^sup>*\<^sup>* c c' \<and> idle demo_env c' \<and>
     cs_stream c' = [demo_message] \<and> statuses (concurrent_inbox c') 0 0 \<in> {Handled, Given_up}"
proof -
  obtain c where c: "concurrent_reached demo_env c" "mirrors demo_pending c"
    using reached_mirrored [OF demo_pending_reached] by blast
  then have st: "cs_stream c = [demo_message]" by (simp add: mirrors_def demo_stream(2))
  then have sel: "selects demo_env (cs_stream c) 0 0"
    using demo_matches by (simp add: selects_def demo_message_def)
  from interleaved_deliveries_complete [OF demo_contract c(1)]
  obtain c' where s: "(thread_step demo_env)\<^sup>*\<^sup>* c c'" "idle demo_env c'"
    and "statuses (concurrent_inbox c') 0 0 \<in> {Handled, Given_up}"
    using sel by metis
  moreover have "cs_stream c' = [demo_message]"
    using thread_steps_inv [OF demo_contract s(1) concurrent_reached_inv [OF demo_contract c(1)]] st by simp
  ultimately show ?thesis using c(1) by blast
qed

text \<open>
  C4: no consumer is called more than the redelivery bound allows, in any interleaving, with any
  crashes, and however many copies of a message are under way at once.  Every call of a consumer is
  one for a message of the subscription, which decodes to an event that names the consumer as a
  target, with the result the consumer's handler gave.  For each subscription and message each
  registration of a consumer is called at most five times and in a delivery at most once, so a
  consumer that is registered once for the event is called at most five times, and one that is
  registered \<^verbatim>\<open>m\<close> times (by listing the type \<^verbatim>\<open>m\<close> times) at most \<^verbatim>\<open>5 m\<close> times.
\<close>

theorem handler_calls_bounded:
  assumes "broker_contract (in_redeliver env)" and "concurrent_reached env c"
  shows "distinct (map call_key (cs_calls c)) \<and>
    (\<forall>x \<in> set (cs_calls c). call_real env (cs_stream c) x \<and> 0 < call_number x \<and>
      call_number x \<le> sl_attempts (cs_slots c (call_sub x) (call_msg x))) \<and>
    (\<forall>i k j. length (filter (\<lambda>x. call_sub x = i \<and> call_msg x = k \<and> call_target x = j) (cs_calls c)) \<le> 5) \<and>
    (\<forall>i k e t. wire_decode (msg_data (cs_stream c ! k)) = Some e \<longrightarrow>
      length (calls_to env c i k e t) \<le> 5 * count_list (targets (in_registry env) (ev_type e)) t)"
  using concurrent_reached_calls [OF assms] calls_per_target [OF assms] calls_per_consumer [OF assms]
  by (simp add: calls_inv_def call_dated_def)

theorem handler_calls_bounded_witness:
  "\<exists>c. concurrent_reached demo_env c \<and> cs_calls c \<noteq> [] \<and> call_real demo_env [demo_message] (hd (cs_calls c)) \<and>
     (\<exists>t. length (calls_to demo_env c 0 0 demo_event t) \<in> {1..5})"
proof -
  obtain c where c: "concurrent_reached demo_env c" "mirrors demo_handled c" using demo_mirrored by blast
  have st: "cs_stream c = [demo_message]" using c(2) by (simp add: mirrors_def demo_stream(1))
  have "statuses (concurrent_inbox c) 0 0 = Handled"
    using demo_handled_status by (simp add: mirrors_inbox [OF c(2)])
  then have "status_at c 0 0 = Handled" by (simp add: concurrent_inbox_def)
  then have "delivered_well demo_env (cs_calls c) 0 0 demo_event"
    using status_handled [OF concurrent_reached_inv [OF demo_contract c(1)], of 0 0] st demo_decodes by simp
  moreover obtain t where t: "targets (in_registry demo_env) (ev_type demo_event) = [t]"
    by (simp add: demo_env_def demo_event_def targets_def register_def new_registry_def broadcast_type_def)
  ultimately obtain n where x: "Call 0 0 n 0 None \<in> set (cs_calls c)" by (auto simp: delivered_well_def)
  then have "Call 0 0 n 0 None \<in> set (calls_to demo_env c 0 0 demo_event t)" by (simp add: calls_to_def t)
  then have "0 < length (calls_to demo_env c 0 0 demo_event t)" by (rule length_pos_if_in_set)
  moreover have "cs_calls c \<noteq> []" using x by auto
  moreover have "length (calls_to demo_env c 0 0 demo_event t) \<le> 5"
  proof -
    have "wire_decode (msg_data (cs_stream c ! 0)) = Some demo_event" by (simp add: st demo_decodes)
    with handler_calls_bounded [OF demo_contract c(1)]
    have "length (calls_to demo_env c 0 0 demo_event t) \<le> 5 * count_list (targets (in_registry demo_env) (ev_type demo_event)) t"
      by blast
    then show ?thesis by (simp add: t)
  qed
  moreover have "call_real demo_env [demo_message] (hd (cs_calls c))"
    using concurrent_reached_calls [OF demo_contract c(1)] hd_in_set [OF \<open>cs_calls c \<noteq> []\<close>] st by (simp add: calls_inv_def)
  ultimately show ?thesis using c(1) by (intro exI [of _ c] conjI exI [of _ t]) (simp_all add: Suc_le_eq)
qed

text \<open>
  C7: a delivery with its dispatch as one step is a run of one thread.  Whatever a system reaches
  in which dispatches do not overlap, the concurrent instance reaches, with no thread running and
  the same inbox; and from there each whole delivery, its settlement as \<^term>\<open>on_message\<close> decides
  it after \<^term>\<open>dispatch\<close>, is a run of steps of the threads: the start, the calls one by one,
  the end.
\<close>

theorem whole_deliveries_are_runs:
  assumes "system_reached env \<sigma>"
  shows "\<exists>c. concurrent_reached env c \<and> mirrors \<sigma> c \<and> concurrent_inbox c = inbox_of \<sigma> \<and>
    (\<forall>\<sigma>'. delivery_step env \<sigma> \<sigma>' \<longrightarrow> (\<exists>c'. (thread_step env)\<^sup>*\<^sup>* c c' \<and> mirrors \<sigma>' c'))"
  using reached_mirrored [OF assms] mirrors_inbox delivery_mirrored by blast

theorem whole_deliveries_are_runs_witness:
  "\<exists>c c'. (thread_step demo_env)\<^sup>*\<^sup>* c c' \<and> mirrors demo_pending c \<and> mirrors demo_handled c'"
  using whole_deliveries_are_runs [OF demo_pending_reached] demo_delivery by blast

end
