(* ===== verification/Replay.thy ===== *)
theory Replay
  imports Bus
begin

text \<open>
  \<^verbatim>\<open>JetStreamBus.Replay\<close> of \<^verbatim>\<open>internal/bus/bus.go\<close>: reading the stream back up to its
  last sequence number at call time.  The loop has no bound of its own (it stops on what the
  broker and the context answer), so it is a partial function: \<^term>\<open>None\<close> is a replay that
  never returns.  The broker and the context are an argument, one answer per iteration.
\<close>

datatype next_msg =
    Next_timeout
  | Next_error
  | Next_msg (next_data: bytes) (next_seq: "nat option")

datatype 'err replay_error =
    Replay_no_subject | Replay_info | Replay_subscribe | Replay_cancelled | Replay_next
  | Replay_handler 'err

type_synonym replay_feed = "nat \<Rightarrow> bool \<times> next_msg"

text \<open>One message: an undecodable one is skipped with a log line.\<close>

definition replay_handle :: "('s, 'err) handler \<Rightarrow> bytes \<Rightarrow> 's \<Rightarrow> 'err option \<times> 's" where
  "replay_handle handle data s =
     (case wire_decode data of None \<Rightarrow> (None, s) | Some e \<Rightarrow> handle e s)"

definition at_boundary :: "nat \<Rightarrow> nat option \<Rightarrow> bool" where
  "at_boundary last_seq seq = (case seq of Some n \<Rightarrow> n \<ge> last_seq | None \<Rightarrow> False)"

partial_function (option) replay_loop ::
  "replay_feed \<Rightarrow> ('s, 'err) handler \<Rightarrow> nat \<Rightarrow> nat \<Rightarrow> 's \<Rightarrow> ('err replay_error option \<times> 's) option" where
  "replay_loop feed handle last_seq i s =
     (if fst (feed i) then Some (Some Replay_cancelled, s)
      else case snd (feed i) of
        Next_timeout \<Rightarrow> Some (None, s)
      | Next_error \<Rightarrow> Some (Some Replay_next, s)
      | Next_msg data seq \<Rightarrow>
          (case replay_handle handle data s of
             (Some err, s') \<Rightarrow> Some (Some (Replay_handler err), s')
           | (None, s') \<Rightarrow>
               if at_boundary last_seq seq then Some (None, s')
               else replay_loop feed handle last_seq (Suc i) s'))"

text \<open>
  The whole operation: the subscription it asks for (ephemeral, without acknowledgements),
  whether it ends by removing it, and the result.  \<^verbatim>\<open>info\<close> is the last sequence number the
  stream reports, \<^verbatim>\<open>since\<close> the start time (none for the zero time).
\<close>

definition bus_replay ::
  "nat option \<Rightarrow> bool \<Rightarrow> replay_feed \<Rightarrow> string \<Rightarrow> int option \<Rightarrow> ('s, 'err) handler \<Rightarrow> 's \<Rightarrow>
   ((string \<times> sub_opt list) option \<times> bool \<times> 'err replay_error option \<times> 's) option" where
  "bus_replay info subscribe_ok feed subject since handle s =
     (if subject = [] then Some (None, False, Some Replay_no_subject, s)
      else case info of
        None \<Rightarrow> Some (None, False, Some Replay_info, s)
      | Some last_seq \<Rightarrow>
          if last_seq = 0 then Some (None, False, None, s)
          else
            let opts = [Ack_none, case since of None \<Rightarrow> Deliver_all | Some t \<Rightarrow> Start_time t] in
            if \<not> subscribe_ok then Some (Some (subject, opts), False, Some Replay_subscribe, s)
            else map_option (\<lambda>(err, s'). (Some (subject, opts), True, err, s'))
              (replay_loop feed handle last_seq 0 s))"

section \<open>Termination\<close>

text \<open>
  What JetStream documents of an ordered read: every message has its stream sequence number
  and the numbers grow.
\<close>

definition stream_ordered :: "replay_feed \<Rightarrow> bool" where
  "stream_ordered feed \<longleftrightarrow>
     (\<forall>i data seq. snd (feed i) = Next_msg data seq \<longrightarrow>
        (\<exists>n. seq = Some n \<and> (\<forall>j < i. \<forall>d m. snd (feed j) = Next_msg d (Some m) \<longrightarrow> m < n)))"

definition is_msg :: "next_msg \<Rightarrow> bool" where
  "is_msg m = (case m of Next_msg _ _ \<Rightarrow> True | _ \<Rightarrow> False)"

lemma ordered_seq_ge:
  assumes "stream_ordered feed" and "\<forall>j \<le> i. is_msg (snd (feed j))"
  shows "\<exists>n. next_seq (snd (feed i)) = Some n \<and> i \<le> n"
  using assms(2)
proof (induction i)
  case 0
  then obtain data seq where "snd (feed 0) = Next_msg data seq"
    by (auto simp: is_msg_def split: next_msg.splits)
  then show ?case using assms(1) unfolding stream_ordered_def by fastforce
next
  case (Suc i)
  then obtain m where m: "next_seq (snd (feed i)) = Some m" "i \<le> m" by fastforce
  have "is_msg (snd (feed i))" "is_msg (snd (feed (Suc i)))" using Suc.prems by simp_all
  then obtain d data seq where d: "snd (feed i) = Next_msg d (Some m)"
    and s: "snd (feed (Suc i)) = Next_msg data seq"
    using m(1) by (auto simp: is_msg_def split: next_msg.splits)
  then obtain n where "seq = Some n" "m < n"
    using assms(1) d unfolding stream_ordered_def by (metis lessI)
  with s m(2) show ?case by simp
qed

lemma replay_loop_returns:
  assumes "stream_ordered feed" and "\<forall>j < i. is_msg (snd (feed j))"
  shows "\<exists>r. replay_loop feed handle last_seq i s = Some r"
  using assms(2)
proof (induction "Suc last_seq - i" arbitrary: i s rule: less_induct)
  case less
  show ?case
  proof (cases "snd (feed i)")
    case (Next_msg data seq)
    then have all: "\<forall>j \<le> i. is_msg (snd (feed j))"
      using less.prems by (auto simp: is_msg_def le_less)
    then obtain n where n: "seq = Some n" "i \<le> n"
      using ordered_seq_ge [OF assms(1) all] Next_msg by auto
    show ?thesis
    proof (cases "last_seq \<le> i")
      case True
      then have "at_boundary last_seq seq" using n by (simp add: at_boundary_def)
      then show ?thesis
        using Next_msg by (subst replay_loop.simps) (auto split: prod.splits option.splits)
    next
      case False
      then have "\<exists>r. replay_loop feed handle last_seq (Suc i) s' = Some r" for s'
        using all by (intro less.hyps) (auto simp: less_Suc_eq_le)
      then show ?thesis
        using Next_msg by (subst replay_loop.simps) (auto split: prod.splits option.splits)
    qed
  qed (subst replay_loop.simps, simp)+
qed

section \<open>What is handled\<close>

text \<open>A finite history read without cancellation: the messages, then a timeout.\<close>

definition history_feed :: "(nat \<times> bytes) list \<Rightarrow> replay_feed" where
  "history_feed ms i =
     (False, if i < length ms then Next_msg (snd (ms ! i)) (Some (fst (ms ! i))) else Next_timeout)"

definition handle_all :: "(event \<Rightarrow> 's \<Rightarrow> 's) \<Rightarrow> bytes list \<Rightarrow> 's \<Rightarrow> 's" where
  "handle_all f ds s =
     fold (\<lambda>d s. case wire_decode d of None \<Rightarrow> s | Some e \<Rightarrow> f e s) ds s"

definition up_to :: "nat \<Rightarrow> (nat \<times> bytes) list \<Rightarrow> (nat \<times> bytes) list" where
  "up_to last_seq ms =
     takeWhile (\<lambda>m. fst m < last_seq) ms @ take 1 (dropWhile (\<lambda>m. fst m < last_seq) ms)"

lemma replay_loop_history:
  "replay_loop (history_feed ms) (\<lambda>e s. (None :: 'err option, f e s)) last_seq i s =
     Some (None, handle_all f (map snd (up_to last_seq (drop i ms))) s)"
proof (induction "length ms - i" arbitrary: i s)
  case 0
  then have "drop i ms = []" by simp
  then show ?case
    using 0 by (subst replay_loop.simps) (simp add: history_feed_def up_to_def handle_all_def)
next
  case (Suc n)
  then have i: "i < length ms" "n = length ms - Suc i" by simp_all
  then have d: "drop i ms = ms ! i # drop (Suc i) ms" by (simp add: Cons_nth_drop_Suc)
  define s' where "s' = (case wire_decode (snd (ms ! i)) of None \<Rightarrow> s | Some e \<Rightarrow> f e s)"
  have h: "replay_handle (\<lambda>e s. (None :: 'err option, f e s)) (snd (ms ! i)) s = (None, s')"
    by (simp add: replay_handle_def s'_def split: option.splits)
  show ?case
  proof (cases "fst (ms ! i) < last_seq")
    case True
    then have "handle_all f (map snd (up_to last_seq (drop i ms))) s =
        handle_all f (map snd (up_to last_seq (drop (Suc i) ms))) s'"
      by (simp add: d up_to_def handle_all_def s'_def)
    then show ?thesis
      using True i h Suc.hyps(1) [of "Suc i"]
      by (subst replay_loop.simps) (simp add: history_feed_def at_boundary_def)
  next
    case False
    then show ?thesis
      using i h
      by (subst replay_loop.simps)
        (simp add: history_feed_def at_boundary_def d up_to_def handle_all_def s'_def)
  qed
qed

lemma up_to_exact:
  assumes "sorted_wrt (<) (map fst ms)" and "last_seq \<in> set (map fst ms)"
  shows "up_to last_seq ms = filter (\<lambda>m. fst m \<le> last_seq) ms"
  using assms
proof (induction ms)
  case (Cons m ms)
  show ?case
  proof (cases "fst m < last_seq")
    case True
    then show ?thesis using Cons by (auto simp: up_to_def)
  next
    case False
    then have "fst m = last_seq" using Cons.prems by auto
    moreover have "filter (\<lambda>x. fst x \<le> last_seq) ms = []"
      using Cons.prems calculation by (auto simp: filter_empty_conv)
    ultimately show ?thesis by (simp add: up_to_def)
  qed
qed simp

lemma up_to_missing:
  assumes "sorted_wrt (<) (map fst ms)" and "last_seq \<notin> set (map fst ms)"
  shows "up_to last_seq ms = filter (\<lambda>m. fst m \<le> last_seq) ms @ take 1 (filter (\<lambda>m. last_seq < fst m) ms)"
  using assms
proof (induction ms)
  case (Cons m ms)
  show ?case
  proof (cases "fst m < last_seq")
    case True
    then show ?thesis using Cons by (simp add: up_to_def)
  next
    case False
    then have m: "last_seq < fst m" using Cons.prems by auto
    then have "filter (\<lambda>x. fst x \<le> last_seq) ms = []"
      using Cons.prems by (force simp: filter_empty_conv)
    then show ?thesis using m by (simp add: up_to_def)
  qed
qed (simp add: up_to_def)

text \<open>
  The history of a stream from which nothing was deleted: the message at position \<^verbatim>\<open>k\<close> has the
  sequence number \<^verbatim>\<open>k + 1\<close>, and a subject filter selects by the message's subject.
\<close>

definition selected :: "(string \<Rightarrow> string \<Rightarrow> bool) \<Rightarrow> string \<Rightarrow> message list \<Rightarrow> (nat \<times> bytes) list" where
  "selected matches subject ms =
     map (\<lambda>(k, m). (Suc k, msg_data m)) (filter (\<lambda>(k, m). matches subject (msg_subject m)) (enumerate 0 ms))"

definition publish_all :: "event list \<Rightarrow> message list \<Rightarrow> message list" where
  "publish_all es ms = fold (\<lambda>e ms. snd (bus_publish Pub_acked e ms)) es ms"

lemma filter_enumerate: "map snd (filter (\<lambda>(k, x). P x) (enumerate n xs)) = filter P xs"
  by (induction xs arbitrary: n) auto

lemma selected_data: "map snd (selected matches subject ms) = map msg_data (filter (\<lambda>m. matches subject (msg_subject m)) ms)"
proof -
  have "map snd (selected matches subject ms) =
      map msg_data (map snd (filter (\<lambda>(k, m). matches subject (msg_subject m)) (enumerate 0 ms)))"
    by (simp add: selected_def comp_def case_prod_beta)
  then show ?thesis by (simp only: filter_enumerate)
qed

lemma up_to_all:
  assumes "\<forall>m \<in> set ms. fst m \<le> last_seq" and "sorted_wrt (<) (map fst ms)"
  shows "up_to last_seq ms = ms"
proof -
  have "filter (\<lambda>m. fst m \<le> last_seq) ms = ms" "filter (\<lambda>m. last_seq < fst m) ms = []"
    using assms(1) by (auto simp: filter_id_conv filter_empty_conv)
  then show ?thesis using up_to_exact [OF assms(2)] up_to_missing [OF assms(2), of last_seq] by fastforce
qed

lemma selected_in_order:
  "\<forall>m \<in> set (selected matches subject ms). fst m \<le> length ms"
  "sorted_wrt (<) (map fst (selected matches subject ms))"
proof -
  show "\<forall>m \<in> set (selected matches subject ms). fst m \<le> length ms"
    by (auto simp: selected_def in_set_enumerate_eq)
  have "sorted_wrt (\<lambda>x y. fst x < fst y) (enumerate 0 ms)"
    using sorted_wrt_map [of "(<)" fst "enumerate 0 ms"] by simp
  then show "sorted_wrt (<) (map fst (selected matches subject ms))"
    by (simp add: selected_def sorted_wrt_map case_prod_beta sorted_wrt_filter)
qed

lemma replay_stream:
  assumes "subject \<noteq> []"
  shows "\<exists>req unsub. bus_replay (Some (length ms)) True (history_feed (selected matches subject ms)) subject since
      (\<lambda>e s. (None :: 'err option, f e s)) s =
    Some (req, unsub, None, fold f (stream_events (filter (\<lambda>m. matches subject (msg_subject m)) ms)) s)"
proof -
  have fold_events: "handle_all f (map msg_data ms) s = fold f (stream_events ms) s" for ms :: "message list" and s
    by (induction ms arbitrary: s) (auto simp: handle_all_def split: option.splits)
  show ?thesis
  proof (cases "ms = []")
    case False
    then show ?thesis
      using assms replay_loop_history [where ms = "selected matches subject ms" and f = f and i = 0 and s = s and last_seq = "length ms"]
      by (simp add: bus_replay_def Let_def up_to_all [OF selected_in_order] selected_data fold_events) blast
  next
    case True
    then show ?thesis by (intro exI [of _ None] exI [of _ False]) (simp add: bus_replay_def assms)
  qed
qed

lemma publish_all_messages:
  assumes "list_all (\<lambda>e. valid_utf8 (ev_workflow e) \<and> (\<exists>s. subject_for e = Inr s)) es"
  shows "\<exists>ns. publish_all es ms = ms @ ns \<and>
    list_all2 (\<lambda>e m. subject_for e = Inr (msg_subject m) \<and> wire_decode (msg_data m) = Some e) es ns"
  using assms
proof (induction es arbitrary: ms)
  case (Cons e es)
  then obtain s where s: "subject_for e = Inr s" by auto
  have "bus_publish Pub_acked e ms = (None, snd (bus_publish Pub_acked e ms))" by (simp add: bus_publish_def s)
  from published_message [OF this] Cons.prems obtain m where
    m: "snd (bus_publish Pub_acked e ms) = ms @ [m]" "subject_for e = Inr (msg_subject m)" "wire_decode (msg_data m) = Some e"
    by auto
  obtain ns where "publish_all es (ms @ [m]) = (ms @ [m]) @ ns"
    "list_all2 (\<lambda>e m. subject_for e = Inr (msg_subject m) \<and> wire_decode (msg_data m) = Some e) es ns"
    using Cons by fastforce
  then show ?case using m by (intro exI [of _ "m # ns"]) (simp add: publish_all_def)
qed (simp add: publish_all_def)

lemma stream_events_filter:
  assumes "list_all2 (\<lambda>e m. subject_for e = Inr (msg_subject m) \<and> wire_decode (msg_data m) = Some e) es ms"
    and "\<And>e s. e \<in> set es \<Longrightarrow> subject_for e = Inr s \<Longrightarrow> P s = Q e"
  shows "stream_events (filter (\<lambda>m. P (msg_subject m)) ms) = filter Q es"
  using assms by (induction rule: list_all2_induct) auto

text \<open>
  A read that the broker does not answer within the two seconds of \<^verbatim>\<open>NextMsg\<close> ends the replay
  with success, before the snapshot's last message: a slow broker cuts the history short, and the
  caller cannot tell.
\<close>

lemma replay_timeout_truncates:
  "bus_replay (Some 5) True (\<lambda>_. (False, Next_timeout)) ''bw.evt.>'' None handle s =
     Some (Some (''bw.evt.>'', [Ack_none, Deliver_all]), True, None, s)"
  by (simp add: bus_replay_def) (subst replay_loop.simps, simp)

section \<open>Properties\<close>

text \<open>
  C17: a replay returns.  On a stream whose messages come in sequence order it ends after at
  most as many messages as the snapshot's last sequence number, whatever the handler, the
  timeouts and the cancellation do; and the subscription it makes is ephemeral and unacknowledged,
  so no durable cursor moves, and is removed again.
\<close>

theorem replay_returns:
  assumes "stream_ordered feed"
  shows "\<exists>req unsub err s'. bus_replay info subscribe_ok feed subject since handle s = Some (req, unsub, err, s') \<and>
    (case req of None \<Rightarrow> \<not> unsub
     | Some (subj, opts) \<Rightarrow> subj = subject \<and> unsub = subscribe_ok \<and> Ack_none \<in> set opts \<and>
         (\<forall>d. Durable d \<notin> set opts))"
proof (cases info)
  case (Some last_seq)
  obtain err s' where "replay_loop feed handle last_seq 0 s = Some (err, s')"
    using replay_loop_returns [OF assms, of 0 handle last_seq s] by auto
  then show ?thesis
    using Some by (cases since) (auto simp: bus_replay_def Let_def)
qed (auto simp: bus_replay_def)

theorem replay_returns_witness:
  "\<exists>r. bus_replay (Some 3) True (history_feed [(2, ''{}''), (5, ''x'')]) ''bw.evt.>'' None
     (\<lambda>e n. (None :: unit option, Suc n)) 0 = Some r"
proof -
  have "stream_ordered (history_feed [(2, ''{}''), (5, ''x'')])"
    by (auto simp: stream_ordered_def history_feed_def less_Suc_eq nth_Cons' split: if_splits)
  from replay_returns [OF this] show ?thesis by meson
qed

text \<open>
  C18: a replay of a stored history hands the handler the decodable messages in stream order,
  each once.  They are the messages up to the snapshot's last sequence number when that
  message is among those the subject selects; when it is not, one message published after the
  snapshot is handled too, although the operation is documented to stop at the snapshot.
\<close>

theorem replay_reads_history:
  assumes "sorted_wrt (<) (map fst ms)" and "subject \<noteq> []" and "last_seq \<noteq> 0"
  shows "\<exists>read. bus_replay (Some last_seq) True (history_feed ms) subject since (\<lambda>e s. (None :: 'err option, f e s)) s =
      Some (Some (subject, [Ack_none, case since of None \<Rightarrow> Deliver_all | Some t \<Rightarrow> Start_time t]), True,
        None, handle_all f (map snd read) s) \<and>
    read = filter (\<lambda>m. fst m \<le> last_seq) ms @
      (if last_seq \<in> set (map fst ms) then [] else take 1 (filter (\<lambda>m. last_seq < fst m) ms))"
proof (intro exI conjI)
  show "bus_replay (Some last_seq) True (history_feed ms) subject since (\<lambda>e s. (None :: 'err option, f e s)) s =
      Some (Some (subject, [Ack_none, case since of None \<Rightarrow> Deliver_all | Some t \<Rightarrow> Start_time t]), True,
        None, handle_all f (map snd (up_to last_seq ms)) s)"
    using assms(2,3) replay_loop_history [of ms f last_seq 0 s] by (simp add: bus_replay_def Let_def)
  show "up_to last_seq ms = filter (\<lambda>m. fst m \<le> last_seq) ms @
      (if last_seq \<in> set (map fst ms) then [] else take 1 (filter (\<lambda>m. last_seq < fst m) ms))"
    using up_to_exact [OF assms(1), of last_seq] up_to_missing [OF assms(1), of last_seq] by simp
qed

theorem replay_reads_history_witness:
  "\<exists>r. bus_replay (Some 3) True (history_feed [(2, ''{}''), (5, ''null'')]) ''bw.evt.a.>'' None
     (\<lambda>e n. (None :: unit option, Suc n)) 0 = Some r \<and> snd (snd (snd r)) = 2"
proof -
  have "sorted_wrt (<) (map fst [(2 :: nat, ''{}''), (5, ''null'')])" by simp
  note ex = replay_reads_history [where ?'err = unit, OF this, of "''bw.evt.a.>''" 3 None "\<lambda>e n. Suc n" 0]
  have "wire_decode ''{}'' = Some zero_event" "wire_decode ''null'' = Some zero_event"
    by code_simp+
  with ex show ?thesis by (auto simp: handle_all_def numeral_2_eq_2)
qed

end
