(* ===== verification/Flags.thy ===== *)
theory Flags
  imports Prelude
begin

text \<open>
  Command-line flags as Go's package \<^verbatim>\<open>flag\<close> parses them: \<^verbatim>\<open>-name\<close> or \<^verbatim>\<open>--name\<close>,
  with the value after an equals sign or, unless the flag is a boolean, in the next argument.
  Parsing goes from left to right, a later flag replaces an earlier one, and it stops at the
  first argument that is not a flag or after \<^verbatim>\<open>--\<close>.
\<close>

datatype flag_kind = Bool_flag | Value_flag

datatype flag_error =
    Bad_syntax string | Not_defined string | Help_requested | Needs_argument string
  | Invalid_value string string

text \<open>The name and the value after the first equals sign, which is not the first character.\<close>

definition split_value :: "string \<Rightarrow> string \<times> string option" where
  "split_value s =
     (case takeWhile (\<lambda>c. c \<noteq> CHR ''='') (tl s) of rest \<Rightarrow>
        let name = take 1 s @ rest in
        (name, if length name < length s then Some (drop (Suc (length name)) s) else None))"

definition is_flag :: "string \<Rightarrow> bool" where
  "is_flag s = (2 \<le> length s \<and> hd s = CHR ''-'')"

definition flag_body :: "string \<Rightarrow> string" where
  "flag_body s = (if take 2 s = ''--'' then drop 2 s else drop 1 s)"

definition bad_syntax :: "string \<Rightarrow> bool" where
  "bad_syntax body = (body = [] \<or> hd body = CHR ''-'' \<or> hd body = CHR ''='')"

text \<open>
  A flag set is the kind of each of its flags and what setting one does to the record of values
  (nothing, when the text is no value of the flag's type).
\<close>

fun parse_flags ::
  "(string \<Rightarrow> flag_kind option) \<Rightarrow> (string \<Rightarrow> string \<Rightarrow> 'r \<Rightarrow> 'r option) \<Rightarrow> string list \<Rightarrow> 'r \<Rightarrow>
   flag_error + 'r \<times> string list" where
  "parse_flags kind set_flag [] r = Inr (r, [])"
| "parse_flags kind set_flag (s # args) r =
     (if \<not> is_flag s then Inr (r, s # args)
      else if s = ''--'' then Inr (r, args)
      else if bad_syntax (flag_body s) then Inl (Bad_syntax s)
      else case split_value (flag_body s) of (name, value) \<Rightarrow>
        (case kind name of
           None \<Rightarrow>
             if name = ''help'' \<or> name = ''h'' then Inl Help_requested else Inl (Not_defined name)
         | Some Bool_flag \<Rightarrow>
             let v = (case value of Some v \<Rightarrow> v | None \<Rightarrow> ''true'') in
             (case set_flag name v r of
                None \<Rightarrow> Inl (Invalid_value name v)
              | Some r' \<Rightarrow> parse_flags kind set_flag args r')
         | Some Value_flag \<Rightarrow>
             (case value of
                Some v \<Rightarrow>
                  (case set_flag name v r of
                     None \<Rightarrow> Inl (Invalid_value name v)
                   | Some r' \<Rightarrow> parse_flags kind set_flag args r')
              | None \<Rightarrow>
                  (case args of
                     [] \<Rightarrow> Inl (Needs_argument name)
                   | v # args' \<Rightarrow>
                       (case set_flag name v r of
                          None \<Rightarrow> Inl (Invalid_value name v)
                        | Some r' \<Rightarrow> parse_flags kind set_flag args' r')))))"

declare parse_flags.simps(2) [simp del]

text \<open>\<^verbatim>\<open>strconv.ParseBool\<close>.\<close>

definition parse_bool :: "string \<Rightarrow> bool option" where
  "parse_bool s =
     (if s \<in> {''1'', ''t'', ''T'', ''true'', ''TRUE'', ''True''} then Some True
      else if s \<in> {''0'', ''f'', ''F'', ''false'', ''FALSE'', ''False''} then Some False
      else None)"

section \<open>What parsing leaves\<close>

text \<open>The remaining arguments are a suffix of the given ones.\<close>

lemma parse_flags_Cons:
  assumes "parse_flags kind set_flag (s # args) r = Inr (r', rest)"
  shows "(\<not> is_flag s \<and> r' = r \<and> rest = s # args) \<or> (s = ''--'' \<and> r' = r \<and> rest = args) \<or>
    (\<exists>n v r1 args'. is_flag s \<and> s \<noteq> ''--'' \<and> fst (split_value (flag_body s)) = n \<and> set_flag n v r = Some r1 \<and>
       parse_flags kind set_flag args' r1 = Inr (r', rest) \<and> (args' = args \<or> (\<exists>x. args = x # args')))"
  using assms
  by (auto simp: parse_flags.simps(2) Let_def split: if_splits option.splits flag_kind.splits prod.splits list.splits)

lemma parse_flags_induct:
  assumes p: "parse_flags kind set_flag args r = Inr (r', rest)"
    and stop: "\<And>args r. (args = [] \<or> \<not> is_flag (hd args)) \<Longrightarrow> rest = args \<Longrightarrow> r' = r \<Longrightarrow> P args r"
    and dash: "\<And>args r. rest = args \<Longrightarrow> r' = r \<Longrightarrow> P (''--'' # args) r"
    and step: "\<And>s args' front r v r1. is_flag s \<Longrightarrow> set_flag (fst (split_value (flag_body s))) v r = Some r1 \<Longrightarrow>
      length front \<le> 1 \<Longrightarrow> P args' r1 \<Longrightarrow> P (s # front @ args') r"
  shows "P args r"
  using p
proof (induction args arbitrary: r rule: length_induct)
  case (1 args)
  show ?case
  proof (cases args)
    case Nil
    then show ?thesis using 1 by (auto intro!: stop)
  next
    case (Cons s as)
    note c = parse_flags_Cons [OF "1.prems" [unfolded Cons]]
    show ?thesis
    proof (cases "\<not> is_flag s \<or> s = ''--''")
      case True
      then show ?thesis using c Cons stop [of args r] dash [of as r] by (auto simp: is_flag_def)
    next
      case False
      then obtain v r1 args' where a: "set_flag (fst (split_value (flag_body s))) v r = Some r1"
        "parse_flags kind set_flag args' r1 = Inr (r', rest)" "args' = as \<or> (\<exists>x. as = x # args')"
        using c by auto
      then obtain front where f: "as = front @ args'" "length front \<le> 1"
        by (metis One_nat_def append_Cons append_Nil le_numeral_extra(4) length_Cons list.size(3) zero_le_one)
      then have "P args' r1" using "1.IH" a(2) Cons by simp
      from step [OF _ a(1) f(2) this] show ?thesis using False Cons f(1) by simp
    qed
  qed
qed

lemma parse_flags_suffix:
  assumes "parse_flags kind set_flag args r = Inr (r', rest)"
  shows "suffix rest args"
  using assms
  by (rule parse_flags_induct) (auto intro: suffix_ConsI suffix_appendI)

lemma parse_flags_stop: "\<not> is_flag s \<Longrightarrow> parse_flags kind set_flag (s # args) r = Inr (r, s # args)"
  by (simp add: parse_flags.simps(2))

section \<open>Writing flags\<close>

definition long_flag :: "string \<Rightarrow> string" where
  "long_flag name = ''--'' @ name"

definition plain_name :: "string \<Rightarrow> bool" where
  "plain_name name = (name \<noteq> [] \<and> CHR ''='' \<notin> set name \<and> hd name \<noteq> CHR ''-'')"

lemma split_value_plain: "CHR ''='' \<notin> set name \<Longrightarrow> split_value name = (name, None)"
proof (cases name)
  case (Cons c cs)
  assume "CHR ''='' \<notin> set name"
  then have t: "takeWhile (\<lambda>c. c \<noteq> CHR ''='') cs = cs" using Cons by (auto simp: takeWhile_eq_all_conv)
  show ?thesis unfolding Cons split_value_def list.sel t by simp
qed (simp add: split_value_def)

lemma flag_body_long:
  assumes "plain_name name"
  shows "is_flag (long_flag name)" "long_flag name \<noteq> ''--''" "flag_body (long_flag name) = name"
    "\<not> bad_syntax name" "split_value name = (name, None)"
proof -
  show "split_value name = (name, None)" using assms split_value_plain by (simp add: plain_name_def)
qed (use assms in \<open>cases name; auto simp: is_flag_def long_flag_def flag_body_def bad_syntax_def plain_name_def\<close>)+

lemma parse_long_value:
  assumes "plain_name name" and "kind name = Some Value_flag"
  shows "parse_flags kind set_flag (long_flag name # v # args) r =
    (case set_flag name v r of None \<Rightarrow> Inl (Invalid_value name v) | Some r' \<Rightarrow> parse_flags kind set_flag args r')"
  using flag_body_long [OF assms(1)] assms(2) by (simp add: parse_flags.simps(2))

lemma parse_long_bool:
  assumes "plain_name name" and "kind name = Some Bool_flag"
  shows "parse_flags kind set_flag (long_flag name # args) r =
    (case set_flag name ''true'' r of None \<Rightarrow> Inl (Invalid_value name ''true'') | Some r' \<Rightarrow> parse_flags kind set_flag args r')"
  using flag_body_long [OF assms(1)] assms(2) by (simp add: parse_flags.simps(2) Let_def split: option.split)

text \<open>
  A list of value flags in front of other arguments sets its flags in order; what follows is
  parsed as if it came alone.
\<close>

fun write_flags :: "(string \<times> string) list \<Rightarrow> string list" where
  "write_flags [] = []"
| "write_flags ((n, v) # fs) = long_flag n # v # write_flags fs"

fun set_flags :: "(string \<Rightarrow> string \<Rightarrow> 'r \<Rightarrow> 'r option) \<Rightarrow> (string \<times> string) list \<Rightarrow> 'r \<Rightarrow> 'r option" where
  "set_flags set_flag [] r = Some r"
| "set_flags set_flag ((n, v) # fs) r =
     (case set_flag n v r of None \<Rightarrow> None | Some r' \<Rightarrow> set_flags set_flag fs r')"

lemma parse_write_flags:
  assumes "\<forall>(n, v) \<in> set fs. plain_name n \<and> kind n = Some Value_flag" and "set_flags set_flag fs r = Some r'"
  shows "parse_flags kind set_flag (write_flags fs @ args) r = parse_flags kind set_flag args r'"
  using assms
  by (induction fs arbitrary: r) (auto simp: parse_long_value split: option.splits)

text \<open>
  A quantity of the record that only the flag \<^verbatim>\<open>n\<close> changes keeps its value when no argument
  is written as that flag.
\<close>

definition writes_flag :: "string \<Rightarrow> string \<Rightarrow> bool" where
  "writes_flag n s \<longleftrightarrow> is_flag s \<and> fst (split_value (flag_body s)) = n"

lemma parse_flags_keeps:
  assumes "\<And>m v r r'. m \<noteq> n \<Longrightarrow> set_flag m v r = Some r' \<Longrightarrow> g r' = g r"
    and "\<forall>s \<in> set args. \<not> writes_flag n s"
    and "parse_flags kind set_flag args r = Inr (r', rest)"
  shows "g r' = g r"
proof -
  have "(\<forall>s \<in> set args. \<not> writes_flag n s) \<longrightarrow> g r' = g r"
    using assms(3)
  proof (rule parse_flags_induct)
    fix s args' front r v r1
    assume s: "is_flag s" "set_flag (fst (split_value (flag_body s))) v r = Some r1"
      and IH: "(\<forall>s \<in> set args'. \<not> writes_flag n s) \<longrightarrow> g r' = g r1"
    show "(\<forall>s \<in> set (s # front @ args'). \<not> writes_flag n s) \<longrightarrow> g r' = g r"
      using IH assms(1) [OF _ s(2)] s(1) by (auto simp: writes_flag_def)
  qed simp_all
  with assms(2) show ?thesis by blast
qed

end
