(* ===== verification/Auth.thy ===== *)
theory Auth
  imports Prelude "HOL-Library.Word"
begin

unbundle bit_operations_syntax

text \<open>
  \<^verbatim>\<open>internal/auth\<close>: the authentication port and the shared-secret adapter.  The comparison
  is \<^verbatim>\<open>crypto/subtle.ConstantTimeCompare\<close>, modelled on 8-bit and 32-bit words as the
  library computes it: the differences of all byte pairs are collected with a bitwise
  or, and a collected zero is turned into 1 by a borrow out of a 32-bit subtraction.
\<close>

datatype auth_error = ErrUnauthenticated

definition byte_of :: "char \<Rightarrow> 8 word" where
  "byte_of c = of_char c"

definition ct_byte_eq :: "8 word \<Rightarrow> 8 word \<Rightarrow> int" where
  "ct_byte_eq x y = uint (drop_bit 31 ((ucast (x XOR y) :: 32 word) - 1))"

fun ct_collect :: "8 word \<Rightarrow> bytes \<Rightarrow> bytes \<Rightarrow> 8 word" where
  "ct_collect v (x # xs) (y # ys) = ct_collect (v OR (byte_of x XOR byte_of y)) xs ys"
| "ct_collect v _ _ = v"

definition ct_compare :: "bytes \<Rightarrow> bytes \<Rightarrow> int" where
  "ct_compare x y = (if length x \<noteq> length y then 0 else ct_byte_eq (ct_collect 0 x y) 0)"

record shared_secret =
  secret :: bytes

definition new_shared_secret :: "string \<Rightarrow> shared_secret" where
  "new_shared_secret s = \<lparr>secret = s\<rparr>"

definition authenticate :: "shared_secret \<Rightarrow> string \<Rightarrow> auth_error option" where
  "authenticate a credential =
     (if length (secret a) = 0 \<or> credential = [] then Some ErrUnauthenticated
      else if ct_compare credential (secret a) \<noteq> 1 then Some ErrUnauthenticated
      else None)"

section \<open>The constant-time comparison decides equality\<close>

lemma unat_byte_of: "unat (byte_of c) = of_char c"
proof -
  have "byte_of c = of_nat (of_char c)" by (simp add: byte_of_def of_nat_of_char)
  then have "unat (byte_of c) = of_char c mod 256" by (simp add: unat_of_nat)
  then show ?thesis by simp
qed

lemma byte_of_eq [simp]: "byte_of x = byte_of y \<longleftrightarrow> x = y"
  by (metis unat_byte_of of_char_eq_iff)

lemma ct_byte_eq_0: "ct_byte_eq v 0 = (if v = 0 then 1 else 0)"
proof (cases "v = 0")
  case True
  then show ?thesis by (simp add: ct_byte_eq_def)
next
  case False
  let ?w = "ucast v :: 32 word"
  have "uint v \<noteq> 0" using False by (simp add: uint_0_iff)
  then have v: "0 < uint v" "uint v < 256"
    using uint_lt2p [of v] by (simp_all add: less_le)
  have "uint (?w - 1) = (uint v - 1) mod 2 ^ 32"
    using v by (simp add: uint_word_ariths unsigned_ucast_eq take_bit_eq_mod)
  then have u: "uint (?w - 1) < 2 ^ 31"
    using v by simp
  have "uint (drop_bit 31 (?w - 1)) = uint (?w - 1) div 2 ^ 31"
    by (simp add: drop_bit_eq_div uint_div_distrib)
  also have "\<dots> = 0" using u by simp
  finally show ?thesis using False by (simp add: ct_byte_eq_def)
qed

lemma or_eq_0_word: "(a OR b = (0 :: 8 word)) \<longleftrightarrow> a = 0 \<and> b = 0"
  by (auto simp: bit_eq_iff bit_or_iff)

lemma xor_eq_0_word: "(a XOR b = (0 :: 8 word)) \<longleftrightarrow> a = b"
  by (auto simp: bit_eq_iff bit_xor_iff)

lemma ct_collect_0:
  "length x = length y \<Longrightarrow> ct_collect v x y = 0 \<longleftrightarrow> v = 0 \<and> x = y"
  by (induction v x y rule: ct_collect.induct) (auto simp: or_eq_0_word xor_eq_0_word)

lemma ct_compare_eq: "ct_compare x y = (if x = y then 1 else 0)"
  by (simp add: ct_compare_def ct_byte_eq_0 ct_collect_0)

section \<open>The port\<close>

text \<open>
  \<^verbatim>\<open>Authenticator\<close>: an implementation denies an empty credential.  An authenticator
  that compares with a configured secret accepts exactly that secret.
\<close>

locale authenticator =
  fixes auth :: "'a \<Rightarrow> string \<Rightarrow> 'e option"
  assumes empty_denied: "auth a [] \<noteq> None"
begin

lemma accepted_not_empty: "auth a c = None \<Longrightarrow> c \<noteq> []"
  using empty_denied by metis

end

locale secret_authenticator =
  fixes auth :: "'a \<Rightarrow> string \<Rightarrow> 'e option"
    and configured :: "'a \<Rightarrow> bytes"
  assumes accepts_iff: "auth a c = None \<longleftrightarrow> c = configured a \<and> c \<noteq> []"
begin

lemma unconfigured_denies: "configured a = [] \<Longrightarrow> auth a c \<noteq> None"
  by (simp add: accepts_iff)

end

sublocale secret_authenticator \<subseteq> authenticator auth
  by unfold_locales (simp add: accepts_iff)

interpretation shared: secret_authenticator authenticate secret
  by unfold_locales (auto simp: authenticate_def ct_compare_eq)

section \<open>Properties\<close>

text \<open>
  The constant-time comparison agrees with equality of byte strings: the borrow out
  of the 32-bit subtraction is 1 exactly when no byte differs.
\<close>

lemma constant_time_compare_correct: "ct_compare x y = (if x = y then 1 else 0)"
  by (simp add: ct_byte_eq_0 ct_compare_def ct_collect_0)

text \<open>
  The shared-secret authenticator accepts a credential exactly when it is the
  configured secret and the secret is not empty; in every other case, an empty secret
  included, it denies.
\<close>

lemma authenticate_fails_closed:
  "authenticate (new_shared_secret s) credential =
     (if credential = s \<and> s \<noteq> [] then None else Some ErrUnauthenticated)"
proof -
  have "authenticate (new_shared_secret s) credential = None \<longleftrightarrow> credential = s \<and> s \<noteq> []"
    using shared.accepts_iff [of "new_shared_secret s" credential]
    by (auto simp: new_shared_secret_def)
  then show ?thesis
    by (cases "authenticate (new_shared_secret s) credential") (auto intro: auth_error.exhaust)
qed

end
