(* ===== verification/Server.thy ===== *)
theory Server
  imports Auth Bus
begin

text \<open>
  The inbound HTTP adapter \<^verbatim>\<open>internal/server\<close>: the two ingresses, their shared acceptance
  path, the middleware and the routes.  A handler works on a response under construction (the
  first status wins, as in \<^verbatim>\<open>net/http\<close>) and on the state of the publisher, and may panic.
\<close>

section \<open>Responses\<close>

record response =
  rs_status :: "nat option"
  rs_json :: bool
  rs_correlation :: string
  rs_body :: string

definition empty_response :: response where
  "empty_response = \<lparr>rs_status = None, rs_json = False, rs_correlation = [], rs_body = []\<rparr>"

definition write_header :: "nat \<Rightarrow> response \<Rightarrow> response" where
  "write_header code r = (if rs_status r = None then r\<lparr>rs_status := Some code\<rparr> else r)"

definition write_body :: "string \<Rightarrow> response \<Rightarrow> response" where
  "write_body b r = (let r' = write_header 200 r in r'\<lparr>rs_body := rs_body r' @ b\<rparr>)"

text \<open>A header set after the status was written has no effect on the wire.\<close>

definition set_json :: "response \<Rightarrow> response" where
  "set_json r = (if rs_status r = None then r\<lparr>rs_json := True\<rparr> else r)"

definition write_error :: "nat \<Rightarrow> string \<Rightarrow> response \<Rightarrow> response" where
  "write_error status msg r =
     write_body (''{'' @ quote ''error'' @ '':'' @ quote msg @ ''}'') (write_header status (set_json r))"

definition write_status :: "string \<Rightarrow> response \<Rightarrow> response" where
  "write_status status r =
     write_body (''{'' @ quote ''status'' @ '':'' @ quote status @ ''}'') (write_header 200 (set_json r))"

section \<open>Accepting an event\<close>

definition max_event_body_bytes :: nat where "max_event_body_bytes = 1048576"
definition max_workflow_id_len :: nat where "max_workflow_id_len = 128"

record submit_request =
  sr_type :: string
  sr_workflow :: string
  sr_payload :: bytes

definition zero_submit :: submit_request where
  "zero_submit = \<lparr>sr_type = [], sr_workflow = [], sr_payload = []\<rparr>"

definition submit_fields :: "string list" where
  "submit_fields = [''type'', ''workflowID'', ''payload'']"

text \<open>The payload is a \<^verbatim>\<open>json.RawMessage\<close>: the member's text as it stands in the body.\<close>

definition submit_put :: "string \<Rightarrow> string \<Rightarrow> json \<Rightarrow> submit_request \<Rightarrow> submit_request \<times> bool" where
  "submit_put n raw v r =
     (if n = ''type'' then set_field (\<lambda>s. sr_type_update (\<lambda>_. s)) (decode_string (sr_type r) v) r
      else if n = ''workflowID'' then
        set_field (\<lambda>s. sr_workflow_update (\<lambda>_. s)) (decode_string (sr_workflow r) v) r
      else (r\<lparr>sr_payload := raw\<rparr>, True))"

text \<open>
  Decoding through \<^verbatim>\<open>MaxBytesReader\<close>: the decoder scans the bytes up to the limit and
  meets the limit error only when it needs more.  A value that is not an object or array
  needs the byte after it (or the end of the body) to end.
\<close>

datatype decode_result = Decoded submit_request string | Too_large | Invalid_body

definition self_delimited :: "json \<Rightarrow> bool" where
  "self_delimited v = (case v of JObj _ \<Rightarrow> True | JArr _ \<Rightarrow> True | _ \<Rightarrow> False)"

definition decode_submit :: "bytes \<Rightarrow> decode_result" where
  "decode_submit body =
     (let over = length body > max_event_body_bytes;
          seen = take max_event_body_bytes body
      in case scan_json seen of
        Bad \<Rightarrow> Invalid_body
      | Short \<Rightarrow> (if over then Too_large else Invalid_body)
      | Done v rest \<Rightarrow>
          if over \<and> rest = [] \<and> \<not> self_delimited v then Too_large
          else (case decode_struct True submit_fields submit_put zero_submit v of
              (r, ok) \<Rightarrow> if ok then Decoded r rest else Invalid_body))"

definition valid_workflow_id :: "string \<Rightarrow> bool" where
  "valid_workflow_id s = (\<not> contains_any s blank_or_wild)"

definition validate_submit :: "submit_request \<Rightarrow> string option" where
  "validate_submit r =
     (if \<not> valid_type (sr_type r) then
        Some ''invalid event type (single token [A-Za-z0-9_-], no dots)''
      else if length (sr_workflow r) > max_workflow_id_len then Some ''workflowID too long''
      else if sr_workflow r \<noteq> [] \<and> \<not> valid_workflow_id (sr_workflow r) then
        Some ''workflowID contains illegal characters''
      else None)"

definition submitted_event :: "submit_request \<Rightarrow> event" where
  "submitted_event r = \<lparr>ev_type = sr_type r, ev_workflow = sr_workflow r, ev_payload = sr_payload r\<rparr>"

definition accept_event ::
  "(event \<Rightarrow> 's \<Rightarrow> 'err option \<times> 's) \<Rightarrow> bytes \<Rightarrow> response \<Rightarrow> 's \<Rightarrow> response \<times> 's" where
  "accept_event publish body w s =
     (case decode_submit body of
        Too_large \<Rightarrow> (write_error 413 ''event body too large'' w, s)
      | Invalid_body \<Rightarrow> (write_error 400 ''invalid event body'' w, s)
      | Decoded r rest \<Rightarrow>
          if decoder_more rest then
            (write_error 400 ''body must contain a single JSON event'' w, s)
          else (case validate_submit r of
              Some msg \<Rightarrow> (write_error 400 msg w, s)
            | None \<Rightarrow>
                (case publish (submitted_event r) s of
                   (Some err, s') \<Rightarrow> (write_error 500 ''could not accept event'' w, s')
                 | (None, s') \<Rightarrow>
                     (write_body (''{'' @ quote ''status'' @ '':'' @ quote ''accepted'' @ ''}'')
                       (write_header 202 (set_json w)), s'))))"

section \<open>The webhook\<close>

text \<open>The encodings of the runes \<^verbatim>\<open>unicode.IsSpace\<close> accepts, for \<^verbatim>\<open>strings.TrimSpace\<close>.\<close>

definition space_runes :: "bytes list" where
  "space_runes =
     map (\<lambda>c. [c]) [CHR 0x09, CHR 0x0A, CHR 0x0B, CHR 0x0C, CHR 0x0D, CHR 0x20] @
     [[CHR 0xC2, CHR 0x85], [CHR 0xC2, CHR 0xA0], [CHR 0xE1, CHR 0x9A, CHR 0x80],
      [CHR 0xE2, CHR 0x80, CHR 0xA8], [CHR 0xE2, CHR 0x80, CHR 0xA9], [CHR 0xE2, CHR 0x80, CHR 0xAF],
      [CHR 0xE2, CHR 0x81, CHR 0x9F], [CHR 0xE3, CHR 0x80, CHR 0x80]] @
     map (\<lambda>n. [CHR 0xE2, CHR 0x80, char_of (n :: nat)]) [128..<139]"

function trim_front :: "bytes list \<Rightarrow> bytes \<Rightarrow> bytes" where
  "trim_front ws s =
     (case List.find (\<lambda>w. w \<noteq> [] \<and> has_prefix s w) ws of
        None \<Rightarrow> s
      | Some w \<Rightarrow> trim_front ws (drop (length w) s))"
  by pat_completeness auto
termination
  by (relation "measure (\<lambda>(ws, s). length s)")
    (auto simp: find_Some_iff has_prefix_def split: if_splits intro!: diff_less)

declare trim_front.simps [simp del]

definition trim_space :: "bytes \<Rightarrow> bytes" where
  "trim_space s = rev (trim_front (map rev space_runes) (rev (trim_front space_runes s)))"

definition lower :: "char \<Rightarrow> char" where
  "lower c = (if CHR ''A'' \<le> c \<and> c \<le> CHR ''Z'' then char_of (of_char c + 32 :: nat) else c)"

definition bearer_token :: "string \<Rightarrow> string" where
  "bearer_token h =
     (if length h \<le> length ''Bearer '' \<or> map lower (take (length ''Bearer '') h) \<noteq> map lower ''Bearer '' then []
      else trim_space (drop (length ''Bearer '') h))"

definition webhook ::
  "shared_secret \<Rightarrow> (event \<Rightarrow> 's \<Rightarrow> 'err option \<times> 's) \<Rightarrow> string \<Rightarrow> bytes \<Rightarrow> response \<Rightarrow> 's \<Rightarrow> response \<times> 's" where
  "webhook authr publish authorization body w s =
     (case authenticate authr (bearer_token authorization) of
        Some err \<Rightarrow> (write_error 401 ''unauthorized'' w, s)
      | None \<Rightarrow> accept_event publish body w s)"

section \<open>Middleware and routes\<close>

record request =
  rq_method :: string
  rq_path :: string
  rq_correlation :: string
  rq_authorization :: string
  rq_body :: bytes

datatype log_line = Request_line string string string | Panic_line string string string

text \<open>A handler's result: whether it panicked, the response, the publisher's state, the log.\<close>

type_synonym 's handler_result = "bool \<times> response \<times> 's \<times> log_line list"
type_synonym 's http_handler = "request \<Rightarrow> string \<Rightarrow> response \<Rightarrow> 's \<Rightarrow> 's handler_result"

definition new_correlation_id :: "bytes option \<Rightarrow> string" where
  "new_correlation_id random =
     (case random of
        None \<Rightarrow> ''unknown''
      | Some b \<Rightarrow> concat (map (\<lambda>c. [hex_char (of_char c div 16), hex_char (of_char c mod 16)]) b))"

definition correlation_id ::
  "bytes option \<Rightarrow> 's http_handler \<Rightarrow> request \<Rightarrow> response \<Rightarrow> 's \<Rightarrow> 's handler_result" where
  "correlation_id random next rq w s =
     (let cid = (if rq_correlation rq = [] then new_correlation_id random else rq_correlation rq)
      in next rq cid (w\<lparr>rs_correlation := cid\<rparr>) s)"

definition request_logger :: "'s http_handler \<Rightarrow> 's http_handler" where
  "request_logger next rq cid w s =
     (case next rq cid w s of
        (True, w', s', ls) \<Rightarrow> (True, w', s', ls)
      | (False, w', s', ls) \<Rightarrow> (False, w', s', ls @ [Request_line (rq_method rq) (rq_path rq) cid]))"

definition recoverer :: "'s http_handler \<Rightarrow> 's http_handler" where
  "recoverer next rq cid w s =
     (case next rq cid w s of
        (True, w', s', ls) \<Rightarrow>
          (False, write_error 500 ''internal error'' w', s', ls @ [Panic_line (rq_method rq) (rq_path rq) cid])
      | (False, w', s', ls) \<Rightarrow> (False, w', s', ls))"

definition with_middleware ::
  "bytes option \<Rightarrow> 's http_handler \<Rightarrow> request \<Rightarrow> response \<Rightarrow> 's \<Rightarrow> 's handler_result" where
  "with_middleware random h = correlation_id random (request_logger (recoverer h))"

text \<open>
  The routes of the two listeners.  What the multiplexer itself answers to a request of no
  route (not found, method not allowed, a redirect) is the parameter \<^verbatim>\<open>other\<close>.
\<close>

definition plain_handler :: "(request \<Rightarrow> response \<Rightarrow> 's \<Rightarrow> response \<times> 's) \<Rightarrow> 's http_handler" where
  "plain_handler f rq cid w s = (case f rq w s of (w', s') \<Rightarrow> (False, w', s', []))"

definition method_matches :: "string \<Rightarrow> string \<Rightarrow> bool" where
  "method_matches m rm = (rm = m \<or> m = ''GET'' \<and> rm = ''HEAD'')"

definition submit_event ::
  "(event \<Rightarrow> 's \<Rightarrow> 'err option \<times> 's) \<Rightarrow> request \<Rightarrow> response \<Rightarrow> 's \<Rightarrow> response \<times> 's" where
  "submit_event publish rq w s = accept_event publish (rq_body rq) w s"

definition events_handler ::
  "(request \<Rightarrow> response \<Rightarrow> response) \<Rightarrow> (event \<Rightarrow> 's \<Rightarrow> 'err option \<times> 's) \<Rightarrow> 's http_handler" where
  "events_handler other publish =
     plain_handler (\<lambda>rq w s.
       if rq_path rq = ''/events'' \<and> method_matches ''POST'' (rq_method rq) then
         submit_event publish rq w s
       else (other rq w, s))"

definition control_handler ::
  "(request \<Rightarrow> response \<Rightarrow> response) \<Rightarrow> shared_secret \<Rightarrow> (event \<Rightarrow> 's \<Rightarrow> 'err option \<times> 's) \<Rightarrow> 's http_handler" where
  "control_handler other authr publish =
     plain_handler (\<lambda>rq w s.
       if rq_path rq = ''/healthz'' \<and> method_matches ''GET'' (rq_method rq) then (write_status ''ok'' w, s)
       else if rq_path rq = ''/readyz'' \<and> method_matches ''GET'' (rq_method rq) then (write_status ''ready'' w, s)
       else if rq_path rq = ''/webhook'' \<and> method_matches ''POST'' (rq_method rq) then
         webhook authr publish (rq_authorization rq) (rq_body rq) w s
       else (other rq w, s))"

text \<open>\<^verbatim>\<open>New\<close>: the two handlers, each for its own listener.\<close>

record 's handlers =
  events_ingress :: "request \<Rightarrow> response \<Rightarrow> 's \<Rightarrow> 's handler_result"
  control_ingress :: "request \<Rightarrow> response \<Rightarrow> 's \<Rightarrow> 's handler_result"

definition new_handlers ::
  "bytes option \<Rightarrow> (request \<Rightarrow> response \<Rightarrow> response) \<Rightarrow> (event \<Rightarrow> 's \<Rightarrow> 'err option \<times> 's) \<Rightarrow>
   shared_secret \<Rightarrow> 's handlers" where
  "new_handlers random other publish authr =
     \<lparr>events_ingress = with_middleware random (events_handler other publish),
      control_ingress = with_middleware random (control_handler other authr publish)\<rparr>"

lemmas [route_defs] = submit_event_def events_handler_def control_handler_def method_matches_def new_handlers_def
lemmas middleware_defs = with_middleware_def correlation_id_def request_logger_def recoverer_def Let_def

section \<open>Facts about responses\<close>

lemma write_error_status [simp]:
  "rs_status w = None \<Longrightarrow> rs_status (write_error c msg w) = Some c"
  "rs_status w \<noteq> None \<Longrightarrow> rs_status (write_error c msg w) = rs_status w"
  by (simp_all add: write_error_def write_body_def write_header_def set_json_def Let_def)

lemma write_error_correlation [simp]: "rs_correlation (write_error c msg w) = rs_correlation w"
  by (simp add: write_error_def write_body_def write_header_def set_json_def Let_def)

lemma write_other_correlation [simp]:
  "rs_correlation (write_status b w) = rs_correlation w"
  "rs_correlation (write_body b w) = rs_correlation w"
  "rs_correlation (write_header c w) = rs_correlation w"
  "rs_correlation (set_json w) = rs_correlation w"
  by (simp_all add: write_status_def write_body_def write_header_def set_json_def Let_def)

lemma write_body_status [simp]:
  "rs_status w = Some c \<Longrightarrow> rs_status (write_body b w) = Some c"
  by (simp add: write_body_def write_header_def Let_def)

lemma write_header_status [simp]: "rs_status w = None \<Longrightarrow> rs_status (write_header c w) = Some c"
  by (simp add: write_header_def)

lemma set_json_status [simp]: "rs_status (set_json w) = rs_status w"
  by (simp add: set_json_def)

lemma validated_subject:
  assumes "validate_submit r = None"
  shows "\<exists>s. subject_for (submitted_event r) = Inr s" and "valid_type (sr_type r)"
    and "length (sr_workflow r) \<le> 128" and "\<not> contains_any (sr_workflow r) blank_or_wild"
proof -
  show v: "valid_type (sr_type r)" "length (sr_workflow r) \<le> 128" "\<not> contains_any (sr_workflow r) blank_or_wild"
    using assms by (auto simp: validate_submit_def max_workflow_id_len_def valid_workflow_id_def
        contains_any_def split: if_splits)
  have "check_token (workflow_token (submitted_event r)) = None"
    using v by (auto simp: check_token_def workflow_token_def submitted_event_def empty_workflow_token_def
        max_token_len_def contains_any_def blank_or_wild_def)
  with v show "\<exists>s. subject_for (submitted_event r) = Inr s"
    by (auto simp: subject_for_Inr submitted_event_def)
qed

text \<open>A request that gets as far as the publisher.\<close>

definition acceptable :: "bytes \<Rightarrow> submit_request \<Rightarrow> bool" where
  "acceptable body r \<longleftrightarrow>
     (\<exists>rest. decode_submit body = Decoded r rest \<and> \<not> decoder_more rest \<and> validate_submit r = None)"

lemma accept_event_cases:
  assumes "rs_status w = None"
  shows "(\<nexists>r. acceptable body r) \<and> snd (accept_event publish body w s) = s \<and>
      (\<exists>c \<in> {400, 413}. rs_status (fst (accept_event publish body w s)) = Some c) \<or>
    (\<exists>r. acceptable body r \<and> snd (accept_event publish body w s) = snd (publish (submitted_event r) s) \<and>
      rs_status (fst (accept_event publish body w s)) =
        Some (if fst (publish (submitted_event r) s) = None then 202 else 500))"
proof (cases "decode_submit body")
  case (Decoded r rest)
  show ?thesis
  proof (cases "decoder_more rest \<or> validate_submit r \<noteq> None")
    case True
    then have "\<nexists>r. acceptable body r" using Decoded by (auto simp: acceptable_def)
    with True Decoded assms show ?thesis by (auto simp: accept_event_def)
  next
    case False
    then have "acceptable body r" using Decoded by (auto simp: acceptable_def)
    moreover have "decoder_more rest = False" "validate_submit r = None" using False by simp_all
    ultimately show ?thesis
      using Decoded assms
      by (intro disjI2 exI [of _ r], cases "publish (submitted_event r) s"; cases "fst (publish (submitted_event r) s)")
        (simp_all add: accept_event_def)
  qed
qed (use assms in \<open>auto simp: accept_event_def acceptable_def\<close>)

lemma acceptable_unique: "acceptable body r \<Longrightarrow> acceptable body r' \<Longrightarrow> r = r'"
  by (auto simp: acceptable_def)

text \<open>What any publisher's clients learn from the status.\<close>

context publisher
begin

lemma accept_event_published:
  assumes "rs_status w = None"
  shows "rs_status (fst (accept_event publish body w s)) = Some 202 \<Longrightarrow>
      \<exists>r. acceptable body r \<and>
        published (snd (accept_event publish body w s)) = published s @ [carried (submitted_event r)]"
    and "rs_status (fst (accept_event publish body w s)) \<in> {Some 400, Some 413} \<Longrightarrow>
      snd (accept_event publish body w s) = s"
    and "\<exists>es. published (snd (accept_event publish body w s)) = published s @ es \<and> length es \<le> 1"
proof -
  show "\<exists>r. acceptable body r \<and>
        published (snd (accept_event publish body w s)) = published s @ [carried (submitted_event r)]"
    if status: "rs_status (fst (accept_event publish body w s)) = Some 202"
  proof -
    obtain r where r: "acceptable body r" "fst (publish (submitted_event r) s) = None"
      "snd (accept_event publish body w s) = snd (publish (submitted_event r) s)"
      using accept_event_cases [OF assms, of body publish s] status by (auto split: if_splits)
    then show ?thesis
      using publish_appends [of "submitted_event r" s] by auto
  qed
  show "snd (accept_event publish body w s) = s"
    if "rs_status (fst (accept_event publish body w s)) \<in> {Some 400, Some 413}"
    using accept_event_cases [OF assms, of body publish s] that by (auto split: if_splits)
  show "\<exists>es. published (snd (accept_event publish body w s)) = published s @ es \<and> length es \<le> 1"
    using accept_event_cases [OF assms, of body publish s]
  proof (elim disjE exE conjE)
    fix r assume "snd (accept_event publish body w s) = snd (publish (submitted_event r) s)"
    then show ?thesis using publish_appends [of "submitted_event r" s] by auto
  qed auto
qed

end

section \<open>Properties\<close>

lemma jetstream_publish_ok:
  "subject_for e = Inr subj \<Longrightarrow> fst (bus_publish reply e ms) = None \<longleftrightarrow> reply = Pub_acked"
  by (cases reply) (simp_all add: bus_publish_def)

text \<open>
  C10: the ingress answers 202 exactly when the body is one acceptable event request and the
  broker acknowledged it, and then exactly that event was published, with a valid type, a
  workflow ID of at most 128 bytes without blanks or wildcards and a well-formed subject; a 400
  or 413 publishes nothing and a 500 at most one message.  No other status is possible.
\<close>

theorem accept_event_outcomes:
  assumes "accept_event (bus_publish reply) body empty_response ms = (w, ms')"
  shows "(rs_status w = Some 202 \<longleftrightarrow> reply = Pub_acked \<and> (\<exists>r. acceptable body r)) \<and>
    (rs_status w = Some 202 \<longrightarrow> (\<exists>r. acceptable body r \<and>
       stream_events ms' = stream_events ms @ [carried (submitted_event r)] \<and>
       valid_type (sr_type r) \<and> length (sr_workflow r) \<le> 128 \<and>
       \<not> contains_any (sr_workflow r) blank_or_wild \<and> (\<exists>s. subject_for (submitted_event r) = Inr s))) \<and>
    (rs_status w \<in> {Some 400, Some 413} \<longrightarrow> ms' = ms) \<and>
    (\<exists>es. stream_events ms' = stream_events ms @ es \<and> length es \<le> 1) \<and>
    rs_status w \<in> {Some 202, Some 400, Some 413, Some 500}"
proof (intro conjI impI)
  have w0: "rs_status empty_response = None" by (simp add: empty_response_def)
  have w: "w = fst (accept_event (bus_publish reply) body empty_response ms)"
    "ms' = snd (accept_event (bus_publish reply) body empty_response ms)"
    using assms by simp_all
  note c = accept_event_cases [OF w0, of body "bus_publish reply" ms, folded w]
  have ok: "fst (bus_publish reply (submitted_event r) ms) = None \<longleftrightarrow> reply = Pub_acked" if "acceptable body r" for r
    using that validated_subject(1) jetstream_publish_ok by (metis acceptable_def)
  show "rs_status w = Some 202 \<longleftrightarrow> reply = Pub_acked \<and> (\<exists>r. acceptable body r)"
    using c ok by (auto split: if_splits)
  show "rs_status w \<in> {Some 202, Some 400, Some 413, Some 500}"
    using c by (auto split: if_splits)
  show "\<exists>es. stream_events ms' = stream_events ms @ es \<and> length es \<le> 1"
    using jetstream.accept_event_published(3) [OF w0, of reply body ms] w by simp
  show "ms' = ms" if "rs_status w \<in> {Some 400, Some 413}"
    using jetstream.accept_event_published(2) [OF w0, of reply body ms] w that by simp
  assume "rs_status w = Some 202"
  then obtain r where r: "acceptable body r"
    "stream_events ms' = stream_events ms @ [carried (submitted_event r)]"
    using jetstream.accept_event_published(1) [OF w0, of reply body ms] w by auto
  moreover from r(1) have "validate_submit r = None" by (auto simp: acceptable_def)
  ultimately show "\<exists>r. acceptable body r \<and>
       stream_events ms' = stream_events ms @ [carried (submitted_event r)] \<and>
       valid_type (sr_type r) \<and> length (sr_workflow r) \<le> 128 \<and>
       \<not> contains_any (sr_workflow r) blank_or_wild \<and> (\<exists>s. subject_for (submitted_event r) = Inr s)"
    using validated_subject [of r] by blast
qed

theorem accept_event_outcomes_witness:
  "rs_status (fst (accept_event (bus_publish Pub_acked) ''{x'' empty_response [])) = Some 400"
proof -
  have d: "decode_submit ''{x'' = Invalid_body" by (simp add: decode_submit_def max_event_body_bytes_def) code_simp
  then have n: "\<not> acceptable ''{x'' r" for r by (simp add: acceptable_def)
  obtain w ms' where a: "accept_event (bus_publish Pub_acked) ''{x'' empty_response [] = (w, ms')"
    by fastforce
  show ?thesis
    using accept_event_outcomes [OF a] n d a
    by (auto simp: accept_event_def) (simp_all add: empty_response_def)
qed

lemma with_middleware_state:
  "fst (snd (snd (with_middleware random h rq w s))) =
     fst (snd (snd (h rq (if rq_correlation rq = [] then new_correlation_id random else rq_correlation rq)
       (w\<lparr>rs_correlation := (if rq_correlation rq = [] then new_correlation_id random else rq_correlation rq)\<rparr>) s)))"
  by (auto simp: middleware_defs split: prod.splits bool.splits)

lemma plain_handler_state: "fst (snd (snd (plain_handler f rq c w s))) = snd (f rq w s)"
  by (simp add: plain_handler_def split: prod.splits)

lemma bus_grows_by_one: "length (snd (bus_publish reply e ms)) \<le> Suc (length ms)"
  by (auto simp: bus_publish_def Let_def split: sum.splits pub_reply.splits)

lemma accept_event_state:
  assumes "rs_status w = None"
  shows "(snd (accept_event (bus_publish reply) body w ms) \<noteq> ms \<longrightarrow> (\<exists>r. acceptable body r)) \<and>
    length (snd (accept_event (bus_publish reply) body w ms)) \<le> Suc (length ms)"
  using accept_event_cases [OF assms, of body "bus_publish reply" ms] bus_grows_by_one by fastforce

lemma authenticate_iff:
  "authenticate (new_shared_secret configured) c = None \<longleftrightarrow> c = configured \<and> configured \<noteq> []"
  using shared.accepts_iff [of "new_shared_secret configured" c] by (auto simp: new_shared_secret_def)

text \<open>
  A request is passed to the acceptance path exactly when its \<^verbatim>\<open>Authorization\<close> header
  carries, as a bearer token, the configured secret and that is not empty; every other request
  gets 401 with a fixed body and publishes nothing.
\<close>

lemma webhook_denies_by_default:
  "webhook (new_shared_secret configured) publish authorization body w s =
     (if bearer_token authorization = configured \<and> configured \<noteq> []
      then accept_event publish body w s
      else (write_error 401 ''unauthorized'' w, s))"
  using authenticate_iff [of configured "bearer_token authorization"]
  by (cases "authenticate (new_shared_secret configured) (bearer_token authorization)") (auto simp: webhook_def)

text \<open>
  C14: the two ingresses are separated, and the network one denies by default.  Through the
  handlers that \<^verbatim>\<open>New\<close> builds, whatever the request, a message is published only by a POST of
  one acceptable event: on the operator's listener to \<^verbatim>\<open>/events\<close>, on the TCP listener to
  \<^verbatim>\<open>/webhook\<close> with the configured, non-empty secret as bearer token.  At most one message is
  stored, and a POST to the webhook without the secret is answered 401.
\<close>

theorem ingress_separated:
  "(case new_handlers random other (bus_publish reply) (new_shared_secret configured) of h \<Rightarrow>
    (case events_ingress h rq empty_response ms of (p, w, ms', ls) \<Rightarrow>
      length ms' \<le> Suc (length ms) \<and>
      (ms' \<noteq> ms \<longrightarrow> rq_path rq = ''/events'' \<and> rq_method rq = ''POST'' \<and> (\<exists>r. acceptable (rq_body rq) r))) \<and>
    (case control_ingress h rq empty_response ms of (p, w, ms', ls) \<Rightarrow>
      length ms' \<le> Suc (length ms) \<and>
      (ms' \<noteq> ms \<longrightarrow> rq_path rq = ''/webhook'' \<and> rq_method rq = ''POST'' \<and> (\<exists>r. acceptable (rq_body rq) r) \<and>
         configured \<noteq> [] \<and> bearer_token (rq_authorization rq) = configured) \<and>
      (rq_path rq = ''/webhook'' \<and> rq_method rq = ''POST'' \<and>
         (configured = [] \<or> bearer_token (rq_authorization rq) \<noteq> configured) \<longrightarrow> rs_status w = Some 401)))"
proof -
  let ?h = "new_handlers random other (bus_publish reply) (new_shared_secret configured)"
  define cid where "cid = (if rq_correlation rq = [] then new_correlation_id random else rq_correlation rq)"
  define w0 where "w0 = empty_response\<lparr>rs_correlation := cid\<rparr>"
  have w0: "rs_status w0 = None" by (simp add: w0_def empty_response_def)
  note acc = accept_event_state [OF w0, of reply "rq_body rq" ms]
  have ev: "fst (snd (snd (events_ingress ?h rq empty_response ms))) =
      (if rq_path rq = ''/events'' \<and> rq_method rq = ''POST'' then snd (accept_event (bus_publish reply) (rq_body rq) w0 ms) else ms)"
    by (simp add: route_defs with_middleware_state plain_handler_state w0_def cid_def)
  have ct: "fst (snd (snd (control_ingress ?h rq empty_response ms))) =
      (if rq_path rq = ''/webhook'' \<and> rq_method rq = ''POST'' \<and> bearer_token (rq_authorization rq) = configured \<and> configured \<noteq> []
       then snd (accept_event (bus_publish reply) (rq_body rq) w0 ms) else ms)"
    by (simp add: route_defs with_middleware_state plain_handler_state webhook_denies_by_default w0_def cid_def)
  have no: "rs_status (fst (snd (control_ingress ?h rq empty_response ms))) = Some 401"
    if "rq_path rq = ''/webhook'' \<and> rq_method rq = ''POST'' \<and>
         (configured = [] \<or> bearer_token (rq_authorization rq) \<noteq> configured)"
    using that w0 by (auto simp: route_defs middleware_defs plain_handler_def webhook_denies_by_default w0_def cid_def)
  show ?thesis
    using ev ct no acc by (auto split: prod.splits if_splits)
qed

theorem ingress_separated_witness:
  "rs_status (fst (snd (control_ingress (new_handlers None (\<lambda>rq w. w) (bus_publish Pub_acked) (new_shared_secret ''s''))
      \<lparr>rq_method = ''POST'', rq_path = ''/webhook'', rq_correlation = [], rq_authorization = ''Bearer x'', rq_body = []\<rparr>
      empty_response []))) = Some 401"
proof -
  let ?rq = "\<lparr>rq_method = ''POST'', rq_path = ''/webhook'', rq_correlation = [], rq_authorization = ''Bearer x'', rq_body = []\<rparr>"
  have "bearer_token ''Bearer x'' \<noteq> ''s''" by code_simp
  then show ?thesis
    using ingress_separated [where rq = ?rq and configured = "''s''" and random = None and other = "\<lambda>rq w. w"
        and reply = Pub_acked and ms = "[]"]
    by (auto split: prod.splits)
qed

text \<open>The handlers of the routes do not touch the correlation header.\<close>

lemma accept_event_correlation [simp]: "rs_correlation (fst (accept_event publish body w s)) = rs_correlation w"
  by (simp add: accept_event_def split: decode_result.split option.split prod.split)

lemma webhook_correlation [simp]: "rs_correlation (fst (webhook authr publish h body w s)) = rs_correlation w"
  by (simp add: webhook_def split: option.split)

lemma handlers_correlation:
  assumes "\<And>w. rs_correlation (other rq w) = rs_correlation w"
  shows "rs_correlation (fst (snd (events_handler other publish rq cid w s))) = rs_correlation w"
    and "rs_correlation (fst (snd (control_handler other authr publish rq cid w s))) = rs_correlation w"
  using assms by (simp_all add: events_handler_def control_handler_def plain_handler_def submit_event_def case_prod_beta)

definition request_id :: "bytes option \<Rightarrow> request \<Rightarrow> string" where
  "request_id random rq = (if rq_correlation rq = [] then new_correlation_id random else rq_correlation rq)"

lemma with_middleware_result:
  assumes "h rq (request_id random rq) (empty_response\<lparr>rs_correlation := request_id random rq\<rparr>) s = (p, w, s', ls)"
  shows "with_middleware random h rq empty_response s =
    (False, if p then write_error 500 ''internal error'' w else w, s',
     ls @ (if p then [Panic_line (rq_method rq) (rq_path rq) (request_id random rq)] else []) @
       [Request_line (rq_method rq) (rq_path rq) (request_id random rq)])"
  using assms by (cases p) (simp_all add: middleware_defs request_id_def [symmetric] case_prod_beta)

text \<open>
  C38: the middleware contains panics and names every response.  The inner handler, whatever it
  is, starts on a response that carries the request's correlation ID, or a fresh one, and the
  chain does not panic: a panic becomes a 500 if no status was written yet; one that was
  written stays.  Without a panic the response is the handler's own.  The log
  ends with exactly one request line with the ID, after the line for the panic if there was
  one.  The middleware keeps the correlation header the handler leaves, and the handlers of both
  ingresses that \<^verbatim>\<open>New\<close> builds leave it as it was, if the multiplexer's own answers do: all
  their responses carry the ID.
\<close>

theorem middleware_contains_panics:
  assumes "\<And>b. random = Some b \<Longrightarrow> length b = 16"
    and "\<And>w. rs_correlation (other rq w) = rs_correlation w"
  shows "(case h rq (request_id random rq) (empty_response\<lparr>rs_correlation := request_id random rq\<rparr>) s of (p, w1, s', ls) \<Rightarrow>
      \<exists>w'. with_middleware random h rq empty_response s =
        (False, w', s', ls @ (if p then [Panic_line (rq_method rq) (rq_path rq) (request_id random rq)] else []) @
           [Request_line (rq_method rq) (rq_path rq) (request_id random rq)]) \<and>
        rs_correlation w' = rs_correlation w1 \<and>
        (if p then rs_status w' = (if rs_status w1 = None then Some 500 else rs_status w1) else w' = w1)) \<and>
    request_id random rq \<noteq> [] \<and> (rq_correlation rq \<noteq> [] \<longrightarrow> request_id random rq = rq_correlation rq) \<and>
    rs_correlation (fst (snd (events_ingress (new_handlers random other publish authr) rq empty_response t))) = request_id random rq \<and>
    rs_correlation (fst (snd (control_ingress (new_handlers random other publish authr) rq empty_response t))) = request_id random rq"
proof (intro conjI)
  obtain p w1 s' ls where h: "h rq (request_id random rq) (empty_response\<lparr>rs_correlation := request_id random rq\<rparr>) s = (p, w1, s', ls)"
    using prod_cases4 by blast
  show "case h rq (request_id random rq) (empty_response\<lparr>rs_correlation := request_id random rq\<rparr>) s of (p, w1, s', ls) \<Rightarrow>
      \<exists>w'. with_middleware random h rq empty_response s =
        (False, w', s', ls @ (if p then [Panic_line (rq_method rq) (rq_path rq) (request_id random rq)] else []) @
           [Request_line (rq_method rq) (rq_path rq) (request_id random rq)]) \<and>
        rs_correlation w' = rs_correlation w1 \<and>
        (if p then rs_status w' = (if rs_status w1 = None then Some 500 else rs_status w1) else w' = w1)"
    using with_middleware_result [where h = h, OF h] by (simp add: h)
  show "request_id random rq \<noteq> []"
  proof (cases random)
    case (Some b)
    with assms(1) have "length b = 16" by blast
    then show ?thesis using Some by (cases b) (simp_all add: request_id_def new_correlation_id_def)
  qed (simp add: request_id_def new_correlation_id_def)
  show "rq_correlation rq \<noteq> [] \<longrightarrow> request_id random rq = rq_correlation rq" by (simp add: request_id_def)
  have carried: "rs_correlation (fst (snd (with_middleware random g rq empty_response t))) = request_id random rq"
    if "\<And>w. rs_correlation (fst (snd (g rq (request_id random rq) w t))) = rs_correlation w" for g
  proof -
    obtain p w1 s' ls where g: "g rq (request_id random rq) (empty_response\<lparr>rs_correlation := request_id random rq\<rparr>) t = (p, w1, s', ls)"
      using prod_cases4 by blast
    then show ?thesis
      using that [of "empty_response\<lparr>rs_correlation := request_id random rq\<rparr>"] by (simp add: with_middleware_result)
  qed
  show "rs_correlation (fst (snd (events_ingress (new_handlers random other publish authr) rq empty_response t))) = request_id random rq"
    "rs_correlation (fst (snd (control_ingress (new_handlers random other publish authr) rq empty_response t))) = request_id random rq"
    by (simp_all add: new_handlers_def carried handlers_correlation [where other = other, OF assms(2)])
qed

theorem middleware_contains_panics_witness:
  "\<exists>w. with_middleware None (\<lambda>rq c w s. (True, w, s, []))
     \<lparr>rq_method = ''GET'', rq_path = ''/x'', rq_correlation = ''id'', rq_authorization = [], rq_body = []\<rparr>
     empty_response () = (False, w, (), [Panic_line ''GET'' ''/x'' ''id'', Request_line ''GET'' ''/x'' ''id'']) \<and>
     rs_correlation w = ''id'' \<and> rs_status w = Some 500"
proof -
  let ?rq = "\<lparr>rq_method = ''GET'', rq_path = ''/x'', rq_correlation = ''id'', rq_authorization = [], rq_body = []\<rparr>"
  have "request_id None ?rq = ''id''" by (simp add: request_id_def)
  then show ?thesis
    using middleware_contains_panics [where h = "\<lambda>rq c w s. (True, w, s, [])" and random = None and rq = ?rq and s = "()"
        and other = "\<lambda>rq w. w" and publish = "bus_publish Pub_acked" and authr = "new_shared_secret []" and t = "[]"]
    by (auto simp: empty_response_def)
qed

end
