(* ===== verification/Json_Compact.thy ===== *)
theory Json_Compact
  imports Json_Roundtrip
begin

text \<open>
  How \<^verbatim>\<open>encoding/json\<close> writes a \<^verbatim>\<open>json.RawMessage\<close>: the text is checked, white space
  outside strings is dropped, and the three HTML characters and the line separators are escaped.
  The lemmas show that the compacted text scans to the same value, at any nesting depth that
  leaves room for it and whatever follows it.
\<close>

text \<open>The flags say whether the position is inside a string and after a backslash there.\<close>

fun compact_text :: "bool \<Rightarrow> bool \<Rightarrow> string \<Rightarrow> string" where
  "compact_text in_str esc [] = []"
| "compact_text in_str esc (c # cs) =
     (if take 3 (c # cs) = [CHR 0xE2, CHR 0x80, CHR 0xA8] then
        [CHR 0x5C] @ ''u2028'' @ compact_text in_str False (drop 2 cs)
      else if take 3 (c # cs) = [CHR 0xE2, CHR 0x80, CHR 0xA9] then
        [CHR 0x5C] @ ''u2029'' @ compact_text in_str False (drop 2 cs)
      else if c = CHR ''<'' \<or> c = CHR ''>'' \<or> c = CHR ''&'' then
        [CHR 0x5C] @ ''u00'' @ [hex_char (of_char c div 16), hex_char (of_char c mod 16)] @
          compact_text in_str False cs
      else if in_str then
        c # compact_text (esc \<or> c \<noteq> dquote) (\<not> esc \<and> c = CHR 0x5C) cs
      else if is_space c then compact_text False False cs
      else c # compact_text (c = dquote) False cs)"

declare compact_text.simps(2) [simp del]

definition marshal_raw :: "bytes \<Rightarrow> string option" where
  "marshal_raw p = (if parse_json p = None then None else Some (compact_text False False p))"

section \<open>Strings\<close>

definition html_char :: "char \<Rightarrow> bool" where
  "html_char c = (c = CHR ''<'' \<or> c = CHR ''>'' \<or> c = CHR ''&'')"

lemma compact_ascii:
  assumes "c \<noteq> CHR 0xE2" and "\<not> html_char c"
  shows "compact_text True esc (c # cs) = c # compact_text (esc \<or> c \<noteq> dquote) (\<not> esc \<and> c = CHR 0x5C) cs"
    "compact_text False esc (c # cs) =
       (if is_space c then compact_text False False cs else c # compact_text (c = dquote) False cs)"
  using assms by (simp_all add: compact_text.simps(2) html_char_def)

lemma compact_html:
  "html_char c \<Longrightarrow> compact_text in_str esc (c # cs) =
     CHR 0x5C # CHR ''u'' # CHR ''0'' # CHR ''0'' # hex_char (of_char c div 16) # hex_char (of_char c mod 16) #
       compact_text in_str False cs"
  by (auto simp: compact_text.simps(2) html_char_def)

lemma compact_many:
  "\<forall>c \<in> set u. c \<noteq> CHR 0xE2 \<and> \<not> html_char c \<and> c \<noteq> dquote \<and> c \<noteq> CHR 0x5C \<Longrightarrow>
     compact_text True False (u @ t) = u @ compact_text True False t"
  by (induction u) (simp_all add: compact_ascii)

definition str_image :: "string \<Rightarrow> bytes \<Rightarrow> string \<Rightarrow> string \<Rightarrow> string \<Rightarrow> bool" where
  "str_image cs x r p q \<longleftrightarrow>
     cs = p @ r \<and>
     (\<forall>t. compact_text True False (p @ t) = q @ compact_text False False t) \<and>
     (\<forall>t. scan_str (q @ t) = Done x t) \<and>
     (\<forall>t. low_surrogate (q @ t) = low_surrogate cs) \<and>
     (\<forall>t. takeWhile cont_byte (q @ t) = takeWhile cont_byte cs) \<and>
     dquote \<in> set p"

lemma str_imageD:
  assumes "str_image cs x r p q"
  shows "cs = p @ r" "compact_text True False (p @ t) = q @ compact_text False False t"
    "scan_str (q @ t) = Done x t" "low_surrogate (q @ t) = low_surrogate cs"
    "takeWhile cont_byte (q @ t) = takeWhile cont_byte cs" "dquote \<in> set p"
  using assms by (simp_all add: str_image_def)

lemma low_surrogate_plain: "c \<noteq> CHR 0x5C \<Longrightarrow> low_surrogate (c # cs) = None"
  by (simp add: low_surrogate_def)

lemma low_surrogate_escape: "e \<noteq> CHR ''u'' \<Longrightarrow> low_surrogate (CHR 0x5C # e # es) = None"
  by (simp add: low_surrogate_def)

lemma not_cont:
  "\<not> cont_byte dquote" "\<not> cont_byte (CHR 0x5C)" "c < CHR 0x80 \<Longrightarrow> \<not> cont_byte c" "CHR 0xC2 \<le> c \<Longrightarrow> \<not> cont_byte c"
  by (auto simp: cont_byte_def dquote_def less_eq_char_def less_char_def)

lemma image_cont:
  assumes "str_image cs x r p q"
  shows "takeWhile cont_byte (p @ t) = takeWhile cont_byte cs"
  using takeWhile_append1 [OF str_imageD(6) [OF assms], of cont_byte] not_cont(1) str_imageD(1) [OF assms]
  by simp

lemma image_close: "str_image (dquote # cs) [] cs [dquote] [dquote]"
  by (simp add: str_image_def compact_ascii html_char_def dquote_def low_surrogate_plain
      scan_str.simps(2) cont_byte_def)

lemma image_simple:
  assumes i: "str_image es x r p q" and d: "simple_escape e = Some d"
  shows "str_image (CHR 0x5C # e # es) (d # x) r (CHR 0x5C # e # p) (CHR 0x5C # e # q)"
proof -
  have e: "e \<noteq> CHR 0xE2" "\<not> html_char e" "e \<noteq> CHR ''u''"
    using d by (auto simp: simple_escape_def html_char_def dquote_def split: if_splits)
  have b: "\<not> html_char (CHR 0x5C)" "CHR 0x5C \<noteq> CHR 0xE2" "CHR 0x5C \<noteq> dquote"
    by (simp_all add: html_char_def dquote_def)
  show ?thesis
    using str_imageD [OF i] e b d
    by (simp add: str_image_def compact_ascii low_surrogate_escape scan_str_simple_escape not_cont)
qed

lemma hex_small: "\<not> (56320 :: nat) \<le> of_char c"
  using of_char_less [of c] by linarith

lemma image_plain:
  assumes i: "str_image cs x r p q" and c: "c \<noteq> dquote" "c \<noteq> CHR 0x5C" "\<not> c < CHR '' ''" "c < CHR 0x80"
  shows "\<exists>p q. str_image (c # cs) (c # x) r p q"
proof (cases "html_char c")
  case False
  have "c \<noteq> CHR 0xE2" using c by (auto simp: less_char_def)
  then have "str_image (c # cs) (c # x) r (c # p) (c # q)"
    using str_imageD [OF i] False c scan_str_plain [of c]
    by (simp add: str_image_def compact_ascii low_surrogate_plain not_cont dquote_def)
  then show ?thesis by blast
next
  case True
  let ?h = "CHR 0x5C # CHR ''u'' # CHR ''0'' # CHR ''0'' # hex_char (of_char c div 16) # hex_char (of_char c mod 16) # q"
  have "low_surrogate (?h @ t) = None" for t
    using scan_hex_byte [of c "q @ t"] hex_small [of c] by (simp add: low_surrogate_def)
  then have "str_image (c # cs) (c # x) r (c # p) ?h"
    using str_imageD [OF i] True c scan_str_escaped_byte [of c]
    by (simp add: str_image_def compact_html low_surrogate_plain not_cont)
  then show ?thesis by blast
qed

lemma scan_hex_split:
  "scan_hex n acc es = Done r u \<Longrightarrow>
     n \<le> length es \<and> u = drop n es \<and> (\<forall>c \<in> set (take n es). hex_val c \<noteq> None) \<and>
     (\<forall>t. scan_hex n acc (take n es @ t) = Done r t)"
  by (induction n acc es rule: scan_hex.induct) (auto split: option.splits)

lemma compact_hex:
  assumes "\<forall>c \<in> set h. hex_val c \<noteq> None"
  shows "compact_text True False (CHR 0x5C # CHR ''u'' # h @ t) =
    CHR 0x5C # CHR ''u'' # h @ compact_text True False t"
proof -
  have "c \<noteq> CHR 0xE2 \<and> \<not> html_char c \<and> c \<noteq> dquote \<and> c \<noteq> CHR 0x5C" if "hex_val c \<noteq> None" for c
    using that by (auto simp: hex_val_def html_char_def dquote_def less_eq_char_def split: if_splits)
  then have "compact_text True False (h @ t) = h @ compact_text True False t"
    using assms by (intro compact_many) blast
  then show ?thesis
    by (simp add: compact_ascii html_char_def dquote_def)
qed

lemma scan_str_u:
  assumes "scan_hex 4 0 es = Done n u"
  shows "scan_str (CHR 0x5C # CHR ''u'' # es) =
    (if 0xD800 \<le> n \<and> n < 0xDC00 then
       (case low_surrogate (drop 4 es) of
          Some m \<Rightarrow> scan_map (append (encode_rune ((n - 0xD800) * 1024 + (m - 0xDC00) + 0x10000)))
            (scan_str (drop 10 es))
        | None \<Rightarrow> scan_map (append rune_error) (scan_str (drop 4 es)))
     else scan_map (append (encode_rune n)) (scan_str (drop 4 es)))"
  using assms by (simp add: scan_str.simps(2) [of "CHR 0x5C"] dquote_def not_simple_u)

lemma low_surrogate_hex:
  assumes "scan_hex 4 0 es = Done n u"
  shows "low_surrogate (CHR 0x5C # CHR ''u'' # take 4 es @ t) = low_surrogate (CHR 0x5C # CHR ''u'' # es)"
  using scan_hex_split [OF assms] assms by (simp add: low_surrogate_def)

lemma image_hex:
  assumes h: "scan_hex 4 0 es = Done n u" and i: "str_image (drop 4 es) x r p q"
    and n: "\<not> (0xD800 \<le> n \<and> n < 0xDC00 \<and> low_surrogate (drop 4 es) \<noteq> None)"
  shows "str_image (CHR 0x5C # CHR ''u'' # es)
    ((if 0xD800 \<le> n \<and> n < 0xDC00 then rune_error else encode_rune n) @ x) r
    (CHR 0x5C # CHR ''u'' # take 4 es @ p) (CHR 0x5C # CHR ''u'' # take 4 es @ q)"
proof -
  note s = scan_hex_split [OF h]
  have d: "drop 4 (take 4 es @ t) = t" for t using s by simp
  have "es = take 4 es @ p @ r" using str_imageD(1) [OF i] by (metis append_take_drop_id)
  moreover have "scan_str (CHR 0x5C # CHR ''u'' # take 4 es @ q @ t) =
      Done ((if 0xD800 \<le> n \<and> n < 0xDC00 then rune_error else encode_rune n) @ x) t" for t
    using scan_str_u [of "take 4 es @ q @ t" n "q @ t"] s n str_imageD [OF i] d
    by (auto simp del: append_take_drop_id split: if_splits)
  ultimately show ?thesis
    using s str_imageD [OF i] low_surrogate_hex [OF h]
    by (simp add: str_image_def compact_hex not_cont del: append_take_drop_id)
qed

lemma low_surrogate_Some:
  assumes "low_surrogate s = Some m"
  shows "\<exists>es u. s = CHR 0x5C # CHR ''u'' # es \<and> scan_hex 4 0 es = Done m u \<and>
    (\<forall>t. low_surrogate (CHR 0x5C # CHR ''u'' # take 4 es @ t) = Some m)"
proof -
  have t: "take 2 s = [CHR 0x5C, CHR ''u'']"
    and h: "\<exists>u. scan_hex 4 0 (drop 2 s) = Done m u"
    using assms by (auto simp: low_surrogate_def split: if_splits scan.splits)
  then obtain es where s: "s = CHR 0x5C # CHR ''u'' # es"
    by (metis append_Cons append_Nil append_take_drop_id)
  with h obtain u where "scan_hex 4 0 es = Done m u" by auto
  then show ?thesis using s assms low_surrogate_hex by metis
qed

lemma image_pair:
  assumes h: "scan_hex 4 0 es = Done n u" "0xD800 \<le> n" "n < 0xDC00"
    and m: "low_surrogate (drop 4 es) = Some m" and i: "str_image (drop 10 es) x r p q"
  shows "\<exists>p q. str_image (CHR 0x5C # CHR ''u'' # es)
    (encode_rune ((n - 0xD800) * 1024 + (m - 0xDC00) + 0x10000) @ x) r p q"
proof -
  obtain fs v where f: "drop 4 es = CHR 0x5C # CHR ''u'' # fs" "scan_hex 4 0 fs = Done m v"
    "\<And>t. low_surrogate (CHR 0x5C # CHR ''u'' # take 4 fs @ t) = Some m"
    using low_surrogate_Some [OF m] by blast
  note s = scan_hex_split [OF h(1)] and s' = scan_hex_split [OF f(2)]
  have d10: "drop 10 es = drop 4 fs"
  proof -
    have "drop 10 es = drop 6 (drop 4 es)" by simp
    then show ?thesis unfolding f(1) by simp
  qed
  let ?g = "\<lambda>t. take 4 es @ CHR 0x5C # CHR ''u'' # take 4 fs @ t"
  have len: "length (take 4 es) = 4" "length (take 4 fs) = 4" using s s' by simp_all
  have d: "drop 4 (?g t) = CHR 0x5C # CHR ''u'' # take 4 fs @ t" "drop 10 (?g t) = t" for t
    using len by simp_all
  have "scan_str (CHR 0x5C # CHR ''u'' # ?g (q @ t)) =
      Done (encode_rune ((n - 0xD800) * 1024 + (m - 0xDC00) + 0x10000) @ x) t" for t
  proof -
    have "scan_hex 4 0 (?g (q @ t)) = Done n (CHR 0x5C # CHR ''u'' # take 4 fs @ q @ t)" using s by blast
    from scan_str_u [OF this] show ?thesis
      unfolding d using h(2,3) f(3) str_imageD(3) [OF i] by simp
  qed
  moreover have "es = ?g (p @ r)"
    using f(1) d10 str_imageD(1) [OF i] by (metis append_take_drop_id)
  ultimately have "str_image (CHR 0x5C # CHR ''u'' # es)
      (encode_rune ((n - 0xD800) * 1024 + (m - 0xDC00) + 0x10000) @ x) r
      (CHR 0x5C # CHR ''u'' # ?g p) (CHR 0x5C # CHR ''u'' # ?g q)"
    using s s' str_imageD [OF i] low_surrogate_hex [OF h(1)]
    by (simp add: str_image_def compact_hex not_cont del: append_take_drop_id)
  then show ?thesis by blast
qed

text \<open>How long the rune at the head is depends on the continuation bytes after its first.\<close>

lemma takeWhile_take: "takeWhile P (take n xs) = take n (takeWhile P xs)"
  by (induction xs arbitrary: n) (auto simp: take_Cons')

lemma second_ok_cont: "second_ok a b \<Longrightarrow> cont_byte b"
  by (auto simp: second_ok_def cont_byte_def less_eq_char_def split: if_splits)

lemma multi_len_cont:
  "multi_len (c # cs) = (case takeWhile cont_byte cs of
      [] \<Rightarrow> 0
    | b # bs \<Rightarrow> (if lead_len c = 0 \<or> \<not> second_ok c b then 0
        else if length (take (lead_len c - 2) bs) = lead_len c - 2 then lead_len c else 0))"
  using second_ok_cont [of c]
  by (auto simp: multi_len_def takeWhile_take split: list.splits)

lemma multi_len_cong: "takeWhile cont_byte xs = takeWhile cont_byte ys \<Longrightarrow> multi_len (c # xs) = multi_len (c # ys)"
  by (simp add: multi_len_cont)

lemma image_ill_formed:
  assumes i: "str_image cs x r p q" and c: "\<not> c < CHR 0x80" "multi_len (c # cs) = 0"
  shows "str_image (c # cs) (rune_error @ x) r (c # p) (c # q)"
proof -
  have n: "c \<noteq> dquote" "c \<noteq> CHR 0x5C" "\<not> c < CHR '' ''" "\<not> html_char c"
    using c by (auto simp: dquote_def html_char_def less_char_def)
  have m: "multi_len (c # q @ t) = 0" for t
    using multi_len_cong [OF str_imageD(5) [OF i]] c by simp
  have sep: "take 3 (c # p @ t) \<noteq> [CHR 0xE2, CHR 0x80, y]" if y: "cont_byte y" for t y
  proof
    assume "take 3 (c # p @ t) = [CHR 0xE2, CHR 0x80, y]"
    then obtain w where "c # p @ t = [CHR 0xE2, CHR 0x80, y] @ w" by (metis append_take_drop_id)
    then have "multi_len (c # p @ t) = 3"
      using y by (simp add: multi_len_def lead_len_def second_ok_def cont_byte_def less_eq_char_def)
    moreover have "multi_len (c # p @ t) = 0"
      using multi_len_cong [OF image_cont [OF i]] c by simp
    ultimately show False by simp
  qed
  have "cont_byte (CHR 0xA8)" "cont_byte (CHR 0xA9)"
    by (simp_all add: cont_byte_def less_eq_char_def)
  then have "compact_text True False (c # p @ t) = c # compact_text True False (p @ t)" for t
    using sep n by (simp add: compact_text.simps(2) html_char_def)
  moreover have "scan_str (c # q @ t) = Done (rune_error @ x) t" for t
    using m [of t] n c str_imageD(3) [OF i] by (simp add: scan_str.simps(2) [of c])
  ultimately show ?thesis
    using str_imageD [OF i] n by (simp add: str_image_def low_surrogate_plain)
qed

text \<open>A well-formed rune of several bytes.\<close>

lemma multi_len_bytes:
  assumes "multi_len (c # cs) \<noteq> 0"
  shows "take (multi_len (c # cs)) (c # cs) = c # take (multi_len (c # cs) - 1) cs"
    "\<forall>b \<in> set (take (multi_len (c # cs) - 1) cs). cont_byte b"
    "cs = take (multi_len (c # cs) - 1) cs @ drop (multi_len (c # cs) - 1) cs"
    "length (take (multi_len (c # cs) - 1) cs) = multi_len (c # cs) - 1"
proof -
  show "\<forall>b \<in> set (take (multi_len (c # cs) - 1) cs). cont_byte b"
  proof -
    let ?n = "multi_len (c # cs)"
    obtain b t where cs: "cs = b # t" and l: "?n = lead_len c" and so: "second_ok c b"
      and w: "length (takeWhile cont_byte (take (lead_len c - 2) t)) = lead_len c - 2"
      using assms by (auto simp: multi_len_def split: list.splits if_splits)
    have "2 \<le> ?n" using assms multi_len_cases [of "c # cs"] by simp
    then have tk: "take (?n - 1) cs = b # take (lead_len c - 2) t"
      using cs l by (simp add: take_Cons' numeral_2_eq_2)
    have "length (takeWhile cont_byte (take (lead_len c - 2) t)) = length (take (lead_len c - 2) t)"
      using w length_takeWhile_le [of cont_byte "take (lead_len c - 2) t"] by simp
    then have "list_all cont_byte (take (lead_len c - 2) t)" by (simp only: length_takeWhile_eq)
    then show ?thesis using tk second_ok_cont [OF so] by (simp add: list_all_iff)
  qed
qed (use assms multi_len_length [of "c # cs"] in \<open>simp_all add: take_Cons'\<close>)

lemma image_rune:
  assumes n: "multi_len (c # cs) \<noteq> 0" and i: "str_image (drop (multi_len (c # cs) - 1) cs) x r p q"
  shows "\<exists>p q. str_image (c # cs) (take (multi_len (c # cs)) (c # cs) @ x) r p q"
proof -
  let ?n = "multi_len (c # cs)"
  let ?u = "take (?n - 1) cs"
  note b = multi_len_bytes [OF n]
  have c: "c \<noteq> dquote" "c \<noteq> CHR 0x5C" "\<not> html_char c" "\<not> cont_byte c"
    using multi_len_lead [OF n] by (auto simp: dquote_def html_char_def less_eq_char_def cont_byte_def)
  have u: "\<forall>b \<in> set ?u. b \<noteq> CHR 0xE2 \<and> \<not> html_char b \<and> b \<noteq> dquote \<and> b \<noteq> CHR 0x5C"
    using b(2) by (auto simp: cont_byte_def html_char_def dquote_def less_eq_char_def)
  have cs: "c # cs = (c # ?u @ p) @ r" using b(3) unfolding str_imageD(1) [OF i] by simp
  note common = str_imageD [OF i] cs c low_surrogate_plain [OF c(2)]
  consider y where "y = CHR 0xA8 \<or> y = CHR 0xA9" "take 3 (c # cs) = [CHR 0xE2, CHR 0x80, y]"
    | "take 3 (c # cs) \<noteq> [CHR 0xE2, CHR 0x80, CHR 0xA8]" "take 3 (c # cs) \<noteq> [CHR 0xE2, CHR 0x80, CHR 0xA9]"
    by blast
  then show ?thesis
  proof cases
    case 1
    then have n3: "?n = 3" using separator_len n by blast
    then have cu: "c # ?u = [CHR 0xE2, CHR 0x80, y]" using 1 b(1) by simp
    have hd: "c # ?u @ w = [CHR 0xE2, CHR 0x80, y] @ w" for w using cu by (metis append_Cons)
    define h where "h = CHR 0x5C # (if y = CHR 0xA8 then ''u2028'' else ''u2029'')"
    have "compact_text True False (c # ?u @ p @ t) = h @ compact_text True False (p @ t)" for t
      using 1(1) unfolding hd by (auto simp: compact_text.simps(2) h_def)
    moreover have "scan_str (h @ q @ t) = Done ((c # ?u) @ x) t" for t
      using 1(1) scan_str_fixed(2,3) [of "q @ t"] str_imageD(3) [OF i] unfolding cu by (auto simp: h_def)
    moreover have "low_surrogate (h @ t) = None" for t
      using 1(1) scan_hex_fixed(2,3) [of t] by (auto simp: h_def low_surrogate_def)
    ultimately have "str_image (c # cs) (take ?n (c # cs) @ x) r (c # ?u @ p) (h @ q)"
      using common not_cont(2) b(1) by (simp add: str_image_def h_def)
    then show ?thesis by blast
  next
    case 2
    have "take 3 (c # ?u @ w) \<noteq> [CHR 0xE2, CHR 0x80, y]" if "y = CHR 0xA8 \<or> y = CHR 0xA9" for w y
    proof
      assume a: "take 3 (c # ?u @ w) = [CHR 0xE2, CHR 0x80, y]"
      then have "c = CHR 0xE2" by simp
      then have "?n = 3" using n by (auto simp: multi_len_cont lead_len_def less_eq_char_def split: list.splits if_splits)
      then have "take 3 (c # ?u @ w) = take 3 (c # cs)" using b(1,4) by simp
      with a 2 that show False by auto
    qed
    then have "compact_text True False (c # ?u @ t) = c # ?u @ compact_text True False t" for t
      using c compact_many [OF u] by (simp add: compact_text.simps(2) html_char_def)
    moreover have "scan_str (c # ?u @ q @ t) = Done ((c # ?u) @ x) t" for t
      using scan_str_rune [OF n, of "q @ t"] str_imageD(3) [OF i] b(1) by simp
    ultimately have "str_image (c # cs) (take ?n (c # cs) @ x) r (c # ?u @ p) (c # ?u @ q)"
      using common b(1) by (simp add: str_image_def low_surrogate_plain)
    then show ?thesis by blast
  qed
qed

lemma compact_str:
  assumes "scan_str s = Done x r"
  shows "\<exists>p q. str_image s x r p q"
  using assms
proof (induction s arbitrary: x r rule: length_induct)
  case (1 s)
  then obtain c cs where s: "s = c # cs" by (cases s) auto
  have IH: "\<exists>p q. str_image ys y r p q" if "length ys \<le> length cs" "scan_str ys = Done y r" for ys y
    using "1.IH" that s by simp
  note sc = "1.prems" [unfolded s]
  consider "c = dquote" | "c = CHR 0x5C" | "c \<noteq> dquote" "c \<noteq> CHR 0x5C" by blast
  then show ?case
  proof cases
    case 1
    then show ?thesis using sc s image_close by (auto simp: scan_str.simps(2))
  next
    case 2
    then have nd: "c \<noteq> dquote" by (simp add: dquote_def)
    obtain e es where cs: "cs = e # es" using sc 2 nd by (cases cs) (auto simp: scan_str.simps(2))
    show ?thesis
    proof (cases "simple_escape e")
      case (Some d)
      obtain y where "scan_str es = Done y r" "x = d # y"
        using sc 2 cs scan_str_simple_escape [OF Some] by (auto simp: scan_map_Done)
      with IH [of es] image_simple [OF _ Some] 2 cs s show ?thesis by fastforce
    next
      case None
      then have e: "e = CHR ''u''" using sc 2 nd cs by (auto simp: scan_str.simps(2) split: if_splits)
      obtain n u where h: "scan_hex 4 0 es = Done n u"
        using sc 2 nd cs None e by (auto simp: scan_str.simps(2) split: scan.splits)
      note sc' = sc [unfolded 2 cs e scan_str_u [OF h]]
      have len: "length (drop k es) \<le> length cs" for k using cs by simp
      show ?thesis
      proof (cases "0xD800 \<le> n \<and> n < 0xDC00 \<and> low_surrogate (drop 4 es) \<noteq> None")
        case True
        then obtain m where m: "low_surrogate (drop 4 es) = Some m" by blast
        obtain y where "scan_str (drop 10 es) = Done y r"
          "x = encode_rune ((n - 0xD800) * 1024 + (m - 0xDC00) + 0x10000) @ y"
          using sc' True m by (auto simp: scan_map_Done)
        then show ?thesis
          using IH [OF len] image_pair [OF h _ _ m] True e 2 cs s by blast
      next
        case False
        obtain y where "scan_str (drop 4 es) = Done y r"
          "x = (if 0xD800 \<le> n \<and> n < 0xDC00 then rune_error else encode_rune n) @ y"
          using sc' False by (auto simp: scan_map_Done split: if_splits)
        then show ?thesis
          using IH [OF len] image_hex [OF h _ False] e 2 cs s by blast
      qed
    qed
  next
    case 3
    then have ge: "\<not> c < CHR '' ''" using sc by (auto simp: scan_str.simps(2) split: if_splits)
    consider "c < CHR 0x80" | "\<not> c < CHR 0x80" "multi_len (c # cs) = 0" | "\<not> c < CHR 0x80" "multi_len (c # cs) \<noteq> 0"
      by blast
    then show ?thesis
    proof cases
      case 1
      obtain y where "scan_str cs = Done y r" "x = c # y"
        using sc 3 ge 1 by (auto simp: scan_str.simps(2) scan_map_Done)
      with IH [of cs] image_plain [OF _ 3 ge 1] s show ?thesis by blast
    next
      case ill: 2
      obtain y where "scan_str cs = Done y r" "x = rune_error @ y"
        using sc 3 ge ill by (auto simp: scan_str.simps(2) scan_map_Done)
      with IH [of cs] image_ill_formed [OF _ ill] s show ?thesis by blast
    next
      case rune: 3
      obtain y where y: "scan_str (drop (multi_len (c # cs) - 1) cs) = Done y r"
        "x = take (multi_len (c # cs)) (c # cs) @ y"
        using sc 3 ge rune by (auto simp: scan_str.simps(2) scan_map_Done)
      have "length (drop (multi_len (c # cs) - 1) cs) \<le> length cs" by simp
      with y IH image_rune [OF rune(2)] s show ?thesis by blast
    qed
  qed
qed

section \<open>Numbers and literals\<close>

definition num_char :: "char \<Rightarrow> bool" where
  "num_char c = (is_digit c \<or> c \<in> {CHR ''.'', CHR ''e'', CHR ''E'', CHR ''+'', CHR ''-''})"

definition ends_number :: "string \<Rightarrow> bool" where
  "ends_number t = (t = [] \<or> \<not> num_char (hd t))"

definition ends_digits :: "string \<Rightarrow> bool" where
  "ends_digits t = (t = [] \<or> \<not> is_digit (hd t))"

lemma ends_number_digits: "ends_number t \<Longrightarrow> ends_digits t"
  by (auto simp: ends_number_def ends_digits_def num_char_def)

lemma dropWhile_digits: "\<forall>c \<in> set p. is_digit c \<Longrightarrow> ends_digits t \<Longrightarrow> dropWhile is_digit (p @ t) = t"
  by (cases t) (simp_all add: dropWhile_append2 ends_digits_def)

lemma digits_prefix: "\<forall>c \<in> set (takeWhile is_digit s). is_digit c"
  by (auto dest: set_takeWhileD)

lemma digits_split:
  assumes "scan_digits s = Done x r"
  shows "\<exists>p. s = p @ r \<and> p \<noteq> [] \<and> (\<forall>c \<in> set p. num_char c) \<and>
    (\<forall>t. ends_digits t \<longrightarrow> scan_digits (p @ t) = Done x t) \<and> is_digit (hd p)"
proof -
  obtain c cs where s: "s = c # cs" "is_digit c" "r = dropWhile is_digit cs"
    using assms by (auto simp: scan_digits_def split: list.splits if_splits)
  let ?p = "c # takeWhile is_digit cs"
  have "\<forall>t. ends_digits t \<longrightarrow> scan_digits (?p @ t) = Done x t"
    using s dropWhile_digits [OF digits_prefix] by (simp add: scan_digits_def)
  moreover have "\<forall>c \<in> set ?p. num_char c" using s digits_prefix by (auto simp: num_char_def)
  ultimately show ?thesis using s by (intro exI [of _ ?p]) simp
qed

lemma exponent_split:
  assumes "scan_exponent s = Done x r"
  shows "\<exists>p. s = p @ r \<and> (\<forall>c \<in> set p. num_char c) \<and>
    (\<forall>t. ends_number t \<longrightarrow> scan_exponent (p @ t) = Done x t) \<and>
    (p = [] \<or> hd p = CHR ''e'' \<or> hd p = CHR ''E'')"
proof (cases "s \<noteq> [] \<and> (hd s = CHR ''e'' \<or> hd s = CHR ''E'')")
  case True
  then obtain e d ds where s: "s = e # d # ds" "e = CHR ''e'' \<or> e = CHR ''E''"
    using assms by (cases s; cases "tl s") (auto simp: scan_exponent_def)
  then have "scan_digits (if d = CHR ''+'' \<or> d = CHR ''-'' then ds else d # ds) = Done x r"
    using assms by (auto simp: scan_exponent_def)
  from digits_split [OF this] obtain p where p: "(if d = CHR ''+'' \<or> d = CHR ''-'' then ds else d # ds) = p @ r"
    "p \<noteq> []" "\<forall>c \<in> set p. num_char c" "\<And>t. ends_number t \<Longrightarrow> scan_digits (p @ t) = Done x t" "is_digit (hd p)"
    using ends_number_digits by blast
  let ?q = "e # (if d = CHR ''+'' \<or> d = CHR ''-'' then d # p else p)"
  have "scan_exponent (?q @ t) = Done x t" if "ends_number t" for t
    using s p that by (cases p) (auto simp: scan_exponent_def split: if_splits)
  moreover have "\<forall>c \<in> set ?q. num_char c" using s p by (auto simp: num_char_def)
  moreover have "s = ?q @ r" using s p by (auto split: if_splits)
  ultimately show ?thesis using s by (intro exI [of _ ?q]) auto
next
  case False
  then have "r = s" using assms by (cases s) (auto simp: scan_exponent_def)
  moreover have "scan_exponent t = Done x t" if "ends_number t" for t
    using that by (cases t) (auto simp: scan_exponent_def ends_number_def num_char_def)
  ultimately show ?thesis by (intro exI [of _ "[]"]) simp
qed

lemma fraction_split:
  assumes "scan_fraction s = Done x r"
  shows "\<exists>p. s = p @ r \<and> (\<forall>c \<in> set p. num_char c) \<and>
    (\<forall>t. ends_number t \<longrightarrow> scan_fraction (p @ t) = Done x t) \<and>
    (p = [] \<or> \<not> is_digit (hd p))"
proof (cases "s \<noteq> [] \<and> hd s = CHR ''.''")
  case True
  then obtain cs y u where s: "s = CHR ''.'' # cs" "scan_digits cs = Done y u" "scan_exponent u = Done x r"
    using assms by (cases s) (auto simp: scan_fraction_def split: scan.splits)
  obtain p where p: "cs = p @ u" "p \<noteq> []" "\<forall>c \<in> set p. num_char c"
    "\<And>t. ends_digits t \<Longrightarrow> scan_digits (p @ t) = Done y t"
    using digits_split [OF s(2)] by blast
  obtain e where e: "u = e @ r" "\<forall>c \<in> set e. num_char c"
    "\<And>t. ends_number t \<Longrightarrow> scan_exponent (e @ t) = Done x t" "e = [] \<or> hd e = CHR ''e'' \<or> hd e = CHR ''E''"
    using exponent_split [OF s(3)] by blast
  have "scan_fraction ((CHR ''.'' # p @ e) @ t) = Done x t" if "ends_number t" for t
  proof -
    have "ends_digits (e @ t)"
      using e(4) that by (cases e) (auto simp: ends_number_digits, auto simp: ends_digits_def is_digit_def)
    then show ?thesis using p(4) e(3) [OF that] by (simp add: scan_fraction_def)
  qed
  then show ?thesis using s p e by (intro exI [of _ "CHR ''.'' # p @ e"]) (auto simp: num_char_def is_digit_def)
next
  case False
  have x: "scan_exponent s = Done x r"
    using assms False by (cases s) (auto simp: scan_fraction_def scan_exponent_def)
  obtain e where e: "s = e @ r" "\<forall>c \<in> set e. num_char c"
    "\<And>t. ends_number t \<Longrightarrow> scan_exponent (e @ t) = Done x t" "e = [] \<or> hd e = CHR ''e'' \<or> hd e = CHR ''E''"
    using exponent_split [OF x] by blast
  have "scan_fraction (e @ t) = Done x t" if "ends_number t" for t
    using e(3) [OF that] e(4) that
    by (cases "e @ t") (auto simp: scan_fraction_def scan_exponent_def ends_number_def num_char_def hd_append
        split: if_splits)
  then show ?thesis using e by (intro exI [of _ e]) (auto simp: is_digit_def)
qed

lemma number_split:
  assumes "scan_number s = Done x r"
  shows "\<exists>p. s = p @ r \<and> p \<noteq> [] \<and> (\<forall>c \<in> set p. num_char c) \<and>
    (\<forall>t. ends_number t \<longrightarrow> scan_number (p @ t) = Done x t)"
proof -
  define sign where "sign = (if take 1 s = ''-'' then ''-'' else [])"
  obtain c cs where s: "s = sign @ c # cs" and d: "is_digit c"
    and f: "scan_fraction (if c = CHR ''0'' then cs else dropWhile is_digit cs) = Done x r"
    using assms by (cases s) (auto simp: scan_number_def sign_def is_digit_def Let_def split: list.splits if_splits)
  obtain p where p: "(if c = CHR ''0'' then cs else dropWhile is_digit cs) = p @ r" "\<forall>c \<in> set p. num_char c"
    "\<And>t. ends_number t \<Longrightarrow> scan_fraction (p @ t) = Done x t" "p = [] \<or> \<not> is_digit (hd p)"
    using fraction_split [OF f] by blast
  define ds where "ds = (if c = CHR ''0'' then [] else takeWhile is_digit cs)"
  have cs: "cs = ds @ p @ r"
    using p(1) takeWhile_dropWhile_id [of is_digit cs] unfolding ds_def by (metis (full_types) append_Nil)
  have ds: "\<forall>c \<in> set ds. is_digit c" using digits_prefix by (simp add: ds_def)
  have "scan_number ((sign @ c # ds @ p) @ t) = Done x t" if "ends_number t" for t
  proof -
    have "ends_digits (p @ t)"
      using p(4) ends_number_digits [OF that] by (cases p) (auto simp: ends_digits_def)
    then have "dropWhile is_digit (ds @ p @ t) = p @ t" by (rule dropWhile_digits [OF ds])
    then show ?thesis
      using p(3) [OF that] d by (auto simp: scan_number_def sign_def ds_def is_digit_def)
  qed
  moreover have "\<forall>b \<in> set (sign @ c # ds @ p). num_char b"
    using d ds p(2) by (auto simp: sign_def num_char_def)
  ultimately show ?thesis using s cs by (intro exI [of _ "sign @ c # ds @ p"]) simp
qed

lemma lit_split: "scan_lit e s = Done x r \<Longrightarrow> s = e @ r"
  by (induction e s rule: scan_lit.induct) (auto split: if_splits)

lemma scan_lit_append: "scan_lit e (e @ t) = Done () t"
  by (induction e) auto

section \<open>Values\<close>

text \<open>The value that the compacted text has: the raw text of every member is compacted.\<close>

fun compact_json :: "json \<Rightarrow> json" where
  "compact_json (JArr vs) = JArr (map compact_json vs)"
| "compact_json (JObj ms) = JObj (map (\<lambda>(k, raw, v). (k, compact_text False False raw, compact_json v)) ms)"
| "compact_json v = v"

fun nesting :: "json \<Rightarrow> nat" where
  "nesting (JArr vs) = Suc (foldr max (map nesting vs) 0)"
| "nesting (JObj ms) = Suc (foldr max (map (\<lambda>(k, raw, v). nesting v) ms) 0)"
| "nesting v = 0"

definition compacts :: "string \<Rightarrow> string \<Rightarrow> bool" where
  "compacts p q \<longleftrightarrow> (\<forall>t. compact_text False False (p @ t) = q @ compact_text False False t)"

definition plain_char :: "char \<Rightarrow> bool" where
  "plain_char c = (c \<noteq> CHR 0xE2 \<and> \<not> html_char c \<and> c \<noteq> dquote \<and> \<not> is_space c)"

lemma compactsD: "compacts p q \<Longrightarrow> compact_text False False (p @ t) = q @ compact_text False False t"
  by (simp add: compacts_def)

lemma compacts_self: "compacts p q \<Longrightarrow> compact_text False False p = q"
  using compactsD [of p q "[]"] by simp

lemma compacts_Nil: "compacts [] []"
  by (simp add: compacts_def)

lemma compacts_append: "compacts p q \<Longrightarrow> compacts p' q' \<Longrightarrow> compacts (p @ p') (q @ q')"
  by (simp add: compacts_def)

lemma compacts_plain: "plain_char c \<Longrightarrow> compacts p q \<Longrightarrow> compacts (c # p) (c # q)"
  by (simp add: compacts_def compact_ascii plain_char_def)

lemma compacts_plains: "\<forall>c \<in> set p. plain_char c \<Longrightarrow> compacts p p"
  by (induction p) (simp_all add: compacts_Nil compacts_plain)

lemma compacts_spaces: "\<forall>c \<in> set w. is_space c \<Longrightarrow> compacts p q \<Longrightarrow> compacts (w @ p) q"
proof (induction w)
  case (Cons c w)
  then have "c \<noteq> CHR 0xE2" "\<not> html_char c" by (auto simp: is_space_def html_char_def)
  with Cons show ?case by (simp add: compacts_def compact_ascii)
qed simp

lemma compacts_str:
  assumes "str_image cs x r p q"
  shows "compacts (dquote # p) (dquote # q)"
proof -
  have "dquote \<noteq> CHR 0xE2" "\<not> html_char dquote" by (auto simp: dquote_def html_char_def)
  then show ?thesis using str_imageD(2) [OF assms] by (simp add: compacts_def compact_ascii)
qed

lemma skip_ws_split: "\<exists>w. s = w @ skip_ws s \<and> (\<forall>c \<in> set w. is_space c)"
  unfolding skip_ws_def by (intro exI [of _ "takeWhile is_space s"]) (auto dest: set_takeWhileD)

lemma plain_chars:
  "num_char c \<Longrightarrow> plain_char c" "plain_char (CHR '','')" "plain_char (CHR '':'')" "plain_char (CHR ''{'')"
  "plain_char (CHR ''}'')" "plain_char (CHR ''['')" "plain_char (CHR '']'')"
  "\<forall>c \<in> set ''null''. plain_char c" "\<forall>c \<in> set ''true''. plain_char c" "\<forall>c \<in> set ''false''. plain_char c"
  by (auto simp: plain_char_def num_char_def is_digit_def html_char_def dquote_def is_space_def less_eq_char_def)

definition starts :: "string \<Rightarrow> bool" where
  "starts q = (q \<noteq> [] \<and> \<not> is_space (hd q))"

lemma skip_ws_starts: "starts q \<Longrightarrow> skip_ws (q @ t) = q @ t"
  by (cases q) (simp_all add: starts_def skip_ws_Cons)

text \<open>What compaction does to the text a scanner consumes.\<close>

definition value_image :: "nat \<Rightarrow> string \<Rightarrow> json \<Rightarrow> string \<Rightarrow> string \<Rightarrow> string \<Rightarrow> bool" where
  "value_image f s v r p q \<longleftrightarrow> s = p @ r \<and> starts q \<and> compacts p q \<and> hd q \<noteq> CHR '']'' \<and>
     (\<forall>d t. d + nesting v \<le> max_nesting \<longrightarrow> ends_number t \<longrightarrow> scan_value f d (q @ t) = Done (compact_json v) t)"

definition elems_image :: "nat \<Rightarrow> string \<Rightarrow> json list \<Rightarrow> string \<Rightarrow> string \<Rightarrow> string \<Rightarrow> bool" where
  "elems_image f s vs r p q \<longleftrightarrow> s = p @ r \<and> starts q \<and> compacts p q \<and> hd q \<noteq> CHR '']'' \<and>
     (\<forall>d t. d + foldr max (map nesting vs) 0 \<le> max_nesting \<longrightarrow> scan_elems f d (q @ t) = Done (map compact_json vs) t)"

definition members_image :: "nat \<Rightarrow> string \<Rightarrow> (bytes \<times> string \<times> json) list \<Rightarrow> string \<Rightarrow> string \<Rightarrow> string \<Rightarrow> bool" where
  "members_image f s ms r p q \<longleftrightarrow> s = p @ r \<and> starts q \<and> compacts p q \<and> hd q = dquote \<and>
     (\<forall>d t. d + foldr max (map (\<lambda>(k, raw, v). nesting v) ms) 0 \<le> max_nesting \<longrightarrow>
        scan_members f d (q @ t) = Done (map (\<lambda>(k, raw, v). (k, compact_text False False raw, compact_json v)) ms) t)"

lemma simple_value_image:
  assumes "s = p @ r" "starts p" "compacts p q" "q \<noteq> []" "hd q = hd p" "hd q \<noteq> CHR '']''" "nesting v = 0" "compact_json v = v"
    and "\<And>d t. ends_number t \<Longrightarrow> scan_value f d (q @ t) = Done v t"
  shows "value_image f s v r p q"
  using assms by (simp add: value_image_def starts_def)

lemma dquote_not_brace: "dquote \<noteq> CHR ''}''"
  by (simp add: dquote_def)

lemma value_image_step:
  assumes IHe: "\<And>d s vs r. scan_elems f d s = Done vs r \<Longrightarrow> \<exists>p q. elems_image f s vs r p q"
    and IHm: "\<And>d s ms r. scan_members f d s = Done ms r \<Longrightarrow> \<exists>p q. members_image f s ms r p q"
    and v: "scan_value (Suc f) d s = Done v r"
  shows "\<exists>p q. value_image (Suc f) s v r p q"
proof -
  obtain c cs where s: "s = c # cs" using v by (cases s) (auto simp: scan_value.simps(2))
  note sv = v [unfolded s scan_value.simps(2) next_char.simps scan_bind.simps]
  have nd: "CHR ''{'' \<noteq> dquote" "CHR ''['' \<noteq> dquote" by (simp_all add: dquote_def)
  have literal: "\<exists>p q. value_image (Suc f) s v r p q"
    if l: "scan_lit (tl e) cs = Done () r" "c = hd e" and e: "e \<in> {''null'', ''true'', ''false''}"
      and w: "\<And>d t. scan_value (Suc f) d (e @ t) = Done v t" and n: "nesting v = 0" "compact_json v = v" for e
  proof -
    have "s = e @ r" using s l(2) lit_split [OF l(1)] e by auto
    moreover have "compacts e e" using plain_chars(8-10) e by (intro compacts_plains) blast
    ultimately show ?thesis using w n e
      by (intro exI simple_value_image) (auto simp: starts_def is_space_def)
  qed
  consider (str) "c = dquote" | (obj) "c = CHR ''{''" | (arr) "c = CHR ''[''"
    | (lit) "c \<noteq> dquote" "c \<in> {CHR ''n'', CHR ''t'', CHR ''f''}"
    | (num) "c \<noteq> dquote" "c \<notin> {CHR ''{'', CHR ''['', CHR ''n'', CHR ''t'', CHR ''f''}"
    by (auto simp: dquote_def)
  then show ?thesis
  proof cases
    case str
    obtain x where x: "scan_str cs = Done x r" "v = JStr x" using sv str by (auto simp: scan_map_Done)
    from compact_str [OF x(1)] obtain p q where i: "str_image cs x r p q" by blast
    have "scan_value (Suc f) d (dquote # q @ t) = Done v t" for d t
      using str_imageD(3) [OF i] x(2) by (simp add: scan_value.simps(2))
    then have "value_image (Suc f) s v r (dquote # p) (dquote # q)"
      using s str x str_imageD(1) [OF i] compacts_str [OF i]
      by (intro simple_value_image) (simp_all add: starts_def, simp add: dquote_def)
    then show ?thesis by blast
  next
    case obj
    obtain w e es where w: "cs = w @ e # es" "\<forall>c \<in> set w. is_space c" "skip_ws cs = e # es"
      using sv obj nd skip_ws_split [of cs] by (auto simp: scan_bind_Done next_char_Done split: if_splits)
    show ?thesis
    proof (cases "e = CHR ''}''")
      case True
      have "compacts (CHR ''{'' # w @ [e]) [CHR ''{'', CHR ''}'']"
        unfolding True using w(2) plain_chars(4,5) by (intro compacts_plain compacts_spaces compacts_Nil) simp_all
      moreover have "r = es" "v = JObj []" using sv obj nd w True by (auto split: if_splits)
      ultimately have "value_image (Suc f) s v r (CHR ''{'' # w @ [e]) [CHR ''{'', CHR ''}'']"
        using s obj w True nd
        by (auto simp: value_image_def starts_def is_space_def scan_value.simps(2) skip_ws_Cons max_nesting_def)
      then show ?thesis by blast
    next
      case False
      obtain ms where ms: "scan_members f (Suc d) (e # es) = Done ms r" "v = JObj ms"
        using sv obj nd w False by (auto simp: scan_map_Done split: if_splits)
      from IHm [OF ms(1)] obtain p q where i: "members_image f (e # es) ms r p q" by blast
      then have q: "e # es = p @ r" "starts q" "compacts p q" "hd q = dquote"
        "\<And>d t. d + foldr max (map (\<lambda>(k, raw, v). nesting v) ms) 0 \<le> max_nesting \<Longrightarrow> scan_members f d (q @ t) =
          Done (map (\<lambda>(k, raw, v). (k, compact_text False False raw, compact_json v)) ms) t"
        by (simp_all add: members_image_def)
      have "compacts (CHR ''{'' # w @ p) (CHR ''{'' # q)"
        using w(2) plain_chars(4) q(3) by (intro compacts_plain compacts_spaces) simp_all
      moreover have "scan_value (Suc f) d (CHR ''{'' # q @ t) = Done (compact_json v) t" if "d + nesting v \<le> max_nesting" for d t
      proof -
        obtain q' where q': "q = dquote # q'" using q(2,4) by (cases q) (auto simp: starts_def)
        have "Suc d + foldr max (map (\<lambda>(k, raw, v). nesting v) ms) 0 \<le> max_nesting" using that ms(2) by simp
        from q(5) [OF this, of t] show ?thesis
          using that ms(2) nd q' dquote_not_brace by (simp add: scan_value.simps(2) skip_ws_Cons)
      qed
      ultimately have "value_image (Suc f) s v r (CHR ''{'' # w @ p) (CHR ''{'' # q)"
        using s obj w q(1) by (simp add: value_image_def starts_def is_space_def)
      then show ?thesis by blast
    qed
  next
    case arr
    obtain w e es where w: "cs = w @ e # es" "\<forall>c \<in> set w. is_space c" "skip_ws cs = e # es"
      using sv arr nd skip_ws_split [of cs] by (auto simp: scan_bind_Done next_char_Done split: if_splits)
    show ?thesis
    proof (cases "e = CHR '']''")
      case True
      have "compacts (CHR ''['' # w @ [e]) [CHR ''['', CHR '']'']"
        unfolding True using w(2) plain_chars(6,7) by (intro compacts_plain compacts_spaces compacts_Nil) simp_all
      moreover have "r = es" "v = JArr []" using sv arr nd w True by (auto split: if_splits)
      ultimately have "value_image (Suc f) s v r (CHR ''['' # w @ [e]) [CHR ''['', CHR '']'']"
        using s arr w True nd
        by (auto simp: value_image_def starts_def is_space_def scan_value.simps(2) skip_ws_Cons max_nesting_def)
      then show ?thesis by blast
    next
      case False
      obtain vs where vs: "scan_elems f (Suc d) (e # es) = Done vs r" "v = JArr vs"
        using sv arr nd w False by (auto simp: scan_map_Done split: if_splits)
      from IHe [OF vs(1)] obtain p q where i: "elems_image f (e # es) vs r p q" by blast
      then have q: "e # es = p @ r" "starts q" "compacts p q" "hd q \<noteq> CHR '']''"
        "\<And>d t. d + foldr max (map nesting vs) 0 \<le> max_nesting \<Longrightarrow> scan_elems f d (q @ t) = Done (map compact_json vs) t"
        by (simp_all add: elems_image_def)
      have "compacts (CHR ''['' # w @ p) (CHR ''['' # q)"
        using w(2) plain_chars(6) q(3) by (intro compacts_plain compacts_spaces) simp_all
      moreover have "scan_value (Suc f) d (CHR ''['' # q @ t) = Done (compact_json v) t" if "d + nesting v \<le> max_nesting" for d t
      proof -
        obtain b q' where q': "q = b # q'" "\<not> is_space b" "b \<noteq> CHR '']''"
          using q(2,4) by (cases q) (auto simp: starts_def)
        have "Suc d + foldr max (map nesting vs) 0 \<le> max_nesting" using that vs(2) by simp
        from q(5) [OF this, of t] show ?thesis
          using that vs(2) nd q' by (simp add: scan_value.simps(2) skip_ws_Cons)
      qed
      ultimately have "value_image (Suc f) s v r (CHR ''['' # w @ p) (CHR ''['' # q)"
        using s arr w q(1) by (simp add: value_image_def starts_def is_space_def)
      then show ?thesis by blast
    qed
  next
    case lit
    then consider "c = CHR ''n''" | "c = CHR ''t''" | "c = CHR ''f''" by blast
    then show ?thesis
    proof cases
      case 1
      then have "scan_lit ''ull'' cs = Done () r" "v = JNull" using sv nd by (auto simp: scan_map_Done dquote_def)
      then show ?thesis using 1 by (intro literal [where e = "''null''"]) (simp_all add: scan_value.simps(2) dquote_def)
    next
      case 2
      then have "scan_lit ''rue'' cs = Done () r" "v = JBool True" using sv nd by (auto simp: scan_map_Done dquote_def)
      then show ?thesis using 2 by (intro literal [where e = "''true''"]) (simp_all add: scan_value.simps(2) dquote_def)
    next
      case 3
      then have "scan_lit ''alse'' cs = Done () r" "v = JBool False" using sv nd by (auto simp: scan_map_Done dquote_def)
      then show ?thesis using 3 by (intro literal [where e = "''false''"]) (simp_all add: scan_value.simps(2) dquote_def)
    qed
  next
    case num
    then have c: "c = CHR ''-'' \<or> is_digit c" and n: "scan_number (c # cs) = Done () r"
      and vj: "v = JNum (consumed (c # cs) r)"
      using sv by (auto simp: scan_bind_Done split: if_splits)
    from number_split [OF n] obtain p where p: "c # cs = p @ r" "p \<noteq> []" "\<forall>c \<in> set p. num_char c"
      "\<And>t. ends_number t \<Longrightarrow> scan_number (p @ t) = Done () t" by blast
    obtain p' where p': "p = c # p'" using p(1,2) by (cases p) auto
    have vp: "v = JNum p" using vj p(1) by simp
    have "scan_value (Suc f) d (p @ t) = Done v t" if "ends_number t" for d t
    proof -
      have "next_char (p @ t) = Done c (p' @ t)" using p' by simp
      then show ?thesis using p(4) [OF that] num c vp by (auto simp: scan_value.simps(2))
    qed
    then have "value_image (Suc f) s v r p p"
      using s p vp p' plain_chars(1) c
      by (intro simple_value_image compacts_plains) (auto simp: starts_def is_space_def is_digit_def)
    then show ?thesis by blast
  qed
qed

lemma ends_number_punct: "c \<in> {CHR '','', CHR '']'', CHR ''}''} \<Longrightarrow> ends_number (c # t)"
  by (auto simp: ends_number_def num_char_def is_digit_def)

lemma elems_image_step:
  assumes IHv: "\<And>d s v r. scan_value f d s = Done v r \<Longrightarrow> \<exists>p q. value_image f s v r p q"
    and IHe: "\<And>d s vs r. scan_elems f d s = Done vs r \<Longrightarrow> \<exists>p q. elems_image f s vs r p q"
    and e: "scan_elems (Suc f) d s = Done vs r"
  shows "\<exists>p q. elems_image (Suc f) s vs r p q"
proof -
  obtain v r1 c cs where v: "scan_value f d s = Done v r1" and c: "skip_ws r1 = c # cs"
    and k: "(if c = CHR '','' then scan_map (Cons v) (scan_elems f d (skip_ws cs))
      else if c = CHR '']'' then Done [v] cs else Bad) = Done vs r"
    using e by (auto simp: scan_elems.simps(2) scan_bind_Done next_char_Done)
  from IHv [OF v] obtain p q where q: "s = p @ r1" "starts q" "compacts p q" "hd q \<noteq> CHR '']''"
    "\<And>d t. d + nesting v \<le> max_nesting \<Longrightarrow> ends_number t \<Longrightarrow> scan_value f d (q @ t) = Done (compact_json v) t"
    unfolding value_image_def by blast
  obtain w where w: "r1 = w @ c # cs" "\<forall>c \<in> set w. is_space c" using skip_ws_split [of r1] c by auto
  show ?thesis
  proof (cases "c = CHR '','' ")
    case True
    then obtain us where us: "scan_elems f d (skip_ws cs) = Done us r" "vs = v # us"
      using k by (auto simp: scan_map_Done)
    from IHe [OF us(1)] obtain p2 q2 where q2: "skip_ws cs = p2 @ r" "starts q2" "compacts p2 q2"
      "\<And>d t. d + foldr max (map nesting us) 0 \<le> max_nesting \<Longrightarrow> scan_elems f d (q2 @ t) = Done (map compact_json us) t"
      unfolding elems_image_def by blast
    obtain w2 where w2: "cs = w2 @ p2 @ r" "\<forall>c \<in> set w2. is_space c" using skip_ws_split [of cs] q2(1) by auto
    have "compacts (w @ CHR '','' # w2 @ p2) (CHR '','' # q2)"
      using w(2) w2(2) plain_chars(2) q2(3) by (intro compacts_plain compacts_spaces) simp_all
    then have "compacts (p @ w @ CHR '','' # w2 @ p2) (q @ CHR '','' # q2)" by (rule compacts_append [OF q(3)])
    moreover have "scan_elems (Suc f) d (q @ CHR '','' # q2 @ t) = Done (map compact_json vs) t"
      if "d + foldr max (map nesting vs) 0 \<le> max_nesting" for d t
    proof -
      have "scan_value f d (q @ CHR '','' # q2 @ t) = Done (compact_json v) (CHR '','' # q2 @ t)"
        using that us(2) ends_number_punct by (intro q(5)) auto
      then show ?thesis
        using q2(4) [of d t] that us(2) skip_ws_starts [OF q2(2)]
        by (simp add: scan_elems.simps(2) skip_ws_Cons)
    qed
    ultimately have "elems_image (Suc f) s vs r (p @ w @ CHR '','' # w2 @ p2) (q @ CHR '','' # q2)"
      using q(1,2,4) w w2 True by (simp add: elems_image_def starts_def)
    then show ?thesis by blast
  next
    case False
    then have c: "c = CHR '']''" and vs: "vs = [v]" "r = cs" using k by (auto split: if_splits)
    have "compacts (w @ [CHR '']'']) [CHR '']'']"
      using w(2) plain_chars(7) by (intro compacts_plain compacts_spaces compacts_Nil) simp_all
    then have "compacts (p @ w @ [CHR '']'']) (q @ [CHR '']''])" by (rule compacts_append [OF q(3)])
    moreover have "scan_elems (Suc f) d (q @ CHR '']'' # t) = Done (map compact_json vs) t"
      if "d + foldr max (map nesting vs) 0 \<le> max_nesting" for d t
    proof -
      have "scan_value f d (q @ CHR '']'' # t) = Done (compact_json v) (CHR '']'' # t)"
        using that vs ends_number_punct by (intro q(5)) auto
      then show ?thesis using vs by (simp add: scan_elems.simps(2) skip_ws_Cons is_space_def)
    qed
    ultimately have "elems_image (Suc f) s vs r (p @ w @ [CHR '']'']) (q @ [CHR '']''])"
      using q(1,2,4) w c vs by (simp add: elems_image_def starts_def)
    then show ?thesis by blast
  qed
qed

lemma members_image_step:
  assumes IHv: "\<And>d s v r. scan_value f d s = Done v r \<Longrightarrow> \<exists>p q. value_image f s v r p q"
    and IHm: "\<And>d s ms r. scan_members f d s = Done ms r \<Longrightarrow> \<exists>p q. members_image f s ms r p q"
    and m: "scan_members (Suc f) d s = Done ms r"
  shows "\<exists>p q. members_image (Suc f) s ms r p q"
proof -
  obtain qs k r0 cs v r2 c es where s: "s = dquote # qs" and k: "scan_str qs = Done k r0"
    and col: "skip_ws r0 = CHR '':'' # cs" and v: "scan_value f d (skip_ws cs) = Done v r2"
    and c: "skip_ws r2 = c # es"
    and rest: "(if c = CHR '','' then scan_map (Cons (k, consumed (skip_ws cs) r2, v)) (scan_members f d (skip_ws es))
      else if c = CHR ''}'' then Done [(k, consumed (skip_ws cs) r2, v)] es else Bad) = Done ms r"
    using m by (auto simp: scan_members.simps(2) scan_bind_Done next_char_Done split: if_splits)
  from compact_str [OF k] obtain pk qk where i: "str_image qs k r0 pk qk" by blast
  from IHv [OF v] obtain p q where q: "skip_ws cs = p @ r2" "starts q" "compacts p q"
    "\<And>d t. d + nesting v \<le> max_nesting \<Longrightarrow> ends_number t \<Longrightarrow> scan_value f d (q @ t) = Done (compact_json v) t"
    unfolding value_image_def by blast
  obtain w0 where w0: "r0 = w0 @ CHR '':'' # cs" "\<forall>c \<in> set w0. is_space c" using skip_ws_split [of r0] col by auto
  obtain w1 where w1: "cs = w1 @ p @ r2" "\<forall>c \<in> set w1. is_space c" using skip_ws_split [of cs] q(1) by auto
  obtain w2 where w2: "r2 = w2 @ c # es" "\<forall>c \<in> set w2. is_space c" using skip_ws_split [of r2] c by auto
  have raw: "consumed (skip_ws cs) r2 = p" by (simp add: q(1))
  let ?p = "(dquote # pk) @ w0 @ CHR '':'' # w1 @ p" and ?q = "(dquote # qk) @ CHR '':'' # q"
  have "compacts (w0 @ CHR '':'' # w1 @ p) (CHR '':'' # q)"
    using w0(2) w1(2) plain_chars(3) q(3) by (intro compacts_plain compacts_spaces) simp_all
  then have head: "compacts ?p ?q" by (rule compacts_append [OF compacts_str [OF i]])
  have sp: "s = ?p @ w2 @ c # es" using s str_imageD(1) [OF i] w0(1) w1(1) w2(1) by simp
  have step: "scan_members (Suc f) d (?q @ c # t) =
      (if c = CHR '','' then scan_map (Cons (k, q, compact_json v)) (scan_members f d (skip_ws t))
       else Done [(k, q, compact_json v)] t)" if "d + nesting v \<le> max_nesting" "c \<in> {CHR '','', CHR ''}''}" for d t
  proof -
    have "scan_value f d (q @ c # t) = Done (compact_json v) (c # t)"
      using that ends_number_punct by (intro q(4)) auto
    then show ?thesis
      using that(2) str_imageD(3) [OF i] skip_ws_starts [OF q(2), of "c # t"]
      by (auto simp: scan_members.simps(2) skip_ws_Cons)
  qed
  show ?thesis
  proof (cases "c = CHR '','' ")
    case True
    then obtain us where us: "scan_members f d (skip_ws es) = Done us r" "ms = (k, p, v) # us"
      using rest raw by (auto simp: scan_map_Done)
    from IHm [OF us(1)] obtain p2 q2 where q2: "skip_ws es = p2 @ r" "starts q2" "compacts p2 q2"
      "\<And>d t. d + foldr max (map (\<lambda>(k, raw, v). nesting v) us) 0 \<le> max_nesting \<Longrightarrow> scan_members f d (q2 @ t) =
        Done (map (\<lambda>(k, raw, v). (k, compact_text False False raw, compact_json v)) us) t"
      unfolding members_image_def by blast
    obtain w3 where w3: "es = w3 @ p2 @ r" "\<forall>c \<in> set w3. is_space c" using skip_ws_split [of es] q2(1) by auto
    have "compacts (w2 @ CHR '','' # w3 @ p2) (CHR '','' # q2)"
      using w2(2) w3(2) plain_chars(2) q2(3) by (intro compacts_plain compacts_spaces) simp_all
    then have "compacts (?p @ w2 @ CHR '','' # w3 @ p2) (?q @ CHR '','' # q2)" by (rule compacts_append [OF head])
    moreover have "scan_members (Suc f) d ((?q @ CHR '','' # q2) @ t) =
        Done (map (\<lambda>(k, raw, v). (k, compact_text False False raw, compact_json v)) ms) t"
      if "d + foldr max (map (\<lambda>(k, raw, v). nesting v) ms) 0 \<le> max_nesting" for d t
      using step [of d "q2 @ t"] q2(4) [of d t] that us(2) True skip_ws_starts [OF q2(2)] compacts_self [OF q(3)]
      by simp
    ultimately have "members_image (Suc f) s ms r (?p @ w2 @ CHR '','' # w3 @ p2) (?q @ CHR '','' # q2)"
      using sp w3(1) True by (simp add: members_image_def starts_def)
    then show ?thesis by blast
  next
    case False
    then have c: "c = CHR ''}''" and ms: "ms = [(k, p, v)]" "r = es" using rest raw by (auto split: if_splits)
    have "compacts (w2 @ [CHR ''}'']) [CHR ''}'']"
      using w2(2) plain_chars(5) by (intro compacts_plain compacts_spaces compacts_Nil) simp_all
    then have "compacts (?p @ w2 @ [CHR ''}'']) (?q @ [CHR ''}''])" by (rule compacts_append [OF head])
    moreover have "scan_members (Suc f) d ((?q @ [CHR ''}'']) @ t) =
        Done (map (\<lambda>(k, raw, v). (k, compact_text False False raw, compact_json v)) ms) t"
      if "d + foldr max (map (\<lambda>(k, raw, v). nesting v) ms) 0 \<le> max_nesting" for d t
      using step [of d t] that ms c compacts_self [OF q(3)] by simp
    ultimately have "members_image (Suc f) s ms r (?p @ w2 @ [CHR ''}'']) (?q @ [CHR ''}''])"
      using sp c ms by (simp add: members_image_def starts_def)
    then show ?thesis by blast
  qed
qed

lemma scan_images:
  "(\<forall>d s v r. scan_value f d s = Done v r \<longrightarrow> (\<exists>p q. value_image f s v r p q)) \<and>
   (\<forall>d s vs r. scan_elems f d s = Done vs r \<longrightarrow> (\<exists>p q. elems_image f s vs r p q)) \<and>
   (\<forall>d s ms r. scan_members f d s = Done ms r \<longrightarrow> (\<exists>p q. members_image f s ms r p q))"
proof (induction f)
  case (Suc f)
  then have IH: "\<And>d s v r. scan_value f d s = Done v r \<Longrightarrow> \<exists>p q. value_image f s v r p q"
    "\<And>d s vs r. scan_elems f d s = Done vs r \<Longrightarrow> \<exists>p q. elems_image f s vs r p q"
    "\<And>d s ms r. scan_members f d s = Done ms r \<Longrightarrow> \<exists>p q. members_image f s ms r p q"
    by blast+
  have "\<exists>p q. value_image (Suc f) s v r p q" if "scan_value (Suc f) d s = Done v r" for d s v r
    by (rule value_image_step [OF _ _ that]) (erule IH)+
  moreover have "\<exists>p q. elems_image (Suc f) s vs r p q" if "scan_elems (Suc f) d s = Done vs r" for d s vs r
    by (rule elems_image_step [OF _ _ that]) (erule IH)+
  moreover have "\<exists>p q. members_image (Suc f) s ms r p q" if "scan_members (Suc f) d s = Done ms r" for d s ms r
    by (rule members_image_step [OF _ _ that]) (erule IH)+
  ultimately show ?case by blast
qed simp

text \<open>
  The result: text that parses is compacted to text that scans to the same value up to the
  compaction of raw members, at every depth that has room and in front of anything that ends a
  number.
\<close>

lemma parse_compact:
  assumes "parse_json s = Some v"
  shows "starts (compact_text False False s)"
    and "d + nesting v \<le> max_nesting \<Longrightarrow> ends_number t \<Longrightarrow> 2 * length (compact_text False False s @ t) < f \<Longrightarrow>
       scan_value f d (compact_text False False s @ t) = Done (compact_json v) t"
proof -
  let ?u = "skip_ws s" and ?f = "Suc (2 * length (skip_ws s))"
  obtain r where r: "scan_value ?f 0 ?u = Done v r" "skip_ws r = []"
    using assms by (auto simp: parse_json_def scan_json_def Let_def split: scan.splits if_splits)
  obtain w where w: "s = w @ ?u" "\<forall>c \<in> set w. is_space c" using skip_ws_split [of s] by blast
  have rs: "\<forall>c \<in> set r. is_space c" using r(2) by (simp add: skip_ws_def)
  have image: "\<exists>p. value_image g ?u v r p (compact_text False False s)" if g: "2 * length ?u < g" for g
  proof -
    have "scan_value ?f 0 ?u = scan_value g 0 ?u" by (rule scan_fuel [THEN conjunct1, rule_format]) (use g in simp_all)
    then obtain p q where i: "value_image g ?u v r p q" using r(1) scan_images by metis
    then have "?u = p @ r" "compacts p q" by (simp_all add: value_image_def)
    moreover have "compacts r []" using compacts_spaces [OF rs compacts_Nil] by simp
    ultimately have "compacts (w @ p @ r) q"
      using compacts_spaces [OF w(2) compacts_append [of p q r "[]"]] by simp
    then have "compact_text False False s = q" using w(1) \<open>?u = p @ r\<close> compacts_self by metis
    with i show ?thesis by blast
  qed
  then show "starts (compact_text False False s)" by (auto simp: value_image_def)
  show "scan_value f d (compact_text False False s @ t) = Done (compact_json v) t"
    if b: "d + nesting v \<le> max_nesting" "ends_number t" "2 * length (compact_text False False s @ t) < f"
  proof -
    define g where "g = Suc (2 * (length ?u + length (compact_text False False s @ t)))"
    obtain p where "value_image g ?u v r p (compact_text False False s)" using image [of g] by (auto simp: g_def)
    then have "scan_value g d (compact_text False False s @ t) = Done (compact_json v) t"
      using b by (simp add: value_image_def)
    moreover have "scan_value f d (compact_text False False s @ t) = scan_value g d (compact_text False False s @ t)"
      by (rule scan_fuel [THEN conjunct1, rule_format]) (use b(3) in \<open>simp_all add: g_def\<close>)
    ultimately show ?thesis by simp
  qed
qed

text \<open>So compaction keeps the value of a document.\<close>

lemma parse_compact_text:
  assumes "parse_json s = Some v" and "nesting v \<le> max_nesting"
  shows "parse_json (compact_text False False s) = Some (compact_json v)"
proof -
  let ?q = "compact_text False False s"
  have "skip_ws ?q = ?q" using skip_ws_starts [OF parse_compact(1) [OF assms(1)], of "[]"] by simp
  then show ?thesis
    using parse_compact(2) [OF assms(1), of 0 "[]" "Suc (2 * length ?q)"] assms(2)
    by (simp add: parse_json_def scan_json_def ends_number_def skip_ws_def)
qed

end
