(* ===== verification/Event_Client.thy ===== *)
theory Event_Client
  imports Server Json_Compact
begin

text \<open>
  The publish client \<^verbatim>\<open>internal/eventclient/eventclient.go\<close>, shared by the command line
  tool and the job runner, and what it puts on the socket.  The HTTP transport is a parameter:
  given the body and its own state it answers a status and a body, or fails.
\<close>

record client_event =
  ce_type :: string
  ce_workflow :: string
  ce_payload :: bytes

text \<open>The payload is a \<^verbatim>\<open>json.RawMessage\<close>, written compacted.\<close>

definition client_body :: "client_event \<Rightarrow> string option" where
  "client_body e =
     (let head = ''{'' @ quote ''type'' @ '':'' @ quote (ce_type e) @
          (if ce_workflow e = [] then [] else '','' @ quote ''workflowID'' @ '':'' @ quote (ce_workflow e))
      in if ce_payload e = [] then Some (head @ ''}'')
         else map_option (\<lambda>p. head @ '','' @ quote ''payload'' @ '':'' @ p @ ''}'') (marshal_raw (ce_payload e)))"

datatype client_error = Encoding_failed | Sending_failed | Server_returned nat string

text \<open>
  \<^verbatim>\<open>Publish\<close>.  A request whose context is already done is not sent; the bodies of error
  answers are read up to 4096 bytes.
\<close>

definition client_publish ::
  "(bytes \<Rightarrow> 's \<Rightarrow> (nat \<times> bytes) option \<times> 's) \<Rightarrow> bool \<Rightarrow> client_event \<Rightarrow> 's \<Rightarrow> client_error option \<times> 's" where
  "client_publish send ctx_done e s =
     (case client_body e of
        None \<Rightarrow> (Some Encoding_failed, s)
      | Some body \<Rightarrow>
          if ctx_done then (Some Sending_failed, s)
          else (case send body s of
              (None, s') \<Rightarrow> (Some Sending_failed, s')
            | (Some (status, answer), s') \<Rightarrow>
                if status < 200 \<or> status \<ge> 300 then
                  (Some (Server_returned status (trim_space (take 4096 answer))), s')
                else (None, s')))"

text \<open>\<^verbatim>\<open>New\<close>: every request of the client dials one socket path.\<close>

type_synonym 's dial = "string \<Rightarrow> bytes \<Rightarrow> 's \<Rightarrow> (nat \<times> bytes) option \<times> 's"

definition new_client :: "'s dial \<Rightarrow> string \<Rightarrow> bool \<Rightarrow> client_event \<Rightarrow> 's \<Rightarrow> client_error option \<times> 's" where
  "new_client dial socket = client_publish (dial socket)"

text \<open>The transport to the program's own server: the acceptance path behind the socket.\<close>

definition serve_events ::
  "(event \<Rightarrow> 's \<Rightarrow> 'err option \<times> 's) \<Rightarrow> bytes \<Rightarrow> 's \<Rightarrow> (nat \<times> bytes) option \<times> 's" where
  "serve_events publish body s =
     (case accept_event publish body empty_response s of
        (w, s') \<Rightarrow> (map_option (\<lambda>c. (c, rs_body w)) (rs_status w), s'))"

section \<open>What the server reads\<close>

lemma scan_members_front:
  assumes "ms \<noteq> []" and "length ms < f"
  shows "scan_members f d (write_members ms @ CHR '','' # t) =
    scan_map (append (map (\<lambda>(k, v). (sanitize k, quote v, JStr (sanitize v))) ms))
      (scan_members (f - length ms) d (skip_ws t))"
  using assms
proof (induction ms arbitrary: f rule: write_members.induct)
  case (2 k v)
  obtain g where "f = Suc (Suc g)" using 2(2) by (cases f; cases "f - 1") auto
  then show ?case
    by (cases "scan_members (f - 1) d (skip_ws t)") (simp_all add: scan_member_quote [OF scan_value_quote])
next
  case (3 k v m ms)
  obtain g where f: "f = Suc (Suc g)" using 3(3) by (cases f; cases "f - 1") auto
  then have "length (m # ms) < Suc g" using 3(3) by simp
  note IH = "3.IH" [OF _ this]
  show ?case
    using IH f by (cases "scan_members (g - length ms) d (skip_ws t)")
      (simp_all add: scan_member_quote [OF scan_value_quote] skip_ws_members)
qed simp

lemma scan_raw_member:
  assumes p: "parse_json p = Some v" and n: "d + nesting v \<le> max_nesting"
    and f: "2 * length (compact_text False False p @ CHR ''}'' # t) < f"
  shows "scan_members (Suc f) d (quote k @ CHR '':'' # compact_text False False p @ CHR ''}'' # t) =
    Done [(sanitize k, compact_text False False p, compact_json v)] t"
proof -
  have "scan_value f d (compact_text False False p @ CHR ''}'' # t) = Done (compact_json v) (CHR ''}'' # t)"
    using p n f ends_number_punct by (intro parse_compact(2)) auto
  then show ?thesis
    using skip_ws_starts [OF parse_compact(1) [OF p], of "CHR ''}'' # t"] scan_str_quote_body [of k]
    by (simp add: scan_members.simps(2) quote_def skip_ws_Cons)
qed

definition client_pairs :: "client_event \<Rightarrow> (bytes \<times> bytes) list" where
  "client_pairs e = (''type'', ce_type e) # (if ce_workflow e = [] then [] else [(''workflowID'', ce_workflow e)])"

text \<open>The payload that arrives.\<close>

definition sent_payload :: "client_event \<Rightarrow> bytes" where
  "sent_payload e = (if ce_payload e = [] then [] else compact_text False False (ce_payload e))"

definition room_for :: "bytes \<Rightarrow> bool" where
  "room_for p = (case parse_json p of None \<Rightarrow> True | Some v \<Rightarrow> nesting v < max_nesting)"

lemma client_body_Some:
  "client_body e = Some body \<longleftrightarrow>
     (ce_payload e = [] \<and> body = write_object (client_pairs e)) \<or>
     (ce_payload e \<noteq> [] \<and> (\<exists>v. parse_json (ce_payload e) = Some v) \<and>
      body = CHR ''{'' # write_members (client_pairs e) @ CHR '','' # quote ''payload'' @ CHR '':'' # sent_payload e @ ''}'')"
  by (auto simp: client_body_def client_pairs_def write_object_def marshal_raw_def sent_payload_def Let_def)

lemma scan_client_body:
  assumes "client_body e = Some body" and "room_for (ce_payload e)"
  shows "\<exists>v. scan_json body = Done (JObj (map (\<lambda>(k, v). (sanitize k, quote v, JStr (sanitize v))) (client_pairs e) @
    (if ce_payload e = [] then [] else [(''payload'', sent_payload e, compact_json v)]))) [] \<and>
    (ce_payload e = [] \<or> parse_json (ce_payload e) = Some v)"
proof (cases "ce_payload e = []")
  case True
  then have "body = write_object (client_pairs e) @ []" using assms(1) by (simp add: client_body_Some)
  then show ?thesis using True scan_json_write [of "client_pairs e" "[]"] by (simp add: client_pairs_def)
next
  case False
  then obtain v where v: "parse_json (ce_payload e) = Some v"
    and b: "body = CHR ''{'' # write_members (client_pairs e) @ CHR '','' # quote ''payload'' @ CHR '':'' # sent_payload e @ ''}''"
    using assms(1) by (auto simp: client_body_Some)
  define rest where "rest = quote ''payload'' @ CHR '':'' # sent_payload e @ CHR ''}'' # []"
  define cs where "cs = write_members (client_pairs e) @ CHR '','' # rest"
  have ne: "client_pairs e \<noteq> []" and len: "length (client_pairs e) \<le> 2" by (simp_all add: client_pairs_def)
  have n: "Suc 0 + nesting v \<le> max_nesting" using assms(2) v by (simp add: room_for_def)
  obtain q where q: "cs = dquote # q" using write_members_head [OF ne] cs_def by blast
  have lr: "length rest = length (sent_payload e) + length (quote ''payload'') + 2"
    by (simp add: rest_def)
  obtain g where g: "2 * length body - length (client_pairs e) = Suc g" "2 * length (sent_payload e @ CHR ''}'' # []) < g"
  proof
    show "2 * length body - length (client_pairs e) = Suc (2 * length body - length (client_pairs e) - 1)"
      "2 * length (sent_payload e @ CHR ''}'' # []) < 2 * length body - length (client_pairs e) - 1"
      using len by (simp_all add: b quote_def)
  qed
  have r: "scan_members (Suc g) (Suc 0) rest = Done [(''payload'', sent_payload e, compact_json v)] []"
    using scan_raw_member [OF v n, of "[]" g "''payload''"] g(2) False
    by (simp add: rest_def sent_payload_def field_names_utf8)
  have "scan_members (2 * length body) (Suc 0) cs =
      Done (map (\<lambda>(k, v). (sanitize k, quote v, JStr (sanitize v))) (client_pairs e) @
        [(''payload'', sent_payload e, compact_json v)]) []"
    unfolding cs_def
    using scan_members_front [OF ne, of "2 * length body" "Suc 0" rest] len g(1) r by (simp add: b rest_def)
  moreover have "scan_value (Suc (2 * length body)) 0 (CHR ''{'' # cs) = scan_map JObj (scan_members (2 * length body) (Suc 0) (skip_ws cs))"
    using q by (intro scan_value_object [of cs dquote q]) (simp_all add: skip_ws_Cons dquote_not_brace)
  moreover have "body = CHR ''{'' # cs" by (simp add: b cs_def rest_def)
  ultimately show ?thesis
    using v False q by (intro exI [of _ v]) (simp add: scan_json_def skip_ws_Cons)
qed

definition sent_request :: "client_event \<Rightarrow> submit_request" where
  "sent_request e =
     \<lparr>sr_type = sanitize (ce_type e), sr_workflow = sanitize (ce_workflow e), sr_payload = sent_payload e\<rparr>"

lemma submit_put_fields:
  "submit_put ''type'' r (JStr s) q = (q\<lparr>sr_type := s\<rparr>, True)"
  "submit_put ''workflowID'' r (JStr s) q = (q\<lparr>sr_workflow := s\<rparr>, True)"
  "submit_put ''payload'' r v q = (q\<lparr>sr_payload := r\<rparr>, True)"
  by (simp_all add: submit_put_def)

lemma decode_client_body:
  assumes "client_body e = Some body" and "room_for (ce_payload e)" and "length body \<le> max_event_body_bytes"
  shows "decode_submit body = Decoded (sent_request e) []"
proof -
  obtain v where "scan_json body = Done (JObj (map (\<lambda>(k, v). (sanitize k, quote v, JStr (sanitize v))) (client_pairs e) @
    (if ce_payload e = [] then [] else [(''payload'', sent_payload e, compact_json v)]))) []"
    using scan_client_body [OF assms(1,2)] by blast
  then show ?thesis
    using assms(3)
    by (auto simp: decode_submit_def client_pairs_def sent_request_def sent_payload_def field_names_utf8
        decode_member_def find_field_def submit_fields_def submit_put_fields zero_submit_def)
qed

lemma serve_client_body:
  assumes "decode_submit body = Decoded r []"
  shows "serve_events publish body s =
    (case validate_submit r of
       Some msg \<Rightarrow> (Some (400, rs_body (write_error 400 msg empty_response)), s)
     | None \<Rightarrow> (case publish (submitted_event r) s of
           (Some err, s') \<Rightarrow> (Some (500, rs_body (write_error 500 ''could not accept event'' empty_response)), s')
         | (None, s') \<Rightarrow> (Some (202, ''{'' @ quote ''status'' @ '':'' @ quote ''accepted'' @ ''}''), s')))"
  using assms
  by (simp add: serve_events_def accept_event_def decoder_more_def skip_ws_def write_error_def write_body_def
      write_header_def set_json_def empty_response_def split: option.splits prod.splits)

lemma client_not_encodable:
  "client_body e = None \<Longrightarrow> ce_payload e \<noteq> [] \<and> parse_json (ce_payload e) = None \<and>
     client_publish send ctx_done e s = (Some Encoding_failed, s)"
  by (auto simp: client_publish_def client_body_def marshal_raw_def Let_def split: if_splits)

lemma client_outcome:
  assumes "client_body e = Some body" and "room_for (ce_payload e)" and "length body \<le> max_event_body_bytes"
  shows "if validate_submit (sent_request e) = None
    then snd (client_publish (serve_events publish) False e s) = snd (publish (submitted_event (sent_request e)) s) \<and>
      (fst (client_publish (serve_events publish) False e s) = None \<longleftrightarrow>
         fst (publish (submitted_event (sent_request e)) s) = None)
    else snd (client_publish (serve_events publish) False e s) = s \<and>
      (\<exists>msg. fst (client_publish (serve_events publish) False e s) = Some (Server_returned 400 msg))"
  using assms(1) serve_client_body [OF decode_client_body [OF assms], of publish s]
  by (auto simp: client_publish_def split: option.splits prod.splits)

definition good_workflow :: "string \<Rightarrow> bool" where
  "good_workflow w = (length w \<le> 128 \<and> \<not> contains_any w blank_or_wild)"

lemma validate_submit_None:
  "validate_submit r = None \<longleftrightarrow> valid_type (sr_type r) \<and> good_workflow (sr_workflow r)"
  by (auto simp: validate_submit_def good_workflow_def max_workflow_id_len_def valid_workflow_id_def contains_any_def)

lemma bus_publish_ok:
  "subject_for e = Inr s \<Longrightarrow> fst (bus_publish reply e ms) = None \<longleftrightarrow> reply = Pub_acked"
  by (cases reply) (simp_all add: bus_publish_def Let_def)

lemma sent_event:
  assumes "valid_utf8 (ce_type e)" and "valid_utf8 (ce_workflow e)"
  shows "submitted_event (sent_request e) =
    \<lparr>ev_type = ce_type e, ev_workflow = ce_workflow e, ev_payload = sent_payload e\<rparr>"
  using assms by (simp add: submitted_event_def sent_request_def sanitize_valid)

text \<open>What a client does to the stream behind the program's own server and bus.\<close>

definition submission :: "message \<Rightarrow> bool" where
  "submission m \<longleftrightarrow> (\<exists>r. validate_submit r = None \<and> subject_for (submitted_event r) = Inr (msg_subject m) \<and>
     msg_data m = wire_encode (submitted_event r))"

definition stream_extends :: "message list \<Rightarrow> message list \<Rightarrow> bool" where
  "stream_extends ms ms' \<longleftrightarrow> (\<exists>new. ms' = ms @ new \<and> list_all submission new)"

lemma stream_extends_refl: "stream_extends ms ms"
  by (simp add: stream_extends_def)

lemma stream_extends_trans: "stream_extends ms ms' \<Longrightarrow> stream_extends ms' ms'' \<Longrightarrow> stream_extends ms ms''"
  by (fastforce simp: stream_extends_def)

lemma bus_publish_extends:
  assumes "validate_submit r = None"
  shows "stream_extends ms (snd (bus_publish reply (submitted_event r) ms))"
proof -
  obtain subject where s: "subject_for (submitted_event r) = Inr subject"
    using validated_subject(1) [OF assms] by blast
  then have "submission \<lparr>msg_subject = subject, msg_data = wire_encode (submitted_event r)\<rparr>"
    using assms by (auto simp: submission_def)
  with s show ?thesis by (cases reply) (simp_all add: bus_publish_def Let_def stream_extends_def)
qed

lemma client_extends:
  "stream_extends ms (snd (client_publish (serve_events (bus_publish reply)) ctx_done e ms))"
proof -
  have "stream_extends ms (snd (accept_event (bus_publish reply) body empty_response ms))" for body
    using accept_event_cases [of empty_response body "bus_publish reply" ms] bus_publish_extends stream_extends_refl
    by (auto simp: acceptable_def empty_response_def)
  then have "stream_extends ms (snd (serve_events (bus_publish reply) body ms))" for body
    by (simp add: serve_events_def case_prod_beta)
  then show ?thesis
    by (auto simp: client_publish_def stream_extends_refl case_prod_beta split: option.split)
qed

text \<open>A valid event that the broker acknowledges is the next message.\<close>

lemma client_stores:
  assumes "client_body e = Some body" and "room_for (ce_payload e)" and "length body \<le> max_event_body_bytes"
    and "valid_type (ce_type e)" and "good_workflow (ce_workflow e)" and "valid_utf8 (ce_workflow e)"
  shows "\<exists>m. snd (client_publish (serve_events (bus_publish Pub_acked)) False e ms) = ms @ [m] \<and>
    wire_decode (msg_data m) =
      Some \<lparr>ev_type = ce_type e, ev_workflow = ce_workflow e, ev_payload = sent_payload e\<rparr>"
proof -
  let ?ev = "\<lparr>ev_type = ce_type e, ev_workflow = ce_workflow e, ev_payload = sent_payload e\<rparr>"
  have u: "valid_utf8 (ce_type e)" using valid_utf8_ascii valid_type_ascii assms(4) by blast
  have ev: "submitted_event (sent_request e) = ?ev" by (rule sent_event [OF u assms(6)])
  have v: "validate_submit (sent_request e) = None"
    using assms(4-6) u by (simp add: validate_submit_None sent_request_def sanitize_valid)
  obtain subject where s: "subject_for ?ev = Inr subject" using validated_subject(1) [OF v] ev by auto
  have d: "wire_decode (wire_encode ?ev) = Some ?ev"
    using carried_ok [of ?ev] assms(4,6) by (simp add: wire_decode_encode carried_def)
  have "snd (client_publish (serve_events (bus_publish Pub_acked)) False e ms) = snd (bus_publish Pub_acked ?ev ms)"
    using client_outcome [OF assms(1-3), of "bus_publish Pub_acked" ms] v ev by simp
  with s d show ?thesis by (simp add: bus_publish_def Let_def)
qed

section \<open>Properties\<close>

text \<open>
  C12: an event given to the client arrives at the server's publisher.  For an encodable event
  that fits the limits the client's answer is no error exactly when the server found the event
  valid and its publisher took it; the publisher gets the type, the workflow and the payload,
  which is the client's text compacted and has the same value (raw member text compacted too).
  An event that is refused at validation reaches no publisher; a payload that is not JSON is not
  sent.
\<close>

theorem client_reaches_publisher:
  assumes "room_for (ce_payload e)"
    and "\<And>body. client_body e = Some body \<Longrightarrow> length body \<le> max_event_body_bytes"
  shows "case client_body e of
     None \<Rightarrow> ce_payload e \<noteq> [] \<and> parse_json (ce_payload e) = None \<and>
       client_publish (serve_events publish) False e s = (Some Encoding_failed, s)
   | Some body \<Rightarrow>
       (if validate_submit (sent_request e) = None
        then snd (client_publish (serve_events publish) False e s) = snd (publish (submitted_event (sent_request e)) s) \<and>
          (fst (client_publish (serve_events publish) False e s) = None \<longleftrightarrow>
             fst (publish (submitted_event (sent_request e)) s) = None)
        else snd (client_publish (serve_events publish) False e s) = s \<and>
          (\<exists>msg. fst (client_publish (serve_events publish) False e s) = Some (Server_returned 400 msg))) \<and>
       (ce_payload e \<noteq> [] \<longrightarrow>
          (\<exists>v. parse_json (ce_payload e) = Some v \<and> parse_json (sent_payload e) = Some (compact_json v)))"
proof (cases "client_body e")
  case None
  with client_not_encodable [OF None] show ?thesis by simp
next
  case (Some body)
  have "\<exists>v. parse_json (ce_payload e) = Some v \<and> parse_json (sent_payload e) = Some (compact_json v)" if "ce_payload e \<noteq> []"
    using that Some assms(1) parse_compact_text
    by (auto simp: client_body_Some sent_payload_def room_for_def split: option.splits)
  with client_outcome [OF Some assms(1) assms(2) [OF Some], of publish s] Some show ?thesis by simp
qed

theorem client_reaches_publisher_witness:
  "fst (client_publish (serve_events (\<lambda>e es. (None :: unit option, es @ [e]))) False
      \<lparr>ce_type = ''t'', ce_workflow = ''w'', ce_payload = ''{ }''\<rparr> []) = None"
proof -
  let ?e = "\<lparr>ce_type = ''t'', ce_workflow = ''w'', ce_payload = ''{ }''\<rparr>"
  have b: "client_body ?e = Some (''{'' @ quote ''type'' @ '':'' @ quote ''t'' @ '','' @ quote ''workflowID'' @ '':'' @
      quote ''w'' @ '','' @ quote ''payload'' @ '':{}}'')"
    by code_simp
  have r: "room_for (ce_payload ?e)" by code_simp
  have l: "length (quote ''t'') = 3" "length (quote ''w'') = 3" "length (quote ''type'') = 6"
    "length (quote ''workflowID'') = 12" "length (quote ''payload'') = 9" by code_simp+
  have m: "length body \<le> max_event_body_bytes" if "client_body ?e = Some body" for body
    using that unfolding b by (auto simp: l max_event_body_bytes_def)
  have v: "validate_submit (sent_request ?e) = None" by code_simp
  show ?thesis
    using client_reaches_publisher [OF r m, of "\<lambda>e es. (None :: unit option, es @ [e])" "[]"] b v by simp
qed

end
