(* ===== verification/Paths.thy ===== *)
theory Paths
  imports Prelude
begin

text \<open>
  The lexical part of Go's \<^verbatim>\<open>path/filepath\<close> on Unix, as far as the program uses it:
  \<^verbatim>\<open>IsAbs\<close>, \<^verbatim>\<open>Clean\<close>, \<^verbatim>\<open>Join\<close> and \<^verbatim>\<open>Dir\<close>.
  \<^verbatim>\<open>Clean\<close> follows its documented rules: empty and \<^verbatim>\<open>.\<close> elements are dropped, an inner
  \<^verbatim>\<open>..\<close> removes the element before it, a \<^verbatim>\<open>..\<close> at the root is dropped, and an empty
  result is \<^verbatim>\<open>.\<close>.

  The lemmas describe a cleaned path by a flag (rooted or not) and its list of elements:
  the two views determine each other on normal element lists, so containment of paths
  becomes the prefix order on lists.
\<close>

abbreviation slash :: char where
  "slash \<equiv> CHR ''/''"

definition is_abs :: "string \<Rightarrow> bool" where
  "is_abs p = (take 1 p = [slash])"

text \<open>One element of the path, against the stack of elements kept so far (innermost first).\<close>

definition clean_step :: "bool \<Rightarrow> string list \<Rightarrow> string \<Rightarrow> string list" where
  "clean_step rooted st c =
     (if c = [] \<or> c = ''.'' then st
      else if c = ''..'' then
        (case st of
           [] \<Rightarrow> (if rooted then [] else [''..''])
         | t # ts \<Rightarrow> (if t = ''..'' then ''..'' # st else ts))
      else c # st)"

definition clean_from :: "bool \<Rightarrow> string list \<Rightarrow> string list \<Rightarrow> string list" where
  "clean_from rooted st cs = foldl (clean_step rooted) st cs"

definition render :: "bool \<Rightarrow> string list \<Rightarrow> string" where
  "render rooted ws =
     (if rooted then slash # join_with slash ws
      else if ws = [] then ''.'' else join_with slash ws)"

definition elements :: "string \<Rightarrow> string list" where
  "elements p = rev (clean_from (is_abs p) [] (split_on slash p))"

definition clean :: "string \<Rightarrow> string" where
  "clean p = render (is_abs p) (elements p)"

fun path_join :: "string list \<Rightarrow> string" where
  "path_join [] = []"
| "path_join (e # es) = (if e = [] then path_join es else clean (join_with slash (e # es)))"

text \<open>\<^verbatim>\<open>Dir\<close>: everything up to the last slash, cleaned.\<close>

definition dir_of :: "string \<Rightarrow> string" where
  "dir_of p = clean (if slash \<in> set p then join_with slash (butlast (split_on slash p)) @ [slash] else [])"

section \<open>Normal element lists\<close>

definition plain_elem :: "string \<Rightarrow> bool" where
  "plain_elem w = (w \<noteq> [] \<and> w \<noteq> ''.'' \<and> w \<noteq> ''..'' \<and> slash \<notin> set w)"

text \<open>
  The stacks \<^verbatim>\<open>Clean\<close> builds: every element is plain, or is a \<^verbatim>\<open>..\<close> with nothing but
  \<^verbatim>\<open>..\<close> below it, and a rooted stack has no \<^verbatim>\<open>..\<close> at all.
\<close>

fun normal_stack :: "bool \<Rightarrow> string list \<Rightarrow> bool" where
  "normal_stack r [] = True"
| "normal_stack r (t # ts) =
     (normal_stack r ts \<and>
      (if t = ''..'' then \<not> r \<and> (ts = [] \<or> hd ts = ''..'') else plain_elem t))"

definition normal :: "bool \<Rightarrow> string list \<Rightarrow> bool" where
  "normal r ws = normal_stack r (rev ws)"

lemma plain_elem_simps [simp]:
  "\<not> plain_elem []" "\<not> plain_elem ''.''" "\<not> plain_elem ''..''"
  by (simp_all add: plain_elem_def)

lemma normal_stack_elem:
  "normal_stack r ts \<Longrightarrow> t \<in> set ts \<Longrightarrow> t \<noteq> [] \<and> slash \<notin> set t \<and> t \<noteq> ''.''"
  by (induction ts) (auto simp: plain_elem_def split: if_splits)

lemma normal_elem: "normal r ws \<Longrightarrow> w \<in> set ws \<Longrightarrow> w \<noteq> [] \<and> slash \<notin> set w \<and> w \<noteq> ''.''"
  unfolding normal_def by (drule normal_stack_elem[of _ _ w]) simp_all

lemma normal_no_Nil: "normal r ws \<Longrightarrow> [] \<notin> set ws"
  using normal_elem by blast

lemma normal_Nil [simp]: "normal r []"
  by (simp add: normal_def)

text \<open>The stack of elements stays normal, element by element.\<close>

lemma clean_step_normal:
  "normal_stack r st \<Longrightarrow> slash \<notin> set c \<Longrightarrow> normal_stack r (clean_step r st c)"
  by (cases st) (auto simp: clean_step_def plain_elem_def)

lemma clean_from_Nil [simp]: "clean_from r st [] = st"
  by (simp add: clean_from_def)

lemma clean_from_Cons [simp]: "clean_from r st (c # cs) = clean_from r (clean_step r st c) cs"
  by (simp add: clean_from_def)

lemma clean_from_append [simp]: "clean_from r st (cs @ ds) = clean_from r (clean_from r st cs) ds"
  by (simp add: clean_from_def)

lemma clean_from_normal:
  "normal_stack r st \<Longrightarrow> \<forall>c \<in> set cs. slash \<notin> set c \<Longrightarrow> normal_stack r (clean_from r st cs)"
  by (induction cs arbitrary: st) (simp_all add: clean_step_normal)

lemma elements_normal: "normal (is_abs p) (elements p)"
  unfolding normal_def elements_def
  by (simp add: clean_from_normal [OF _ split_on_elems])

text \<open>Cleaning a normal list gives it back.\<close>

lemma clean_step_keep:
  "normal_stack r (c # st) \<Longrightarrow> clean_step r st c = c # st"
  by (cases "c = ''..''"; cases st) (simp_all add: clean_step_def plain_elem_def)

lemma normal_stack_append: "normal_stack r (us @ st) \<Longrightarrow> normal_stack r st"
  by (induction us) auto

lemma clean_from_normal_id:
  "normal_stack r (rev cs @ st) \<Longrightarrow> clean_from r st cs = rev cs @ st"
proof (induction cs arbitrary: st)
  case (Cons c cs)
  then have "normal_stack r (c # st)"
    using normal_stack_append[of r "rev cs" "c # st"] by simp
  with Cons show ?case by (simp add: clean_step_keep del: normal_stack.simps)
qed simp

lemma clean_from_normal_elems: "normal r ws \<Longrightarrow> clean_from r [] ws = rev ws"
  using clean_from_normal_id[of r ws "[]"] by (simp add: normal_def)

section \<open>A path and its elements\<close>

lemma join_with_no_slash_head:
  "normal r ws \<Longrightarrow> take 1 (join_with slash ws) \<noteq> [slash]"
proof (cases ws)
  case (Cons w vs)
  moreover assume "normal r ws"
  ultimately have "w \<noteq> []" "slash \<notin> set w"
    using normal_elem by auto
  with Cons show ?thesis
    by (cases w; cases vs) auto
qed simp

lemma is_abs_render [simp]: "normal r ws \<Longrightarrow> is_abs (render r ws) = r"
  using join_with_no_slash_head[of r ws] by (auto simp: is_abs_def render_def)

lemma split_render_rooted:
  "normal True ws \<Longrightarrow> split_on slash (render True ws) = [] # (if ws = [] then [[]] else ws)"
  using normal_elem[of True ws] by (auto simp: render_def split_join)

lemma split_render_relative:
  "normal False ws \<Longrightarrow> split_on slash (render False ws) = (if ws = [] then [''.''] else ws)"
  using normal_elem[of False ws] by (auto simp: render_def split_join)

lemma clean_step_skip [simp]: "clean_step r st [] = st" "clean_step r st ''.'' = st"
  by (simp_all add: clean_step_def)

lemma clean_from_render:
  assumes "normal r ws"
  shows "clean_from r [] (split_on slash (render r ws)) = rev ws"
  using assms
  by (cases r) (simp_all add: split_render_rooted split_render_relative clean_from_normal_elems)

lemma elements_render [simp]: "normal r ws \<Longrightarrow> elements (render r ws) = ws"
  by (simp add: elements_def clean_from_render)

text \<open>Cleaning is idempotent: a cleaned path is its own clean form.\<close>

lemma clean_render [simp]: "normal r ws \<Longrightarrow> clean (render r ws) = render r ws"
  by (simp add: clean_def)

lemma clean_clean: "clean (clean p) = clean p"
  unfolding clean_def[of p] by (simp add: elements_normal)

lemma is_abs_clean [simp]: "is_abs (clean p) = is_abs p"
  unfolding clean_def by (simp add: elements_normal)

lemma elements_clean [simp]: "elements (clean p) = elements p"
  unfolding clean_def by (simp add: elements_normal)

lemma render_inj: "normal r ws \<Longrightarrow> normal r vs \<Longrightarrow> render r ws = render r vs \<longleftrightarrow> ws = vs"
  by (metis elements_render)

lemma clean_not_Nil: "clean p \<noteq> []"
proof (cases "is_abs p")
  case False
  have "[] \<notin> set (elements p)"
    using elements_normal normal_no_Nil by blast
  with False show ?thesis
    by (auto simp: clean_def render_def join_with_eq_Nil)
qed (simp add: clean_def render_def)

section \<open>Join\<close>

lemma is_abs_Cons [simp]: "is_abs (c # cs) = (c = slash)" "\<not> is_abs []"
  by (simp_all add: is_abs_def)

lemma is_abs_append: "xs \<noteq> [] \<Longrightarrow> is_abs (xs @ ys) = is_abs xs"
  by (cases xs) simp_all

text \<open>
  Joining a name under a cleaned base continues the walk of the base with the elements
  of the name.
\<close>

lemma path_join_two:
  "b \<noteq> [] \<Longrightarrow> path_join [b, name] = clean (b @ slash # name)"
  by simp

lemma elements_path_join:
  assumes "normal r bs"
  shows "path_join [render r bs, name] = render r (rev (clean_from r (rev bs) (split_on slash name)))"
proof -
  have ne: "render r bs \<noteq> []"
    using assms clean_not_Nil[of "render r bs"] by simp
  have "is_abs (render r bs @ slash # name) = r"
    using assms ne by (simp add: is_abs_append)
  with ne show ?thesis
    by (simp add: clean_def elements_def split_on_append_sep clean_from_render assms)
qed

lemma normal_walk: "normal r bs \<Longrightarrow> normal r (rev (clean_from r (rev bs) (split_on slash name)))"
  unfolding normal_def by (simp add: clean_from_normal [OF _ split_on_elems])

end
