(* ===== verification/Pathguard.thy ===== *)
theory Pathguard
  imports Paths
begin

text \<open>
  \<^verbatim>\<open>internal/pathguard/pathguard.go\<close>: the lexical containment check shared by the plugin
  sandbox, the plugin script loader and the job runner.  \<^verbatim>\<open>Resolve\<close> and \<^verbatim>\<open>Within\<close> are
  translated as written.  Their meaning is stated against the element view of
  \<^verbatim>\<open>Paths\<close>: a path lies beneath a base when the base's elements are a prefix
  of its own and nothing below the base is a \<^verbatim>\<open>..\<close>.
\<close>

datatype guard_error = ErrEscape

definition within :: "string \<Rightarrow> string \<Rightarrow> bool" where
  "within p base = (p = base \<or> has_prefix p (base @ [slash]))"

definition resolve :: "string \<Rightarrow> string \<Rightarrow> guard_error + string" where
  "resolve base name =
     (if is_abs name then Inl ErrEscape
      else let full = path_join [base, name] in
        if \<not> within full base then Inl ErrEscape else Inr full)"

section \<open>Specification\<close>

definition beneath :: "string \<Rightarrow> string \<Rightarrow> bool" where
  "beneath p base =
     (clean p = p \<and> is_abs p = is_abs base \<and> prefix (elements base) (elements p) \<and>
      list_all plain_elem (drop (length (elements base)) (elements p)))"

text \<open>
  The bases for which the string test decides containment: cleaned, with a last element
  that is a real name (so not the root, not \<^verbatim>\<open>.\<close> and not a chain of \<^verbatim>\<open>..\<close>).
\<close>

definition solid_base :: "string \<Rightarrow> bool" where
  "solid_base b = (clean b = b \<and> elements b \<noteq> [] \<and> last (elements b) \<noteq> ''..'')"

section \<open>The interface\<close>

text \<open>
  What the callers rely on: a resolved path is inside the base, an absolute name is
  refused, and a name without any \<^verbatim>\<open>..\<close> element is found where it says.
\<close>

locale path_resolver =
  fixes res :: "string \<Rightarrow> string \<Rightarrow> 'e + string"
    and ok_base :: "string \<Rightarrow> bool"
    and inside :: "string \<Rightarrow> string \<Rightarrow> bool"
  assumes res_inside: "ok_base base \<Longrightarrow> res base name = Inr p \<Longrightarrow> inside p base"
    and res_absolute: "is_abs name \<Longrightarrow> \<exists>e. res base name = Inl e"
    and res_plain: "ok_base base \<Longrightarrow> \<not> is_abs name \<Longrightarrow> ''..'' \<notin> set (split_on slash name)
      \<Longrightarrow> res base name = Inr (path_join [base, name])"
begin

lemma refused_or_inside:
  "ok_base base \<Longrightarrow> (\<exists>e. res base name = Inl e) \<or> (\<exists>p. res base name = Inr p \<and> inside p base)"
  by (cases "res base name") (auto dest: res_inside)

lemma res_relative: "res base name = Inr p \<Longrightarrow> \<not> is_abs name"
  using res_absolute [of name base] by auto

end

section \<open>The string prefix test and the prefix of elements\<close>

lemma render_join: "vs \<noteq> [] \<Longrightarrow> render r vs = (if r then [slash] else []) @ join_with slash vs"
  by (simp add: render_def)

lemma join_prefix_iff:
  assumes "vs \<noteq> []" and "\<forall>v \<in> set vs. slash \<notin> set v" and "\<forall>w \<in> set ws. slash \<notin> set w"
    and "[] \<notin> set ws"
  shows "has_prefix (join_with slash ws) (join_with slash vs @ [slash]) \<longleftrightarrow> strict_prefix vs ws"
proof
  assume "has_prefix (join_with slash ws) (join_with slash vs @ [slash])"
  then obtain t where t: "join_with slash ws = join_with slash vs @ slash # t"
    by (auto simp: has_prefix_iff)
  then have "ws \<noteq> []" by (cases ws) auto
  with t assms have "ws = vs @ split_on slash t"
    by (metis split_join split_on_append_sep)
  then show "strict_prefix vs ws" by (simp add: strict_prefix_def)
next
  assume "strict_prefix vs ws"
  then obtain us where "ws = vs @ us" "us \<noteq> []"
    by (auto elim: strict_prefixE')
  with assms show "has_prefix (join_with slash ws) (join_with slash vs @ [slash])"
    by (simp add: has_prefix_iff join_with_append)
qed

lemma within_render:
  assumes "normal r ws" and "normal r vs"
  shows "within (render r ws) (render r vs) \<longleftrightarrow> ws = vs \<or> (vs \<noteq> [] \<and> strict_prefix vs ws)"
proof (cases "vs = []")
  case True
  have "\<not> has_prefix (render r ws) (render r [] @ [slash])"
  proof (cases r)
    case True
    with assms show ?thesis
      using join_with_no_slash_head[of r ws] by (auto simp: has_prefix_iff render_def)
  next
    case False
    show ?thesis
    proof
      assume "has_prefix (render r ws) (render r [] @ [slash])"
      with False obtain t where t: "render False ws = ''.'' @ slash # t"
        by (auto simp: has_prefix_iff render_def)
      then have "''.'' \<in> set (split_on slash (render False ws))"
        by (simp add: split_on_append_sep)
      moreover have "ws \<noteq> []" using t by (auto simp: render_def)
      ultimately have "''.'' \<in> set ws"
        using assms False by (simp add: split_render_relative)
      with assms(1) show False using normal_elem by blast
    qed
  qed
  with True assms show ?thesis by (auto simp: within_def render_inj)
next
  case False
  have "has_prefix (render r ws) (render r vs @ [slash]) \<longleftrightarrow> strict_prefix vs ws"
  proof (cases "ws = []")
    case True
    have "join_with slash vs \<noteq> []"
      using False normal_no_Nil [OF assms(2)] by (simp add: join_with_eq_Nil)
    then have "length (render r ws) < length (render r vs @ [slash])"
      using True False by (auto simp: render_def Suc_le_eq)
    then have "\<not> has_prefix (render r ws) (render r vs @ [slash])"
      by (auto simp: has_prefix_iff)
    with True show ?thesis by simp
  next
    case ne: False
    have "has_prefix (render r ws) (render r vs @ [slash]) \<longleftrightarrow>
        has_prefix (join_with slash ws) (join_with slash vs @ [slash])"
      using False ne by (auto simp: has_prefix_iff render_join)
    then show ?thesis
      using False assms normal_no_Nil join_prefix_iff[of vs ws] normal_elem by blast
  qed
  with False assms show ?thesis by (auto simp: within_def render_inj)
qed

lemma normal_rooted_clean: "clean p = p \<Longrightarrow> p = render (is_abs p) (elements p)"
  by (simp add: clean_def)

text \<open>Below a solid base, a normal extension consists of plain elements.\<close>

lemma normal_stack_below:
  "normal_stack r (us @ v # st) \<Longrightarrow> v \<noteq> ''..'' \<Longrightarrow> list_all plain_elem us"
proof (induction us)
  case (Cons u us)
  then have "list_all plain_elem us" by simp
  moreover from this Cons.prems have "hd (us @ v # st) \<noteq> ''..''"
    by (cases us) auto
  ultimately show ?case
    using Cons.prems by (auto split: if_splits)
qed simp

lemma normal_below:
  assumes "normal r (vs @ us)" and "vs \<noteq> []" and "last vs \<noteq> ''..''"
  shows "list_all plain_elem us"
proof -
  have "normal_stack r (rev us @ last vs # rev (butlast vs))"
    using assms by (metis normal_def rev_append append_butlast_last_id append_Cons append_Nil rev.simps)
  then have "list_all plain_elem (rev us)"
    using assms(3) by (rule normal_stack_below)
  then show ?thesis by simp
qed

text \<open>For a cleaned path and a solid base, the string test is containment.\<close>

lemma within_beneath:
  assumes "solid_base base" and "clean p = p" and "is_abs p = is_abs base"
  shows "within p base \<longleftrightarrow> beneath p base"
proof -
  let ?r = "is_abs base"
  have b: "base = render ?r (elements base)" "elements base \<noteq> []" "last (elements base) \<noteq> ''..''"
    using assms(1) normal_rooted_clean by (auto simp: solid_base_def)
  have p: "p = render ?r (elements p)"
    using assms(2,3) normal_rooted_clean [of p] by simp
  have n: "normal ?r (elements p)" "normal ?r (elements base)"
    using elements_normal [of p] elements_normal [of base] assms(3) by simp_all
  have "within p base \<longleftrightarrow> prefix (elements base) (elements p)"
    using within_render [OF n] b(2) p b(1) by (metis prefix_order.order_iff_strict)
  also have "\<dots> \<longleftrightarrow> beneath p base"
    using assms n b(2,3) normal_below [of ?r "elements base"]
    by (auto simp: beneath_def elim!: prefixE)
  finally show ?thesis .
qed

section \<open>Resolution\<close>

lemma solid_base_render:
  "solid_base base \<Longrightarrow> base = render (is_abs base) (elements base)"
  using normal_rooted_clean by (simp add: solid_base_def)

lemma path_join_base:
  assumes "clean base = base"
  shows "path_join [base, name] =
    render (is_abs base) (rev (clean_from (is_abs base) (rev (elements base)) (split_on slash name)))"
  using elements_path_join [OF elements_normal [of base], of name] normal_rooted_clean [OF assms] by simp

lemma path_join_base_clean:
  assumes "clean base = base"
  shows "clean (path_join [base, name]) = path_join [base, name]"
    and "is_abs (path_join [base, name]) = is_abs base"
  using normal_walk [OF elements_normal [of base], of name] assms
  by (simp_all add: path_join_base del: path_join.simps)

lemma solid_base_clean: "solid_base base \<Longrightarrow> clean base = base"
  by (simp add: solid_base_def)

lemma resolve_solid:
  assumes "solid_base base"
  shows "resolve base name =
    (if is_abs name \<or> \<not> beneath (path_join [base, name]) base then Inl ErrEscape
     else Inr (path_join [base, name]))"
proof -
  note c = solid_base_clean [OF assms]
  have "within (path_join [base, name]) base \<longleftrightarrow> beneath (path_join [base, name]) base"
    using within_beneath [OF assms] path_join_base_clean [OF c] by blast
  then show ?thesis by (simp add: resolve_def Let_def del: path_join.simps)
qed

text \<open>A name with no \<^verbatim>\<open>..\<close> only ever pushes elements.\<close>

lemma clean_step_plain:
  "slash \<notin> set c \<Longrightarrow> c \<noteq> ''..'' \<Longrightarrow>
    \<exists>us. clean_step r st c = us @ st \<and> list_all plain_elem us"
  by (cases "c = [] \<or> c = ''.''") (auto simp: clean_step_def plain_elem_def intro: exI [of _ "[c]"])

lemma clean_from_plain:
  "\<forall>c \<in> set cs. slash \<notin> set c \<Longrightarrow> ''..'' \<notin> set cs \<Longrightarrow>
    \<exists>us. clean_from r st cs = us @ st \<and> list_all plain_elem us"
proof (induction cs arbitrary: st)
  case (Cons c cs)
  then have c: "slash \<notin> set c" "c \<noteq> ''..''" by auto
  obtain us where us: "clean_step r st c = us @ st" "list_all plain_elem us"
    using clean_step_plain [OF c] by blast
  obtain vs where "clean_from r (us @ st) cs = vs @ us @ st" "list_all plain_elem vs"
    using Cons by fastforce
  with us show ?case by (intro exI [of _ "vs @ us"]) simp
qed simp

lemma beneath_plain_name:
  assumes "clean base = base" and "''..'' \<notin> set (split_on slash name)"
  shows "beneath (path_join [base, name]) base"
proof -
  obtain us where us: "clean_from (is_abs base) (rev (elements base)) (split_on slash name)
      = us @ rev (elements base)" "list_all plain_elem us"
    using clean_from_plain [OF split_on_elems assms(2)] by blast
  have "elements (path_join [base, name]) = elements base @ rev us"
    using elements_render [OF normal_walk [OF elements_normal [of base], of name]] us(1)
    by (simp add: path_join_base assms(1) del: path_join.simps)
  then show ?thesis
    using us(2) path_join_base_clean [OF assms(1), of name] by (simp add: beneath_def del: path_join.simps)
qed

interpretation guard: path_resolver resolve solid_base beneath
proof unfold_locales
  fix base name p
  assume "solid_base base" "resolve base name = Inr p"
  then show "beneath p base" by (auto simp: resolve_solid split: if_splits)
next
  fix base name
  assume "is_abs name"
  then show "\<exists>e. resolve base name = Inl e" by (simp add: resolve_def)
next
  fix base name
  assume "solid_base base" "\<not> is_abs name" "''..'' \<notin> set (split_on slash name)"
  then show "resolve base name = Inr (path_join [base, name])"
    using beneath_plain_name solid_base_clean by (simp add: resolve_solid del: path_join.simps)
qed

lemma clean_from_no_dotdot:
  "''..'' \<notin> set cs \<Longrightarrow> clean_from r st cs = rev (filter (\<lambda>w. w \<noteq> [] \<and> w \<noteq> ''.'') cs) @ st"
  by (induction cs arbitrary: st) (auto simp: clean_step_def)

lemma resolve_hollow_base:
  assumes "clean base = base" and "elements base = []" and "resolve base name = Inr p"
  shows "p = base"
proof -
  let ?r = "is_abs base" and ?p = "path_join [base, name]"
  have p: "p = ?p" "within ?p base"
    using assms(3) by (auto simp: resolve_def Let_def simp del: path_join.simps split: if_splits)
  have n: "normal ?r (elements ?p)" and e: "base = render ?r []" "?p = render ?r (elements ?p)"
    using path_join_base_clean [OF assms(1), of name] elements_normal [of ?p]
      normal_rooted_clean [OF assms(1)] normal_rooted_clean [of ?p] assms(2)
    by (simp_all del: path_join.simps)
  have "elements ?p = []"
    using within_render [OF n normal_Nil] p(2) e by metis
  with p(1) e show ?thesis by metis
qed

lemma within_join:
  assumes "clean base = base"
  shows "within (path_join [base, name]) base \<longleftrightarrow>
    path_join [base, name] = base \<or> elements base \<noteq> [] \<and> prefix (elements base) (elements (path_join [base, name]))"
proof -
  let ?r = "is_abs base" and ?p = "path_join [base, name]"
  have n: "normal ?r (elements ?p)" "normal ?r (elements base)"
    and e: "base = render ?r (elements base)" "?p = render ?r (elements ?p)"
    using path_join_base_clean [OF assms, of name] elements_normal [of ?p] elements_normal [of base]
      normal_rooted_clean [OF assms] normal_rooted_clean [of ?p]
    by (simp_all del: path_join.simps)
  have eq: "elements ?p = elements base \<longleftrightarrow> ?p = base" using e by metis
  have "within ?p base \<longleftrightarrow> elements ?p = elements base \<or> elements base \<noteq> [] \<and> strict_prefix (elements base) (elements ?p)"
    using within_render [OF n] e by metis
  then show ?thesis unfolding eq [symmetric] by (metis prefix_order.order_iff_strict)
qed

section \<open>Properties\<close>

text \<open>
  C25: what \<^verbatim>\<open>Resolve\<close> returns, for every cleaned base.  It returns a path exactly for a
  relative name whose cleaned join with the base is the base or, if the base has elements, has
  them as a prefix of its own; and then it returns that join.  If the last element of the base
  is a real name this is containment: the path then lies beneath the base.  Under a base that
  ends in \<^verbatim>\<open>..\<close> it is not (\<^verbatim>\<open>resolve_dotdot_base_escapes\<close>), and under \<^verbatim>\<open>/\<close> and \<^verbatim>\<open>.\<close>
  only the base itself is returned.
\<close>

theorem resolve_contained:
  assumes "clean base = base"
  shows "(resolve base name = Inr p \<longleftrightarrow>
      \<not> is_abs name \<and> p = path_join [base, name] \<and>
      (p = base \<or> elements base \<noteq> [] \<and> prefix (elements base) (elements p))) \<and>
    (solid_base base \<longrightarrow>
      (resolve base name = Inr p \<longleftrightarrow> \<not> is_abs name \<and> p = path_join [base, name] \<and> beneath p base))"
proof (intro conjI impI)
  show "resolve base name = Inr p \<longleftrightarrow>
      \<not> is_abs name \<and> p = path_join [base, name] \<and>
      (p = base \<or> elements base \<noteq> [] \<and> prefix (elements base) (elements p))"
    using within_join [OF assms, of name]
    by (auto simp: resolve_def Let_def simp del: path_join.simps split: if_splits)
  assume "solid_base base"
  then show "resolve base name = Inr p \<longleftrightarrow> \<not> is_abs name \<and> p = path_join [base, name] \<and> beneath p base"
    using resolve_solid [of base name] by (auto simp del: path_join.simps split: if_splits)
qed

theorem resolve_contained_witness:
  "resolve ''/srv/jobs'' ''sub/../report.js'' = Inr ''/srv/jobs/report.js'' \<and>
   beneath ''/srv/jobs/report.js'' ''/srv/jobs'' \<and>
   (\<forall>p. resolve ''/srv/jobs'' ''../x'' \<noteq> Inr p)"
proof -
  have b: "clean ''/srv/jobs'' = ''/srv/jobs''" "solid_base ''/srv/jobs''" by code_simp+
  have "path_join [''/srv/jobs'', ''sub/../report.js''] = ''/srv/jobs/report.js''"
    "beneath ''/srv/jobs/report.js'' ''/srv/jobs''"
    "path_join [''/srv/jobs'', ''../x''] = ''/srv/x''" "\<not> beneath ''/srv/x'' ''/srv/jobs''" by code_simp+
  moreover have "resolve ''/srv/jobs'' name = Inr p \<longleftrightarrow>
      \<not> is_abs name \<and> p = path_join [''/srv/jobs'', name] \<and> beneath p ''/srv/jobs''" for name p
    using resolve_contained [OF b(1), of name p] b(2) by blast
  ultimately show ?thesis by (simp add: is_abs_def del: path_join.simps)
qed

text \<open>
  A relative name without \<^verbatim>\<open>..\<close> elements is always found, at the base's elements
  followed by the name's own (empty and \<^verbatim>\<open>.\<close> elements dropped).
\<close>

lemma resolve_plain_name:
  assumes "solid_base base" and "\<not> is_abs name" and "''..'' \<notin> set (split_on slash name)"
  shows "resolve base name =
    Inr (render (is_abs base)
      (elements base @ filter (\<lambda>w. w \<noteq> [] \<and> w \<noteq> ''.'') (split_on slash name)))"
  using guard.res_plain [OF assms] path_join_base [OF solid_base_clean [OF assms(1)], of name] assms(3)
  by (simp add: clean_from_no_dotdot del: path_join.simps)

text \<open>
  The string test alone does not contain a base that ends in \<^verbatim>\<open>..\<close>: under the
  cleaned base \<^verbatim>\<open>..\<close> the name \<^verbatim>\<open>../w\<close> climbs one level above the base and is
  accepted, for every plain element \<^verbatim>\<open>w\<close>.
\<close>

lemma resolve_dotdot_base_escapes:
  assumes "plain_elem w"
  shows "clean ''..'' = ''..'' \<and>
    resolve ''..'' (''../'' @ w) = Inr (''../../'' @ w) \<and>
    \<not> beneath (''../../'' @ w) ''..''"
proof -
  have w: "slash \<notin> set w" "w \<noteq> []" "w \<noteq> ''.''" "w \<noteq> ''..''"
    using assms by (auto simp: plain_elem_def)
  have j: "path_join [''..'', ''../'' @ w] = ''../../'' @ w"
    using w by (simp add: clean_def elements_def is_abs_def clean_from_def clean_step_def render_def)
  have e: "elements (''../../'' @ w) = [''..'', ''..'', w]"
    using w by (simp add: elements_def is_abs_def clean_from_def clean_step_def)
  have "clean ''..'' = ''..''" "elements ''..'' = [''..'']" by code_simp+
  moreover have "resolve ''..'' (''../'' @ w) = Inr (''../../'' @ w)"
    using j by (simp add: resolve_def within_def has_prefix_def is_abs_def del: path_join.simps)
  ultimately show ?thesis using e by (simp add: beneath_def)
qed

text \<open>
  Under the cleaned bases without elements, \<^verbatim>\<open>/\<close> and \<^verbatim>\<open>.\<close>, \<^verbatim>\<open>Resolve\<close> accepts no
  path but the base itself, although every relative name lies below them.
\<close>

lemma resolve_root_and_dot:
  assumes "base \<in> {''/'', ''.''}" and "resolve base name = Inr p"
  shows "p = base"
proof -
  have "clean base = base \<and> elements base = []"
    using assms(1) by (elim insertE emptyE) (simp; code_simp)+
  with assms(2) show ?thesis by (blast intro: resolve_hollow_base)
qed

end
