(* ===== verification/Job_Host.thy ===== *)
theory Job_Host
  imports Complex_Main Event_Client Pathguard
begin

text \<open>
  The host object of a job script, \<^verbatim>\<open>internal/jobrunner/host.go\<close>: publishing, processes,
  files, HTTP and logging, with the bounds they put on what comes back.  The operating system,
  the processes and the network are parameters; each operation returns the system calls it
  makes, in order, next to its result.
\<close>

section \<open>Configuration and values from scripts\<close>

record job_config =
  jobs_dir :: string
  workdir_base :: string
  max_file_bytes :: int
  max_output_bytes :: int
  http_max_bytes :: int

definition default_max_file_bytes :: int where "default_max_file_bytes = 67108864"
definition default_max_output_bytes :: int where "default_max_output_bytes = 1048576"
definition default_http_max_bytes :: int where "default_http_max_bytes = 8388608"
definition max_publish_payload :: nat where "max_publish_payload = 1048576"

definition with_defaults :: "job_config \<Rightarrow> job_config" where
  "with_defaults c =
     c\<lparr>max_file_bytes := (if max_file_bytes c \<le> 0 then default_max_file_bytes else max_file_bytes c),
       max_output_bytes := (if max_output_bytes c \<le> 0 then default_max_output_bytes else max_output_bytes c),
       http_max_bytes := (if http_max_bytes c \<le> 0 then default_http_max_bytes else http_max_bytes c)\<rparr>"

record job =
  j_id :: string
  j_name :: string
  j_workflow :: string
  j_args :: "string list"

text \<open>
  A JavaScript value as the engine exports it.  An options object is a map, or nil when the
  script left it out.  Integers have 64 bits; a float converts to one by truncation, and one that
  is not finite or out of range to the least integer, as on amd64 (the language leaves it to the
  implementation).
\<close>

datatype js_value =
    JS_string string
  | JS_int int
  | JS_float rat
  | JS_not_finite
  | JS_map "(string \<times> js_value) list"
  | JS_other

type_synonym js_options = "(string \<times> js_value) list option"

definition opt_value :: "js_options \<Rightarrow> string \<Rightarrow> js_value option" where
  "opt_value m key = (case m of None \<Rightarrow> None | Some kvs \<Rightarrow> map_of kvs key)"

definition opt_string :: "js_options \<Rightarrow> string \<Rightarrow> string \<Rightarrow> string" where
  "opt_string m key d = (case opt_value m key of Some (JS_string s) \<Rightarrow> s | _ \<Rightarrow> d)"

definition least_int :: int where "least_int = - (2 ^ 63)"

definition float_to_int :: "rat \<Rightarrow> int" where
  "float_to_int q =
     (let n = (if q \<ge> 0 then \<lfloor>q\<rfloor> else \<lceil>q\<rceil>) in if least_int \<le> n \<and> n < 2 ^ 63 then n else least_int)"

definition opt_int :: "js_options \<Rightarrow> string \<Rightarrow> int \<Rightarrow> int" where
  "opt_int m key d =
     (case opt_value m key of
        Some (JS_int n) \<Rightarrow> signed_take_bit 63 n
      | Some (JS_float q) \<Rightarrow> float_to_int q
      | Some JS_not_finite \<Rightarrow> least_int
      | _ \<Rightarrow> d)"

text \<open>\<^verbatim>\<open>time.Duration(ms) * time.Millisecond\<close>, in nanoseconds: the product wraps.\<close>

definition milliseconds :: "int \<Rightarrow> int" where
  "milliseconds ms = signed_take_bit 63 (ms * 1000000)"

definition opt_string_map :: "js_options \<Rightarrow> string \<Rightarrow> (string \<times> string) list" where
  "opt_string_map m key =
     (case opt_value m key of
        Some (JS_map kvs) \<Rightarrow>
          List.map_filter (\<lambda>(k, v). case v of JS_string s \<Rightarrow> Some (k, s) | _ \<Rightarrow> None) kvs
      | _ \<Rightarrow> [])"

section \<open>Publishing\<close>

datatype payload_arg = No_payload | Unmarshallable | Payload_json bytes

datatype job_publish_error = Bad_type string | Workflow_too_long | Bad_payload | Payload_too_large | Client_error client_error

definition job_publish ::
  "(client_event \<Rightarrow> 's \<Rightarrow> client_error option \<times> 's) \<Rightarrow> job \<Rightarrow> string \<Rightarrow> string \<Rightarrow> payload_arg \<Rightarrow> 's \<Rightarrow>
   job_publish_error option \<times> 's" where
  "job_publish pub j ty workflow arg s =
     (if \<not> valid_type ty then (Some (Bad_type ty), s)
      else
        let wid = (if workflow = [] then j_workflow j else workflow) in
        if length wid > max_workflow_id_len then (Some Workflow_too_long, s)
        else
          (case arg of
             Unmarshallable \<Rightarrow> (Some Bad_payload, s)
           | Payload_json p \<Rightarrow>
               if length p > max_publish_payload then (Some Payload_too_large, s)
               else apfst (map_option Client_error) (pub \<lparr>ce_type = ty, ce_workflow = wid, ce_payload = p\<rparr> s)
           | No_payload \<Rightarrow>
               apfst (map_option Client_error) (pub \<lparr>ce_type = ty, ce_workflow = wid, ce_payload = []\<rparr> s)))"

section \<open>Processes\<close>

text \<open>\<^verbatim>\<open>capBuf\<close>: the bytes kept, and the count each write reports.\<close>

definition cap_write :: "int \<Rightarrow> bytes \<Rightarrow> bytes \<Rightarrow> bytes \<times> nat" where
  "cap_write limit b p =
     (if limit > 0 then
        let room = limit - int (length b) in
        if room \<le> 0 then (b, length p)
        else if int (length p) > room then (b @ take (nat room) p, length p)
        else (b @ p, length p)
      else (b @ p, length p))"

definition cap_capture :: "int \<Rightarrow> bytes list \<Rightarrow> bytes" where
  "cap_capture limit ps = foldl (\<lambda>b p. fst (cap_write limit b p)) [] ps"

record command =
  cmd_argv :: "string list"
  cmd_dir :: string
  cmd_env :: "string list option"
  cmd_stdin :: bytes
  cmd_timeout :: "int option"

datatype command_end =
    Ran "bytes list" "bytes list" int
  | Did_not_run "bytes list" "bytes list" "int option"

record command_result =
  cr_stdout :: bytes
  cr_stderr :: bytes
  cr_code :: int

definition job_exec ::
  "job_config \<Rightarrow> string list \<Rightarrow> (command \<Rightarrow> command_end) \<Rightarrow> string \<Rightarrow> string list \<Rightarrow> js_options \<Rightarrow>
   command \<times> (command_result + command_result)" where
  "job_exec cfg environ run bin args opts =
     (let ms = opt_int opts ''timeoutMs'' 0;
          env = opt_string_map opts ''env'';
          cmd = \<lparr>cmd_argv = bin # args,
            cmd_dir = opt_string opts ''cwd'' [],
            cmd_env = (if length env > 0 then Some (environ @ map (\<lambda>(k, v). k @ ''='' @ v) env) else None),
            cmd_stdin = opt_string opts ''stdin'' [],
            cmd_timeout = (if ms > 0 then Some (milliseconds ms) else None)\<rparr>;
          limit = opt_int opts ''maxOutputBytes'' (max_output_bytes cfg)
      in (cmd,
          case run cmd of
            Ran out err code \<Rightarrow>
              Inr \<lparr>cr_stdout = cap_capture limit out, cr_stderr = cap_capture limit err, cr_code = code\<rparr>
          | Did_not_run out err code \<Rightarrow>
              Inl \<lparr>cr_stdout = cap_capture limit out, cr_stderr = cap_capture limit err,
                cr_code = (case code of None \<Rightarrow> 0 | Some n \<Rightarrow> n)\<rparr>))"

section \<open>Files\<close>

definition fs_path :: "string \<Rightarrow> string \<Rightarrow> string" where
  "fs_path workdir name = (if is_abs name then clean name else path_join [workdir, name])"

datatype syscall =
    Sys_stat string | Sys_read string | Sys_mkdir_all string | Sys_open string bool | Sys_write bytes
  | Sys_readdir string | Sys_remove string | Sys_rename string string

record job_os =
  os_size :: "string \<Rightarrow> int option"
  os_read :: "string \<Rightarrow> bytes option"
  os_mkdir :: "string \<Rightarrow> bool"
  os_open :: "string \<Rightarrow> bool"
  os_write :: "string \<Rightarrow> bool"
  os_list :: "string \<Rightarrow> string list option"
  os_remove :: "string \<Rightarrow> bool"
  os_rename :: "string \<Rightarrow> string \<Rightarrow> bool"

datatype job_fs_error = Too_big string | Os_failed

definition job_read :: "job_config \<Rightarrow> job_os \<Rightarrow> string \<Rightarrow> string \<Rightarrow> syscall list \<times> (job_fs_error + bytes)" where
  "job_read cfg os workdir name =
     (let p = fs_path workdir name in
      case os_size os p of
        None \<Rightarrow> ([Sys_stat p], Inl Os_failed)
      | Some n \<Rightarrow>
          if n > max_file_bytes cfg then ([Sys_stat p], Inl (Too_big name))
          else ([Sys_stat p, Sys_read p], case os_read os p of None \<Rightarrow> Inl Os_failed | Some b \<Rightarrow> Inr b))"

definition job_put ::
  "job_config \<Rightarrow> job_os \<Rightarrow> string \<Rightarrow> string \<Rightarrow> bytes \<Rightarrow> bool \<Rightarrow> syscall list \<times> job_fs_error option" where
  "job_put cfg os workdir name data append_mode =
     (if int (length data) > max_file_bytes cfg then ([], Some (Too_big name))
      else
        let p = fs_path workdir name in
        if \<not> os_mkdir os (dir_of p) then ([Sys_mkdir_all (dir_of p)], Some Os_failed)
        else if \<not> os_open os p then ([Sys_mkdir_all (dir_of p), Sys_open p append_mode], Some Os_failed)
        else ([Sys_mkdir_all (dir_of p), Sys_open p append_mode, Sys_write data],
              if os_write os p then None else Some Os_failed))"

definition job_write :: "job_config \<Rightarrow> job_os \<Rightarrow> string \<Rightarrow> string \<Rightarrow> bytes \<Rightarrow> syscall list \<times> job_fs_error option" where
  "job_write cfg os workdir name data = job_put cfg os workdir name data False"

definition job_append :: "job_config \<Rightarrow> job_os \<Rightarrow> string \<Rightarrow> string \<Rightarrow> bytes \<Rightarrow> syscall list \<times> job_fs_error option" where
  "job_append cfg os workdir name data = job_put cfg os workdir name data True"

definition job_exists :: "job_os \<Rightarrow> string \<Rightarrow> string \<Rightarrow> syscall list \<times> bool" where
  "job_exists os workdir name =
     ([Sys_stat (fs_path workdir name)], os_size os (fs_path workdir name) \<noteq> None)"

definition job_list :: "job_os \<Rightarrow> string \<Rightarrow> string \<Rightarrow> syscall list \<times> (job_fs_error + string list)" where
  "job_list os workdir name =
     ([Sys_readdir (fs_path workdir name)],
      case os_list os (fs_path workdir name) of None \<Rightarrow> Inl Os_failed | Some names \<Rightarrow> Inr names)"

definition job_mkdir :: "job_os \<Rightarrow> string \<Rightarrow> string \<Rightarrow> syscall list \<times> job_fs_error option" where
  "job_mkdir os workdir name =
     ([Sys_mkdir_all (fs_path workdir name)], if os_mkdir os (fs_path workdir name) then None else Some Os_failed)"

definition job_remove :: "job_os \<Rightarrow> string \<Rightarrow> string \<Rightarrow> syscall list \<times> job_fs_error option" where
  "job_remove os workdir name =
     ([Sys_remove (fs_path workdir name)], if os_remove os (fs_path workdir name) then None else Some Os_failed)"

definition job_rename :: "job_os \<Rightarrow> string \<Rightarrow> string \<Rightarrow> string \<Rightarrow> syscall list \<times> job_fs_error option" where
  "job_rename os workdir old_name new_name =
     ([Sys_rename (fs_path workdir old_name) (fs_path workdir new_name)],
      if os_rename os (fs_path workdir old_name) (fs_path workdir new_name) then None else Some Os_failed)"

section \<open>HTTP and logging\<close>

text \<open>\<^verbatim>\<open>strings.ToUpper\<close> on a method name; a name outside ASCII is no method.\<close>

definition upper :: "char \<Rightarrow> char" where
  "upper c = (if CHR ''a'' \<le> c \<and> c \<le> CHR ''z'' then char_of (of_char c - 32 :: nat) else c)"

record http_call =
  hc_url :: string
  hc_method :: string
  hc_timeout :: int
  hc_body :: bytes
  hc_headers :: "(string \<times> string) list"

record http_answer =
  ha_status :: int
  ha_headers :: "(string \<times> string list) list"
  ha_body :: bytes

datatype http_error = Url_required | Bad_request_line | Request_failed

definition http_request ::
  "job_config \<Rightarrow> (http_call \<Rightarrow> bool) \<Rightarrow> (http_call \<Rightarrow> http_answer option) \<Rightarrow> js_options \<Rightarrow>
   http_call option \<times> (http_error + http_answer)" where
  "http_request cfg well_formed send opts =
     (let url = opt_string opts ''url'' [] in
      if url = [] then (None, Inl Url_required)
      else
        let call = \<lparr>hc_url = url,
              hc_method = map upper (opt_string opts ''method'' ''GET''),
              hc_timeout = milliseconds (opt_int opts ''timeoutMs'' 30000),
              hc_body = opt_string opts ''body'' [],
              hc_headers = opt_string_map opts ''headers''\<rparr>;
            limit = opt_int opts ''maxBytes'' (http_max_bytes cfg)
        in if \<not> well_formed call then (None, Inl Bad_request_line)
           else (Some call,
             case send call of
               None \<Rightarrow> Inl Request_failed
             | Some a \<Rightarrow> Inr (a\<lparr>ha_body := take (nat limit) (ha_body a)\<rparr>)))"

datatype log_level = Debug | Info | Warn | Error

definition job_log_level :: "string \<Rightarrow> log_level" where
  "job_log_level level =
     (let l = map lower level in
      if l = ''debug'' then Debug
      else if l = ''warn'' \<or> l = ''warning'' then Warn
      else if l = ''error'' then Error
      else Info)"

definition job_log ::
  "bool \<Rightarrow> job \<Rightarrow> string \<Rightarrow> string \<Rightarrow> (string \<times> js_value) list \<Rightarrow>
   (log_level \<times> string \<times> (string \<times> js_value) list) option" where
  "job_log has_logger j level msg flds =
     (if \<not> has_logger then None
      else Some (job_log_level level, msg,
        [(''job'', JS_string (j_name j)), (''jobId'', JS_string (j_id j))] @ flds))"

section \<open>Facts\<close>

lemma cap_write_length: "snd (cap_write limit b p) = length p"
  by (simp add: cap_write_def Let_def)

lemma cap_write_take:
  "limit > 0 \<Longrightarrow> fst (cap_write limit (take (nat limit) b) p) = take (nat limit) (b @ p)"
  by (auto simp: cap_write_def Let_def min_def not_le nat_diff_distrib)

lemma cap_foldl:
  "foldl (\<lambda>b p. fst (cap_write limit b p)) (if limit > 0 then take (nat limit) b else b) ps =
     (if limit > 0 then take (nat limit) (b @ concat ps) else b @ concat ps)"
proof (induction ps arbitrary: b)
  case (Cons p ps)
  then show ?case
    using Cons.IH [of "b @ p"] by (cases "limit > 0") (simp_all add: cap_write_take, simp add: cap_write_def)
qed simp

lemma cap_capture_spec: "cap_capture limit ps = (if limit > 0 then take (nat limit) (concat ps) else concat ps)"
  using cap_foldl [of limit "[]" ps] by (cases "limit > 0") (simp_all add: cap_capture_def)

end
