(* ===== verification/Job_Runner.thy ===== *)
theory Job_Runner
  imports Job_Host
begin

text \<open>
  Resolving and running a job, \<^verbatim>\<open>internal/jobrunner/jobrunner.go\<close>.  A script is a strategy, as in \<^verbatim>\<open>Plugin_Host\<close>: given the
  replies to its host calls it makes another call or ends.  The list of environments bounds the
  calls; when it is used up the deadline has passed and the watchdog interrupts the script.

  Everything a run does shares one context with a deadline.  Each environment says how much time has
  passed when its call is made, and a clock when the job was resolved and when its run ended: what
  happens after the deadline happens on a context that is done, which starts no process and sends no
  request.
\<close>

section \<open>Resolving\<close>

datatype file_kind = Missing | Regular | Not_regular

datatype resolve_error =
    Job_escape string | Job_stat string | Job_not_regular string | Job_unreadable string

definition resolve_job ::
  "(string \<Rightarrow> file_kind) \<Rightarrow> (string \<Rightarrow> bytes option) \<Rightarrow> string \<Rightarrow> string \<Rightarrow> resolve_error + string \<times> bytes" where
  "resolve_job kind read_file dir name =
     (case resolve (clean dir) name of
        Inl err \<Rightarrow> Inl (Job_escape name)
      | Inr full \<Rightarrow>
          (case kind full of
             Missing \<Rightarrow> Inl (Job_stat name)
           | Not_regular \<Rightarrow> Inl (Job_not_regular name)
           | Regular \<Rightarrow>
               (case read_file full of
                  None \<Rightarrow> Inl (Job_unreadable name)
                | Some b \<Rightarrow> Inr (full, b))))"

section \<open>Running\<close>

datatype job_call =
    J_publish string string payload_arg
  | J_exec string "string list" js_options
  | J_read string | J_write string bytes | J_append string bytes | J_exists string | J_list string
  | J_mkdir string | J_remove string | J_rename string string
  | J_http js_options

datatype job_reply =
    J_none | J_throws | J_text bytes | J_names "string list" | J_bool bool
  | J_result command_result | J_answer http_answer

record job_env =
  je_elapsed :: int
  je_environ :: "string list"
  je_run :: "command \<Rightarrow> command_end"
  je_os :: job_os
  je_well_formed :: "http_call \<Rightarrow> bool"
  je_send :: "http_call \<Rightarrow> http_answer option"

text \<open>What a job acts on: the publisher's state, the commands started, the file system calls.\<close>

record 's job_world =
  jw_pub :: 's
  jw_commands :: "command list"
  jw_syscalls :: "syscall list"

type_synonym 's job_publisher = "bool \<Rightarrow> client_event \<Rightarrow> 's \<Rightarrow> client_error option \<times> 's"

definition add_syscalls :: "syscall list \<Rightarrow> 's job_world \<Rightarrow> 's job_world" where
  "add_syscalls cs w = w\<lparr>jw_syscalls := jw_syscalls w @ cs\<rparr>"

text \<open>The context after so many nanoseconds, and the times a run reads outside of its calls.\<close>

definition ctx_done :: "int \<Rightarrow> int \<Rightarrow> bool" where
  "ctx_done wall elapsed = (wall \<le> elapsed)"

record job_clock =
  ck_resolved :: int
  ck_ended :: int

definition throw_unless :: "bool \<Rightarrow> job_reply \<Rightarrow> job_reply" where
  "throw_unless ok r = (if ok then r else J_throws)"

definition job_step ::
  "job_config \<Rightarrow> 's job_publisher \<Rightarrow> int \<Rightarrow> job \<Rightarrow> string \<Rightarrow> job_env \<Rightarrow> job_call \<Rightarrow> 's job_world \<Rightarrow> job_reply \<times> 's job_world" where
  "job_step cfg pub wall j workdir env c w =
     (let late = ctx_done wall (je_elapsed env) in
      case c of
        J_publish ty workflow arg \<Rightarrow>
          (case job_publish (pub late) j ty workflow arg (jw_pub w) of
             (err, s) \<Rightarrow> (throw_unless (err = None) J_none, w\<lparr>jw_pub := s\<rparr>))
      | J_exec bin args opts \<Rightarrow>
          (case job_exec cfg (je_environ env) (if late then (\<lambda>_. Did_not_run [] [] None) else je_run env) bin args opts of
             (cmd, r) \<Rightarrow> (case r of Inl _ \<Rightarrow> J_throws | Inr res \<Rightarrow> J_result res,
               w\<lparr>jw_commands := jw_commands w @ (if late then [] else [cmd])\<rparr>))
      | J_read name \<Rightarrow>
          (case job_read cfg (je_os env) workdir name of
             (cs, r) \<Rightarrow> (case r of Inl _ \<Rightarrow> J_throws | Inr b \<Rightarrow> J_text b, add_syscalls cs w))
      | J_write name d \<Rightarrow>
          (case job_write cfg (je_os env) workdir name d of
             (cs, err) \<Rightarrow> (throw_unless (err = None) J_none, add_syscalls cs w))
      | J_append name d \<Rightarrow>
          (case job_append cfg (je_os env) workdir name d of
             (cs, err) \<Rightarrow> (throw_unless (err = None) J_none, add_syscalls cs w))
      | J_exists name \<Rightarrow>
          (case job_exists (je_os env) workdir name of (cs, b) \<Rightarrow> (J_bool b, add_syscalls cs w))
      | J_list name \<Rightarrow>
          (case job_list (je_os env) workdir name of
             (cs, r) \<Rightarrow> (case r of Inl _ \<Rightarrow> J_throws | Inr ns \<Rightarrow> J_names ns, add_syscalls cs w))
      | J_mkdir name \<Rightarrow>
          (case job_mkdir (je_os env) workdir name of
             (cs, err) \<Rightarrow> (throw_unless (err = None) J_none, add_syscalls cs w))
      | J_remove name \<Rightarrow>
          (case job_remove (je_os env) workdir name of
             (cs, err) \<Rightarrow> (throw_unless (err = None) J_none, add_syscalls cs w))
      | J_rename a b \<Rightarrow>
          (case job_rename (je_os env) workdir a b of
             (cs, err) \<Rightarrow> (throw_unless (err = None) J_none, add_syscalls cs w))
      | J_http opts \<Rightarrow>
          (case http_request cfg (je_well_formed env) (if late then (\<lambda>_. None) else je_send env) opts of
             (call, r) \<Rightarrow> (case r of Inl _ \<Rightarrow> J_throws | Inr a \<Rightarrow> J_answer a, w)))"

datatype job_act = J_call job_call | J_return | J_throw | J_loop

datatype job_end = Job_finished | Job_threw | Job_interrupted

fun run_job_script ::
  "job_config \<Rightarrow> 's job_publisher \<Rightarrow> int \<Rightarrow> job \<Rightarrow> string \<Rightarrow> (job_reply list \<Rightarrow> job_act) \<Rightarrow> job_reply list \<Rightarrow>
   job_env list \<Rightarrow> 's job_world \<Rightarrow> job_end \<times> 's job_world" where
  "run_job_script cfg pub wall j workdir script replies envs w =
     (case script replies of
        J_return \<Rightarrow> (Job_finished, w)
      | J_throw \<Rightarrow> (Job_threw, w)
      | J_loop \<Rightarrow> (Job_interrupted, w)
      | J_call c \<Rightarrow>
          (case envs of
             [] \<Rightarrow> (Job_interrupted, w)
           | env # rest \<Rightarrow>
               (case job_step cfg pub wall j workdir env c w of
                  (r, w') \<Rightarrow> run_job_script cfg pub wall j workdir script (replies @ [r]) rest w')))"

declare run_job_script.simps [simp del]

datatype job_error =
    Resolve_error resolve_error | Workdir_failed string | Compile_failed string | Script_failed string | Timed_out string

definition run_source ::
  "job_config \<Rightarrow> 's job_publisher \<Rightarrow> int \<Rightarrow> (string \<Rightarrow> bool) \<Rightarrow> (string \<Rightarrow> bytes \<Rightarrow> 'prog option) \<Rightarrow>
   ('prog \<Rightarrow> job \<Rightarrow> job_reply list \<Rightarrow> job_act) \<Rightarrow> job_env list \<Rightarrow> job \<Rightarrow> bytes \<Rightarrow> 's job_world \<Rightarrow>
   job_error option \<times> 's job_world" where
  "run_source cfg0 pub wall mkdir compile engine envs j src w =
     (let cfg = with_defaults cfg0;
          workdir = path_join [workdir_base cfg, j_id j];
          w1 = (if workdir_base cfg \<noteq> [] then add_syscalls [Sys_mkdir_all workdir] w else w)
      in if workdir_base cfg \<noteq> [] \<and> \<not> mkdir workdir then (Some (Workdir_failed (j_name j)), w1)
         else case compile (j_name j) src of
           None \<Rightarrow> (Some (Compile_failed (j_name j)), w1)
         | Some prog \<Rightarrow>
             (case run_job_script cfg pub wall j workdir (engine prog j) [] envs w1 of
                (Job_finished, w2) \<Rightarrow> (None, w2)
              | (Job_threw, w2) \<Rightarrow> (Some (Script_failed (j_name j)), w2)
              | (Job_interrupted, w2) \<Rightarrow> (Some (Timed_out (j_name j)), w2)))"

text \<open>\<^verbatim>\<open>failed\<close>: the safety-net event, published best effort on the job's own context.\<close>

definition failed_payload :: "job \<Rightarrow> string \<Rightarrow> bytes" where
  "failed_payload j cause =
     write_object [(''error'', cause), (''job'', j_name j), (''jobId'', j_id j)]"

definition failed_event :: "job \<Rightarrow> string \<Rightarrow> client_event" where
  "failed_event j cause =
     \<lparr>ce_type = ''job_failed'', ce_workflow = j_workflow j, ce_payload = failed_payload j cause\<rparr>"

definition job_failed :: "'s job_publisher option \<Rightarrow> bool \<Rightarrow> job \<Rightarrow> string \<Rightarrow> 's job_world \<Rightarrow> 's job_world" where
  "job_failed pub late j cause w =
     (case pub of
        None \<Rightarrow> w
      | Some p \<Rightarrow> w\<lparr>jw_pub := snd (p late (failed_event j cause) (jw_pub w))\<rparr>)"

text \<open>
  Whether the context is done when a failure is reported: the watchdog interrupts only after the
  deadline.
\<close>

definition reported_late :: "int \<Rightarrow> job_clock \<Rightarrow> job_error \<Rightarrow> bool" where
  "reported_late wall clock err =
     (case err of
        Resolve_error _ \<Rightarrow> ctx_done wall (ck_resolved clock)
      | Timed_out _ \<Rightarrow> True
      | _ \<Rightarrow> ctx_done wall (ck_ended clock))"

text \<open>\<^verbatim>\<open>RunJob\<close> under a deadline; \<^verbatim>\<open>err_text\<close> renders an error, which is not modelled.\<close>

definition run_job ::
  "(job_error \<Rightarrow> string) \<Rightarrow> job_config \<Rightarrow> 's job_publisher \<Rightarrow> int \<Rightarrow> job_clock \<Rightarrow> (string \<Rightarrow> file_kind) \<Rightarrow>
   (string \<Rightarrow> bytes option) \<Rightarrow> (string \<Rightarrow> bool) \<Rightarrow> (string \<Rightarrow> bytes \<Rightarrow> 'prog option) \<Rightarrow>
   ('prog \<Rightarrow> job \<Rightarrow> job_reply list \<Rightarrow> job_act) \<Rightarrow> job_env list \<Rightarrow> job \<Rightarrow> 's job_world \<Rightarrow> job_error option \<times> 's job_world" where
  "run_job err_text cfg pub wall clock kind read_file mkdir compile engine envs j w =
     (let failed = (\<lambda>err. job_failed (Some pub) (reported_late wall clock err) j (err_text err)) in
      case resolve_job kind read_file (jobs_dir cfg) (j_name j) of
        Inl err \<Rightarrow> (Some (Resolve_error err), failed (Resolve_error err) w)
      | Inr (path, src) \<Rightarrow>
          (case run_source cfg pub wall mkdir compile engine envs j src w of
             (None, w') \<Rightarrow> (None, w')
           | (Some err, w') \<Rightarrow> (Some err, failed err w')))"

section \<open>Facts\<close>

text \<open>The resolver of job scripts obeys the contract of the path guard.\<close>

definition job_path :: "string \<Rightarrow> string \<Rightarrow> resolve_error + string" where
  "job_path dir name =
     map_sum id fst (resolve_job (\<lambda>_. Regular) (\<lambda>_. Some []) dir name)"

lemma resolve_job_Inr:
  "resolve_job kind read_file dir name = Inr (full, b) \<longleftrightarrow>
     resolve (clean dir) name = Inr full \<and> kind full = Regular \<and> read_file full = Some b"
  by (auto simp: resolve_job_def split: sum.splits file_kind.splits option.splits)

interpretation jobs: path_resolver job_path "\<lambda>d. solid_base d" beneath
proof unfold_locales
  fix base name p
  assume "solid_base base" "job_path base name = Inr p"
  then show "beneath p base"
    using guard.res_inside [of base name p] solid_base_clean [of base]
    by (auto simp: job_path_def resolve_job_def split: sum.splits)
next
  fix base name
  assume "is_abs name"
  then show "\<exists>e. job_path base name = Inl e"
    using guard.res_absolute [of name "clean base"] by (auto simp: job_path_def resolve_job_def)
next
  fix base name
  assume a: "solid_base base" "\<not> is_abs name" "''..'' \<notin> set (split_on slash name)"
  from guard.res_plain [OF a] show "job_path base name = Inr (path_join [base, name])"
    using solid_base_clean [OF a(1)] by (simp add: job_path_def resolve_job_def del: path_join.simps)
qed

text \<open>A server that takes every request, and records the bodies in order.\<close>

definition accepting_server :: "bytes \<Rightarrow> bytes list \<Rightarrow> (nat \<times> bytes) option \<times> bytes list" where
  "accepting_server body s = (Some (202, []), s @ [body])"

abbreviation recorded :: "bytes list job_publisher" where
  "recorded \<equiv> client_publish accepting_server"

lemma recorded_publish:
  "snd (recorded late e s) =
     (if late then s else case client_body e of None \<Rightarrow> s | Some b \<Rightarrow> s @ [b])"
  by (simp add: client_publish_def accepting_server_def split: option.split)

text \<open>A body the script had sent: that of an event with a valid type and a bounded workflow.\<close>

definition script_body :: "bytes \<Rightarrow> bool" where
  "script_body b \<longleftrightarrow>
     (\<exists>e. client_body e = Some b \<and> valid_type (ce_type e) \<and> length (ce_workflow e) \<le> 128 \<and>
        length (ce_payload e) \<le> 1048576)"

text \<open>
  What any publisher's state goes through in a run: the relation \<^verbatim>\<open>extends\<close> is the publisher's
  promise for the events the host lets through.
\<close>

definition job_event_ok :: "client_event \<Rightarrow> bool" where
  "job_event_ok e \<longleftrightarrow>
     valid_type (ce_type e) \<and> length (ce_workflow e) \<le> 128 \<and> length (ce_payload e) \<le> 1048576"

locale job_publishing =
  fixes pub :: "'s job_publisher" and extends :: "'s \<Rightarrow> 's \<Rightarrow> bool"
  assumes extends_refl: "extends s s"
    and extends_trans: "extends s t \<Longrightarrow> extends t u \<Longrightarrow> extends s u"
    and extends_publish: "job_event_ok e \<Longrightarrow> extends s (snd (pub late e s))"
begin

lemma publish_extends: "extends s (snd (job_publish (pub late) j ty workflow arg s))"
proof -
  let ?wid = "if workflow = [] then j_workflow j else workflow"
  have one: "extends s (snd (pub late \<lparr>ce_type = ty, ce_workflow = ?wid, ce_payload = p\<rparr> s))"
    if "valid_type ty" "length ?wid \<le> 128" "length p \<le> 1048576" for p
    using that by (intro extends_publish) (simp add: job_event_ok_def)
  show ?thesis
  proof (cases arg)
    case (Payload_json p)
    then show ?thesis
      using one [of p] extends_refl
      by (auto simp: job_publish_def Let_def max_workflow_id_len_def max_publish_payload_def)
  qed (use one [of "[]"] extends_refl in \<open>auto simp: job_publish_def Let_def max_workflow_id_len_def\<close>)
qed

lemma step_extends: "extends (jw_pub w) (jw_pub (snd (job_step cfg pub wall j workdir env c w)))"
proof (cases c)
  case (J_publish ty workflow arg)
  then show ?thesis
    using publish_extends [of "jw_pub w"] by (simp add: job_step_def Let_def case_prod_beta)
qed (simp_all add: job_step_def Let_def add_syscalls_def case_prod_beta extends_refl)

lemma script_extends: "extends (jw_pub w) (jw_pub (snd (run_job_script cfg pub wall j workdir script replies envs w)))"
proof (induction envs arbitrary: replies w)
  case Nil
  show ?case by (subst run_job_script.simps) (simp add: extends_refl split: job_act.split)
next
  case (Cons env envs)
  show ?case
  proof (cases "script replies")
    case (J_call c)
    obtain r w' where s: "job_step cfg pub wall j workdir env c w = (r, w')" by fastforce
    with J_call have e: "run_job_script cfg pub wall j workdir script replies (env # envs) w =
        run_job_script cfg pub wall j workdir script (replies @ [r]) envs w'"
      by (subst run_job_script.simps) simp
    have "extends (jw_pub w) (jw_pub w')" using step_extends s by (metis snd_conv)
    then show ?thesis unfolding e by (rule extends_trans) (rule Cons.IH)
  qed (subst run_job_script.simps, simp add: extends_refl)+
qed

lemma source_extends:
  assumes "run_source cfg pub wall mkdir compile engine envs j src w = (err, w')"
  shows "extends (jw_pub w) (jw_pub w')"
proof -
  let ?cfg = "with_defaults cfg" and ?wd = "path_join [workdir_base (with_defaults cfg), j_id j]"
  define w1 where "w1 = (if workdir_base ?cfg \<noteq> [] then add_syscalls [Sys_mkdir_all ?wd] w else w)"
  have p1: "jw_pub w1 = jw_pub w" by (simp add: w1_def add_syscalls_def)
  have run: "extends (jw_pub w) (jw_pub (snd (run_job_script ?cfg pub wall j ?wd script [] envs w1)))" for script
    using script_extends [of w1 ?cfg wall j ?wd script "[]" envs] p1 by simp
  consider "w' = w1" "err \<in> {Some (Workdir_failed (j_name j)), Some (Compile_failed (j_name j))}"
    | prog e where "run_job_script ?cfg pub wall j ?wd (engine prog j) [] envs w1 = (e, w')"
      "err = (case e of Job_finished \<Rightarrow> None | Job_threw \<Rightarrow> Some (Script_failed (j_name j))
        | Job_interrupted \<Rightarrow> Some (Timed_out (j_name j)))"
    using assms unfolding run_source_def Let_def w1_def [symmetric]
    by (auto split: if_splits option.splits prod.splits job_end.splits)
  then show "extends (jw_pub w) (jw_pub w')"
  proof cases
    case 1
    then show ?thesis using p1 extends_refl by auto
  next
    case (2 prog e)
    then show ?thesis using run [of "engine prog j"] by (cases e) auto
  qed
qed

text \<open>A run: the script's events, then the safety net on the job's own context.\<close>

lemma run_extends:
  obtains err w' s where
    "run_job err_text cfg pub wall clock kind read_file mkdir compile engine envs j w = (err, w')" "extends (jw_pub w) s"
    "jw_pub w' = (case err of None \<Rightarrow> s
      | Some x \<Rightarrow> snd (pub (reported_late wall clock x) (failed_event j (err_text x)) s))"
proof (cases "resolve_job kind read_file (jobs_dir cfg) (j_name j)")
  case (Inl err)
  show ?thesis
    by (rule that [OF _ extends_refl, of "Some (Resolve_error err)"
          "job_failed (Some pub) (reported_late wall clock (Resolve_error err)) j (err_text (Resolve_error err)) w"])
      (simp_all add: run_job_def job_failed_def Inl Let_def)
next
  case (Inr ps)
  obtain path src where ps: "ps = (path, src)" by (cases ps)
  obtain err w1 where r: "run_source cfg pub wall mkdir compile engine envs j src w = (err, w1)"
    by (cases "run_source cfg pub wall mkdir compile engine envs j src w") auto
  note e = source_extends [OF r]
  show ?thesis
  proof (cases err)
    case None
    show ?thesis
      by (rule that [OF _ e, of None w1]) (use Inr ps r None in \<open>simp_all add: run_job_def Let_def\<close>)
  next
    case (Some x)
    then show ?thesis
      by (intro that [OF _ e, of "Some x" "job_failed (Some pub) (reported_late wall clock x) j (err_text x) w1"])
        (use Inr ps r Some in \<open>simp_all add: run_job_def job_failed_def Let_def\<close>)
  qed
qed

end

definition records :: "bytes list \<Rightarrow> bytes list \<Rightarrow> bool" where
  "records s s' \<longleftrightarrow> (\<exists>bs. s' = s @ bs \<and> list_all script_body bs)"

interpretation recorder: job_publishing recorded records
proof
  show "records s s" for s by (simp add: records_def)
  show "records s u" if "records s t" "records t u" for s t u
    using that by (fastforce simp: records_def)
  show "records s (snd (recorded late e s))" if "job_event_ok e" for late e s
    using that by (cases "client_body e") (auto simp: records_def recorded_publish script_body_def job_event_ok_def)
qed

lemma failed_body_sent: "\<exists>b. client_body (failed_event j cause) = Some b"
proof -
  have "parse_json (failed_payload j cause) \<noteq> None"
    using scan_json_write [of "[(''error'', cause), (''job'', j_name j), (''jobId'', j_id j)]" "[]"]
    by (simp add: parse_json_def failed_payload_def skip_ws_def)
  then show ?thesis
    by (auto simp: client_body_def failed_event_def marshal_raw_def Let_def)
qed

section \<open>Properties\<close>

text \<open>
  A job name selects only a regular file beneath the jobs directory.  For a jobs directory
  that ends in a real name the script that runs is the content of the regular file the name
  spells there; absolute names and names that leave the directory are refused before the file
  system is asked.
\<close>

lemma job_resolution_contained:
  assumes "solid_base (clean dir)"
  shows "(case resolve_job kind read_file dir name of
      Inr (full, src) \<Rightarrow> full = path_join [clean dir, name] \<and> beneath full (clean dir) \<and>
        kind full = Regular \<and> read_file full = Some src
    | Inl (Job_escape n) \<Rightarrow> is_abs name \<or> \<not> beneath (path_join [clean dir, name]) (clean dir)
    | Inl _ \<Rightarrow> beneath (path_join [clean dir, name]) (clean dir))"
  using resolve_solid [OF assms, of name]
  by (auto simp: resolve_job_def simp del: path_join.simps split: file_kind.split option.split if_splits)

text \<open>
  A failed job is reported, unless its deadline has passed.  Against a server that takes every
  request, the bodies sent by a run are those of the script's own valid events and then, when
  the run failed in time, one \<^verbatim>\<open>job_failed\<close> event with the cause; a failure that is reported after
  the deadline sends none, because the event is published on the context that has expired.
\<close>

lemma job_failures_reported:
  "\<exists>bs. list_all script_body bs \<and>
     (case run_job err_text cfg recorded wall clock kind read_file mkdir compile engine envs j w of
        (None, w') \<Rightarrow> jw_pub w' = jw_pub w @ bs
      | (Some err, w') \<Rightarrow>
          (if reported_late wall clock err then jw_pub w' = jw_pub w @ bs
           else \<exists>b. client_body (failed_event j (err_text err)) = Some b \<and> jw_pub w' = jw_pub w @ bs @ [b]))"
proof -
  obtain err w' s where r: "run_job err_text cfg recorded wall clock kind read_file mkdir compile engine envs j w = (err, w')"
    and s: "records (jw_pub w) s"
    and w': "jw_pub w' = (case err of None \<Rightarrow> s
      | Some x \<Rightarrow> snd (recorded (reported_late wall clock x) (failed_event j (err_text x)) s))"
    by (rule recorder.run_extends)
  obtain bs where bs: "s = jw_pub w @ bs" "list_all script_body bs" using s by (auto simp: records_def)
  have "\<exists>b. client_body (failed_event j cause) = Some b \<and> snd (recorded False (failed_event j cause) s) = s @ [b]" for cause
    using failed_body_sent [of j cause] by (auto simp: recorded_publish)
  then show ?thesis
    unfolding r prod.case using w' bs
    by (intro exI [of _ bs]) (auto simp: recorded_publish split: option.split)
qed

text \<open>
  C40: captured output is bounded without failing the command.  A capture keeps exactly the
  first bytes of the stream up to its limit, however the command splits its writes, and tells
  the command every byte was taken; a job's command never yields more than the configured
  bound per stream unless the script chose another.
\<close>

theorem captured_output_bounded:
  "cap_capture limit ps = (if limit > 0 then take (nat limit) (concat ps) else concat ps) \<and>
   snd (cap_write limit b p) = length p \<and>
   (case snd (job_exec (with_defaults cfg) environ run bin args None) of
      Inl r \<Rightarrow> int (length (cr_stdout r)) \<le> max_output_bytes (with_defaults cfg) \<and>
        int (length (cr_stderr r)) \<le> max_output_bytes (with_defaults cfg)
    | Inr r \<Rightarrow> int (length (cr_stdout r)) \<le> max_output_bytes (with_defaults cfg) \<and>
        int (length (cr_stderr r)) \<le> max_output_bytes (with_defaults cfg))"
proof (intro conjI)
  have pos: "max_output_bytes (with_defaults cfg) > 0"
    by (simp add: with_defaults_def default_max_output_bytes_def)
  then have le: "int (length (cap_capture (max_output_bytes (with_defaults cfg)) ps)) \<le> max_output_bytes (with_defaults cfg)"
    for ps by (simp add: cap_capture_spec min_def le_nat_iff)
  show "case snd (job_exec (with_defaults cfg) environ run bin args None) of
      Inl r \<Rightarrow> int (length (cr_stdout r)) \<le> max_output_bytes (with_defaults cfg) \<and>
        int (length (cr_stderr r)) \<le> max_output_bytes (with_defaults cfg)
    | Inr r \<Rightarrow> int (length (cr_stdout r)) \<le> max_output_bytes (with_defaults cfg) \<and>
        int (length (cr_stderr r)) \<le> max_output_bytes (with_defaults cfg)"
    using le by (simp add: job_exec_def Let_def opt_int_def opt_value_def split: command_end.split)
qed (simp_all add: cap_capture_spec cap_write_length)

end
