(* ===== verification/Plugin_Exec.thy ===== *)
theory Plugin_Exec
  imports Prelude "HOL-Library.List_Lexorder"
begin

text \<open>
  The script capability \<^verbatim>\<open>exec\<close> of \<^verbatim>\<open>internal/plugin/exec.go\<close>.  The allowlist, a Go
  map, is an association list of logical names and argument templates (a lookup takes the
  first entry of a name, so the order does not matter for distinct names).  What the started
  process does is a parameter, a function of the whole command line.
\<close>

type_synonym allowlist = "(string \<times> string list) list"

record exec_capability =
  allow :: allowlist

definition max_exec_args :: nat where "max_exec_args = 64"
definition max_exec_arg_len :: nat where "max_exec_arg_len = 4096"

definition new_exec_capability :: "allowlist \<Rightarrow> exec_capability" where
  "new_exec_capability al = \<lparr>allow = map (\<lambda>(name, argv). (name, [] @ argv)) al\<rparr>"

definition allowed :: "exec_capability \<Rightarrow> string \<Rightarrow> bool" where
  "allowed c name = (map_of (allow c) name \<noteq> None)"

definition allowed_commands :: "exec_capability \<Rightarrow> string list" where
  "allowed_commands c = sort (remdups (map fst (allow c)))"

record exec_result =
  stdout :: bytes
  stderr :: bytes
  exit_code :: int

text \<open>
  How a run ends: the process ran and exited (with a status of zero, or with the library's
  \<^verbatim>\<open>ExitError\<close>), or the library reports another error, with or without a process state.
\<close>

datatype process_end =
    Exited bytes bytes int
  | Not_run bytes bytes "int option"

datatype exec_error =
    Command_denied
  | Exec_args
  | Run_failed string exec_result

definition exec_run ::
  "exec_capability \<Rightarrow> (string list \<Rightarrow> process_end) \<Rightarrow> string \<Rightarrow> string list \<Rightarrow>
   string list option \<times> (exec_error + exec_result)" where
  "exec_run c process name args =
     (case map_of (allow c) name of
        None \<Rightarrow> (None, Inl Command_denied)
      | Some [] \<Rightarrow> (None, Inl Command_denied)
      | Some (bin # fixed) \<Rightarrow>
          if length args > max_exec_args then (None, Inl Exec_args)
          else if list_ex (\<lambda>a. length a > max_exec_arg_len) args then (None, Inl Exec_args)
          else
            let argv = bin # (fixed @ args) in
            (Some argv,
             case process argv of
               Exited out err code \<Rightarrow> Inr \<lparr>stdout = out, stderr = err, exit_code = code\<rparr>
             | Not_run out err code \<Rightarrow>
                 Inl (Run_failed name \<lparr>stdout = out, stderr = err,
                   exit_code = (case code of None \<Rightarrow> 0 | Some n \<Rightarrow> n)\<rparr>)))"

lemma new_exec_capability_lookup [simp]: "map_of (allow (new_exec_capability al)) = map_of al"
proof -
  have "map (\<lambda>(name, argv). (name, [] @ argv)) al = al" by (rule map_idI) auto
  then show ?thesis by (simp add: new_exec_capability_def)
qed

lemma exec_run_Some:
  "exec_run c process name args = (Some argv, r) \<Longrightarrow>
     \<exists>bin fixed. map_of (allow c) name = Some (bin # fixed) \<and> argv = bin # fixed @ args \<and> length args \<le> 64"
  by (auto simp: exec_run_def Let_def max_exec_args_def split: option.splits list.splits if_splits)

lemma allowed_commands_set: "name \<in> set (allowed_commands c) \<longleftrightarrow> allowed c name"
  by (auto simp: allowed_commands_def allowed_def map_of_eq_None_iff)

section \<open>Properties\<close>

text \<open>
  C26: exec runs allowlisted templates only.  A process is started for a call exactly when its
  name has a template that is not empty and the arguments are within bounds, and then its
  command line is the template followed by the script's arguments, unchanged and uninterpreted;
  a process that ran and exited gives its status as data whatever it is, and a refused call
  starts nothing.
\<close>

theorem exec_confined:
  "(case exec_run (new_exec_capability al) process name args of
      (Some argv, r) \<Rightarrow> (\<exists>bin fixed. map_of al name = Some (bin # fixed) \<and> argv = bin # fixed @ args) \<and>
        length args \<le> 64 \<and> list_all (\<lambda>a. length a \<le> 4096) args \<and>
        (case process argv of Exited out err code \<Rightarrow> r = Inr \<lparr>stdout = out, stderr = err, exit_code = code\<rparr>
          | Not_run _ _ _ \<Rightarrow> \<exists>res. r = Inl (Run_failed name res))
    | (None, r) \<Rightarrow>
        (map_of al name = None \<or> map_of al name = Some []) \<and> r = Inl Command_denied \<or>
        (length args > 64 \<or> list_ex (\<lambda>a. length a > 4096) args) \<and> r = Inl Exec_args)"
  by (auto simp: exec_run_def Let_def max_exec_args_def max_exec_arg_len_def list_all_iff list_ex_iff not_less
      split: option.splits list.splits process_end.splits)

text \<open>
  The command names shown to a script are those on the allowlist, each once and in
  ascending byte order.  A name whose template is empty is shown, and reported as allowed,
  although every call of it is denied.
\<close>

lemma allowed_commands_listed:
  "set (allowed_commands (new_exec_capability al)) = fst ` set al \<and>
   sorted_wrt (<) (allowed_commands (new_exec_capability al)) \<and>
   (allowed (new_exec_capability al) name \<longleftrightarrow> name \<in> fst ` set al) \<and>
   exec_run (new_exec_capability ((name, []) # al)) process name args = (None, Inl Command_denied)"
proof (intro conjI)
  have k: "map fst (allow (new_exec_capability al)) = map fst al"
    by (auto simp: new_exec_capability_def)
  show "set (allowed_commands (new_exec_capability al)) = fst ` set al"
    unfolding allowed_commands_def k by simp
  show "sorted_wrt (<) (allowed_commands (new_exec_capability al))"
    by (simp add: allowed_commands_def strict_sorted_iff)
  show "allowed (new_exec_capability al) name \<longleftrightarrow> name \<in> fst ` set al"
    by (auto simp: allowed_def map_of_eq_None_iff)
  show "exec_run (new_exec_capability ((name, []) # al)) process name args = (None, Inl Command_denied)"
    by (simp add: exec_run_def)
qed

end
