(* ===== verification/Job_Cli.thy ===== *)
theory Job_Cli
  imports Flags Job_Runner Plugin_Exec
begin

text \<open>
  The job runner's command line, \<^verbatim>\<open>cmd/byteswarm-job\<close>: the subcommands, the flags of
  \<^verbatim>\<open>run\<close>, detaching, and what the worker then runs.  The environment is a function from
  names to values (empty when unset), \<^verbatim>\<open>time.ParseDuration\<close> a parameter.
\<close>

section \<open>The flags of run\<close>

record run_flags =
  rf_jobs_dir :: string
  rf_socket :: string
  rf_workflow :: string
  rf_job_id :: string
  rf_workdir_base :: string
  rf_log_dir :: string
  rf_max_wall_clock :: int
  rf_foreground :: bool

definition worker_env :: string where "worker_env = ''_BYTESWARM_JOB_WORKER''"

definition job_socket_path :: "(string \<Rightarrow> string) \<Rightarrow> string" where
  "job_socket_path getenv =
     (let p = getenv ''BYTESWARM_EVENTS_SOCKET'' in if p \<noteq> [] then p else ''byteswarm-events.sock'')"

definition default_run_flags :: "(string \<Rightarrow> string) \<Rightarrow> run_flags" where
  "default_run_flags getenv =
     \<lparr>rf_jobs_dir = [], rf_socket = job_socket_path getenv, rf_workflow = [], rf_job_id = [],
      rf_workdir_base = [], rf_log_dir = [], rf_max_wall_clock = 3600000000000, rf_foreground = False\<rparr>"

definition run_flag_kind :: "string \<Rightarrow> flag_kind option" where
  "run_flag_kind n =
     (if n \<in> {''jobs-dir'', ''socket'', ''workflow'', ''job-id'', ''workdir-base'', ''log-dir'', ''max-wall-clock''}
      then Some Value_flag
      else if n = ''foreground'' then Some Bool_flag else None)"

definition set_run_flag :: "(string \<Rightarrow> int option) \<Rightarrow> string \<Rightarrow> string \<Rightarrow> run_flags \<Rightarrow> run_flags option" where
  "set_run_flag parse_duration n v f =
     (if n = ''jobs-dir'' then Some (f\<lparr>rf_jobs_dir := v\<rparr>)
      else if n = ''socket'' then Some (f\<lparr>rf_socket := v\<rparr>)
      else if n = ''workflow'' then Some (f\<lparr>rf_workflow := v\<rparr>)
      else if n = ''job-id'' then Some (f\<lparr>rf_job_id := v\<rparr>)
      else if n = ''workdir-base'' then Some (f\<lparr>rf_workdir_base := v\<rparr>)
      else if n = ''log-dir'' then Some (f\<lparr>rf_log_dir := v\<rparr>)
      else if n = ''max-wall-clock'' then map_option (\<lambda>d. f\<lparr>rf_max_wall_clock := d\<rparr>) (parse_duration v)
      else map_option (\<lambda>b. f\<lparr>rf_foreground := b\<rparr>) (parse_bool v))"

section \<open>The launcher\<close>

datatype run_error =
    Bad_flags flag_error | Jobs_dir_required | Job_id_required | Job_name_required | Log_dir_required

text \<open>A job in this process has the socket it publishes to, its deadline, and what it runs.\<close>

datatype run_action =
    Refuse run_error
  | Daemonize string
  | Run_in_process string int job_config job

definition run_cmd :: "bool \<Rightarrow> run_flags \<Rightarrow> string list \<Rightarrow> run_action" where
  "run_cmd is_worker f rest =
     (if rf_jobs_dir f = [] then Refuse Jobs_dir_required
      else if rf_job_id f = [] then Refuse Job_id_required
      else case rest of
        [] \<Rightarrow> Refuse Job_name_required
      | name # args \<Rightarrow>
          if \<not> rf_foreground f \<and> \<not> is_worker then
            (if rf_log_dir f = [] then Refuse Log_dir_required
             else Daemonize (path_join [rf_log_dir f, rf_job_id f @ ''.log'']))
          else Run_in_process (rf_socket f) (rf_max_wall_clock f)
            \<lparr>jobs_dir = rf_jobs_dir f, workdir_base = rf_workdir_base f,
             max_file_bytes = 0, max_output_bytes = 0, http_max_bytes = 0\<rparr>
            \<lparr>j_id = rf_job_id f, j_name = name, j_workflow = rf_workflow f, j_args = args\<rparr>)"

definition run_command ::
  "(string \<Rightarrow> int option) \<Rightarrow> (string \<Rightarrow> string) \<Rightarrow> string list \<Rightarrow> run_action" where
  "run_command parse_duration getenv args =
     (case parse_flags run_flag_kind (set_run_flag parse_duration) args (default_run_flags getenv) of
        Inl err \<Rightarrow> Refuse (Bad_flags err)
      | Inr (f, rest) \<Rightarrow> run_cmd (getenv worker_env \<noteq> []) f rest)"

text \<open>The subcommands; the arguments are those after the program's name.\<close>

datatype job_command = Job_version | Job_run run_action | Job_unknown string

definition job_main ::
  "(string \<Rightarrow> int option) \<Rightarrow> (string \<Rightarrow> string) \<Rightarrow> string list \<Rightarrow> job_command" where
  "job_main parse_duration getenv args =
     (let cmd = (case args of [] \<Rightarrow> [] | a # _ \<Rightarrow> a) in
      if cmd = [] \<or> cmd = ''version'' then Job_version
      else if cmd = ''run'' then Job_run (run_command parse_duration getenv (tl args))
      else Job_unknown cmd)"

text \<open>
  \<^verbatim>\<open>daemonize\<close>: what is set up before the detached child starts, and the child's arguments
  and environment.
\<close>

datatype daemon_call =
    Locate_executable | Make_log_dir string | Open_log string | Open_null
  | Start_detached "string list" "string \<Rightarrow> string"

record daemon_env =
  de_executable :: bool
  de_mkdir :: bool
  de_open_log :: bool
  de_open_null :: bool
  de_start :: bool

datatype daemon_error = No_executable | No_log_dir | No_log_file | No_null | No_start

definition daemonize ::
  "daemon_env \<Rightarrow> (string \<Rightarrow> string) \<Rightarrow> string list \<Rightarrow> string \<Rightarrow> daemon_call list \<times> daemon_error option" where
  "daemonize env getenv args log_path =
     (if \<not> de_executable env then ([Locate_executable], Some No_executable)
      else let a = [Locate_executable, Make_log_dir (dir_of log_path)] in
        if \<not> de_mkdir env then (a, Some No_log_dir)
        else if \<not> de_open_log env then (a @ [Open_log log_path], Some No_log_file)
        else if \<not> de_open_null env then (a @ [Open_log log_path, Open_null], Some No_null)
        else (a @ [Open_log log_path, Open_null, Start_detached args (getenv(worker_env := ''1''))],
              if de_start env then None else Some No_start))"

lemmas [flag_defs] = run_flag_kind_def set_run_flag_def default_run_flags_def job_socket_path_def

section \<open>Facts\<close>

lemma worker_env_not_socket: "worker_env \<noteq> ''BYTESWARM_EVENTS_SOCKET''"
  by (simp add: worker_env_def)

lemma default_run_flags_child: "default_run_flags (getenv(worker_env := v)) = default_run_flags getenv"
  using worker_env_not_socket by (simp add: flag_defs)

lemma run_cmd_cases:
  assumes "run_cmd w f rest = a"
  shows "(\<exists>e. a = Refuse e) \<or>
    (\<exists>name args. rest = name # args \<and> rf_jobs_dir f \<noteq> [] \<and> rf_job_id f \<noteq> [] \<and>
      (\<not> rf_foreground f \<and> \<not> w \<and> rf_log_dir f \<noteq> [] \<and> a = Daemonize (path_join [rf_log_dir f, rf_job_id f @ ''.log'']) \<or>
       (rf_foreground f \<or> w) \<and> (\<exists>cfg. a = Run_in_process (rf_socket f) (rf_max_wall_clock f) cfg
         \<lparr>j_id = rf_job_id f, j_name = name, j_workflow = rf_workflow f, j_args = args\<rparr> \<and>
         jobs_dir cfg = rf_jobs_dir f \<and> workdir_base cfg = rf_workdir_base f)))"
  using assms by (auto simp: run_cmd_def split: if_splits list.splits)

lemma set_run_flag_jobs_dir:
  "n \<noteq> ''jobs-dir'' \<Longrightarrow> set_run_flag pd n v f = Some f' \<Longrightarrow> rf_jobs_dir f' = rf_jobs_dir f"
  by (auto simp: flag_defs split: if_splits)

lemma run_flag_names:
  "run_flag_kind n = Some Value_flag \<Longrightarrow> plain_name n"
  by (auto simp: run_flag_kind_def plain_name_def split: if_splits)

lemma job_main_run:
  "job_main pd getenv args = Job_run a \<longleftrightarrow> (\<exists>rest. args = ''run'' # rest \<and> run_command pd getenv rest = a)"
  by (cases args) (auto simp: job_main_def)

lemma run_command_parsed:
  assumes "run_command pd getenv args = a" and "\<nexists>e. a = Refuse e"
  shows "\<exists>f rest. parse_flags run_flag_kind (set_run_flag pd) args (default_run_flags getenv) = Inr (f, rest) \<and>
    run_cmd (getenv worker_env \<noteq> []) f rest = a \<and> suffix rest args"
  using assms parse_flags_suffix by (fastforce simp: run_command_def split: sum.splits prod.splits)

text \<open>The worker parses the same arguments to the same flags, and does not detach.\<close>

lemma child_runs:
  assumes "run_command pd getenv args = Daemonize logp"
  shows "\<exists>f name rest. parse_flags run_flag_kind (set_run_flag pd) args (default_run_flags getenv) = Inr (f, name # rest) \<and>
    logp = path_join [rf_log_dir f, rf_job_id f @ ''.log''] \<and> rf_log_dir f \<noteq> [] \<and>
    (\<exists>cfg. run_command pd (getenv(worker_env := ''1'')) args =
      Run_in_process (rf_socket f) (rf_max_wall_clock f) cfg
        \<lparr>j_id = rf_job_id f, j_name = name, j_workflow = rf_workflow f, j_args = rest\<rparr> \<and> jobs_dir cfg = rf_jobs_dir f)"
proof -
  obtain f rest where f: "parse_flags run_flag_kind (set_run_flag pd) args (default_run_flags getenv) = Inr (f, rest)"
    "run_cmd (getenv worker_env \<noteq> []) f rest = Daemonize logp"
    using run_command_parsed [OF assms] by auto
  from run_cmd_cases [OF f(2)] obtain name more where "rest = name # more" "rf_jobs_dir f \<noteq> []" "rf_job_id f \<noteq> []"
    "rf_log_dir f \<noteq> []" "logp = path_join [rf_log_dir f, rf_job_id f @ ''.log'']"
    by auto
  with f(1) show ?thesis
    by (intro exI [of _ f] exI [of _ name] exI [of _ more])
      (simp add: run_command_def default_run_flags_child run_cmd_def)
qed

text \<open>
  The runner as a plugin starts it: an allowlisted template that fixes the subcommand and flags,
  followed by the arguments of the script.
\<close>

definition pins :: "(string \<Rightarrow> int option) \<Rightarrow> (string \<Rightarrow> string) \<Rightarrow> allowlist \<Rightarrow> string \<Rightarrow> run_flags \<Rightarrow> bool" where
  "pins pd getenv al cmd f0 \<longleftrightarrow>
     (\<exists>bin fs. map_of al cmd = Some (bin # ''run'' # write_flags fs) \<and>
       (\<forall>(n, v) \<in> set fs. run_flag_kind n = Some Value_flag) \<and>
       set_flags (set_run_flag pd) fs (default_run_flags getenv) = Some f0)"

lemma pinned_parse:
  assumes "pins pd getenv al cmd f0" and "exec_run (new_exec_capability al) process cmd args = (Some argv, res)"
  shows "\<exists>bin as. argv = bin # ''run'' # as \<and>
    parse_flags run_flag_kind (set_run_flag pd) as (default_run_flags getenv) =
      parse_flags run_flag_kind (set_run_flag pd) args f0"
proof -
  obtain bin fs where fs: "map_of al cmd = Some (bin # ''run'' # write_flags fs)"
    "\<forall>(n, v) \<in> set fs. run_flag_kind n = Some Value_flag"
    "set_flags (set_run_flag pd) fs (default_run_flags getenv) = Some f0"
    using assms(1) by (auto simp: pins_def)
  then have "argv = bin # ''run'' # write_flags fs @ args" using exec_run_Some [OF assms(2)] by auto
  moreover have "\<forall>(n, v) \<in> set fs. plain_name n \<and> run_flag_kind n = Some Value_flag"
    using fs(2) run_flag_names by blast
  ultimately show ?thesis using parse_write_flags [OF _ fs(3)] by blast
qed

section \<open>Properties\<close>

text \<open>
  C28: a detached job is the job that was asked for.  When the launcher detaches, the only child
  it can start gets the launcher's own arguments and the worker mark, and in that environment
  these arguments run the job in the child's process: it does not detach again, it has the
  parsed job ID, name and flags, every argument after the job's name reaches the job unchanged,
  and its log is the job ID's file in the log directory.  The launcher reports no error exactly
  when that child was started.
\<close>

theorem detached_child_runs_job:
  assumes "job_main pd getenv args = Job_run (Daemonize logp)"
  shows "\<exists>f cfg j. logp = path_join [rf_log_dir f, j_id j @ ''.log''] \<and> rf_log_dir f \<noteq> [] \<and>
    suffix (j_name j # j_args j) args \<and> jobs_dir cfg = rf_jobs_dir f \<and> j_id j = rf_job_id f \<and>
    parse_flags run_flag_kind (set_run_flag pd) (tl args) (default_run_flags getenv) = Inr (f, j_name j # j_args j) \<and>
    (\<forall>args' getenv'. Start_detached args' getenv' \<in> set (fst (daemonize env getenv args logp)) \<longrightarrow>
       job_main pd getenv' args' = Job_run (Run_in_process (rf_socket f) (rf_max_wall_clock f) cfg j)) \<and>
    (snd (daemonize env getenv args logp) = None \<longleftrightarrow>
       (\<exists>args' getenv'. Start_detached args' getenv' \<in> set (fst (daemonize env getenv args logp))) \<and> de_start env)"
proof -
  obtain as where as: "args = ''run'' # as" "run_command pd getenv as = Daemonize logp"
    using assms by (auto simp: job_main_run)
  obtain f name rest cfg where c: "parse_flags run_flag_kind (set_run_flag pd) as (default_run_flags getenv) = Inr (f, name # rest)"
    "logp = path_join [rf_log_dir f, rf_job_id f @ ''.log'']" "rf_log_dir f \<noteq> []" "jobs_dir cfg = rf_jobs_dir f"
    "run_command pd (getenv(worker_env := ''1'')) as = Run_in_process (rf_socket f) (rf_max_wall_clock f) cfg
      \<lparr>j_id = rf_job_id f, j_name = name, j_workflow = rf_workflow f, j_args = rest\<rparr>"
    using child_runs [OF as(2)] by blast
  have s: "suffix (name # rest) args" using parse_flags_suffix [OF c(1)] as(1) by (simp add: suffix_ConsI)
  show ?thesis
    using c as s
    by (intro exI [of _ f] exI [of _ cfg]
        exI [of _ "\<lparr>j_id = rf_job_id f, j_name = name, j_workflow = rf_workflow f, j_args = rest\<rparr>"])
      (auto simp: daemonize_def job_main_run Let_def simp del: path_join.simps)
qed

theorem detached_child_runs_job_witness:
  "\<exists>cfg j. jobs_dir cfg = ''/jobs'' \<and> j_args j = [''--jobs-dir''] \<and>
     job_main (\<lambda>_. None) ((\<lambda>_. [])(worker_env := ''1''))
       [''run'', ''--jobs-dir'', ''/jobs'', ''-job-id=1'', ''--log-dir'', ''/log'', ''a.js'', ''--jobs-dir''] =
       Job_run (Run_in_process ''byteswarm-events.sock'' 3600000000000 cfg j)"
proof -
  let ?args = "[''run'', ''--jobs-dir'', ''/jobs'', ''-job-id=1'', ''--log-dir'', ''/log'', ''a.js'', ''--jobs-dir'']"
  let ?env = "\<lparr>de_executable = True, de_mkdir = True, de_open_log = True, de_open_null = True, de_start = True\<rparr>"
  have a: "job_main (\<lambda>_. None) (\<lambda>_. []) ?args = Job_run (Daemonize ''/log/1.log'')" by code_simp
  have p: "parse_flags run_flag_kind (set_run_flag (\<lambda>_. None)) (tl ?args) (default_run_flags (\<lambda>_. [])) =
      Inr (\<lparr>rf_jobs_dir = ''/jobs'', rf_socket = ''byteswarm-events.sock'', rf_workflow = [], rf_job_id = ''1'',
        rf_workdir_base = [], rf_log_dir = ''/log'', rf_max_wall_clock = 3600000000000, rf_foreground = False\<rparr>,
        [''a.js'', ''--jobs-dir''])" by code_simp
  have d: "Start_detached ?args ((\<lambda>_. [])(worker_env := ''1'')) \<in> set (fst (daemonize ?env (\<lambda>_. []) ?args ''/log/1.log''))"
    by (simp add: daemonize_def Let_def)
  from detached_child_runs_job [OF a, of ?env] obtain f cfg j where
    h: "jobs_dir cfg = rf_jobs_dir f"
      "parse_flags run_flag_kind (set_run_flag (\<lambda>_. None)) (tl ?args) (default_run_flags (\<lambda>_. [])) =
        Inr (f, j_name j # j_args j)"
      "\<forall>args' getenv'. Start_detached args' getenv' \<in> set (fst (daemonize ?env (\<lambda>_. []) ?args ''/log/1.log'')) \<longrightarrow>
        job_main (\<lambda>_. None) getenv' args' = Job_run (Run_in_process (rf_socket f) (rf_max_wall_clock f) cfg j)"
    by blast
  have f: "rf_jobs_dir f = ''/jobs''" "rf_socket f = ''byteswarm-events.sock''" "rf_max_wall_clock f = 3600000000000"
    "j_args j = [''--jobs-dir'']" using h(2) unfolding p by auto
  show ?thesis
    using h(1) h(3) [rule_format, OF d] unfolding f by (intro exI [of _ cfg] exI [of _ j]) (simp only: f)
qed

text \<open>
  C29: the operator's jobs directory holds for scripts that pass no flag for it.  When an
  allowlisted template fixes the flags of \<^verbatim>\<open>run\<close> and none of the script's arguments is written
  as the jobs directory flag, the started command line looks its job up in the fixed
  directory: its script is what a read of the cleaned join of that directory and the name gives,
  at a path where \<^verbatim>\<open>os.Stat\<close>, which follows symbolic links, reports a regular file.  If the
  fixed directory ends in a real name that path lies beneath it, as it is written; under a
  directory that ends in \<^verbatim>\<open>..\<close> it need not (\<^verbatim>\<open>resolve_dotdot_base_escapes\<close> in \<^verbatim>\<open>Pathguard\<close>).
\<close>

theorem jobs_dir_pinned:
  assumes "pins pd getenv al cmd f0"
    and "exec_run (new_exec_capability al) process cmd args = (Some argv, res)"
    and "job_main pd getenv' (tl argv) = Job_run (Run_in_process sock wall cfg j)"
    and "getenv' = getenv \<or> getenv' = getenv(worker_env := ''1'')"
    and "\<forall>s \<in> set args. \<not> writes_flag ''jobs-dir'' s"
    and "resolve_job kind read_file (jobs_dir cfg) (j_name j) = Inr (full, src)"
  shows "jobs_dir cfg = rf_jobs_dir f0 \<and> full = path_join [clean (rf_jobs_dir f0), j_name j] \<and>
    kind full = Regular \<and> read_file full = Some src \<and>
    (solid_base (clean (rf_jobs_dir f0)) \<longrightarrow> beneath full (clean (rf_jobs_dir f0)))"
proof -
  have e: "default_run_flags getenv' = default_run_flags getenv"
    using assms(4) default_run_flags_child by auto
  obtain bin as where as: "argv = bin # ''run'' # as"
    "parse_flags run_flag_kind (set_run_flag pd) as (default_run_flags getenv) =
      parse_flags run_flag_kind (set_run_flag pd) args f0"
    using pinned_parse [OF assms(1,2)] by blast
  then have "run_command pd getenv' as = Run_in_process sock wall cfg j" using assms(3) by (simp add: job_main_run)
  from run_command_parsed [OF this] obtain f rest where
    f: "parse_flags run_flag_kind (set_run_flag pd) args f0 = Inr (f, rest)"
    "run_cmd (getenv' worker_env \<noteq> []) f rest = Run_in_process sock wall cfg j"
    using as(2) e by auto
  have "rf_jobs_dir f = rf_jobs_dir f0"
    by (rule parse_flags_keeps [where g = rf_jobs_dir, OF set_run_flag_jobs_dir assms(5) f(1)])
  moreover have "jobs_dir cfg = rf_jobs_dir f" using run_cmd_cases [OF f(2)] by auto
  ultimately have d: "jobs_dir cfg = rf_jobs_dir f0" by simp
  have r: "resolve (clean (rf_jobs_dir f0)) (j_name j) = Inr full" "kind full = Regular" "read_file full = Some src"
    using assms(6) unfolding d by (auto simp: resolve_job_def split: sum.splits file_kind.splits option.splits)
  have "full = path_join [clean (rf_jobs_dir f0), j_name j]"
    using r(1) by (auto simp: resolve_def Let_def simp del: path_join.simps split: if_splits)
  then show ?thesis
    using d r guard.res_inside [OF _ r(1)] by blast
qed

theorem jobs_dir_pinned_witness:
  "\<exists>argv res cfg j.
     exec_run (new_exec_capability [(''run-job'', ''byteswarm-job'' # ''run'' #
         write_flags [(''jobs-dir'', ''/jobs''), (''log-dir'', ''/log'')])])
       (\<lambda>_. Exited [] [] 0) ''run-job'' [''--job-id'', ''1'', ''a.js''] = (Some argv, res) \<and>
     job_main (\<lambda>_. None) ((\<lambda>_. [])(worker_env := ''1'')) (tl argv) =
       Job_run (Run_in_process ''byteswarm-events.sock'' 3600000000000 cfg j) \<and> jobs_dir cfg = ''/jobs'' \<and>
     resolve_job (\<lambda>_. Regular) (\<lambda>_. Some ''src'') (jobs_dir cfg) (j_name j) = Inr (''/jobs/a.js'', ''src'') \<and>
     beneath ''/jobs/a.js'' (clean ''/jobs'')"
proof -
  let ?fs = "[(''jobs-dir'', ''/jobs''), (''log-dir'', ''/log'')]"
  let ?cfg = "\<lparr>jobs_dir = ''/jobs'', workdir_base = [], max_file_bytes = 0, max_output_bytes = 0, http_max_bytes = 0\<rparr>"
  let ?j = "\<lparr>j_id = ''1'', j_name = ''a.js'', j_workflow = [], j_args = []\<rparr>"
  let ?al = "[(''run-job'', ''byteswarm-job'' # ''run'' # write_flags ?fs)]"
  let ?argv = "''byteswarm-job'' # ''run'' # write_flags ?fs @ [''--job-id'', ''1'', ''a.js'']"
  let ?f0 = "\<lparr>rf_jobs_dir = ''/jobs'', rf_socket = ''byteswarm-events.sock'', rf_workflow = [], rf_job_id = [],
        rf_workdir_base = [], rf_log_dir = ''/log'', rf_max_wall_clock = 3600000000000, rf_foreground = False\<rparr>"
  have p: "pins (\<lambda>_. None) (\<lambda>_. []) ?al ''run-job'' ?f0"
    unfolding pins_def by (intro exI [of _ "''byteswarm-job''"] exI [of _ ?fs])
      (simp add: flag_defs)
  have b: "solid_base (clean (rf_jobs_dir ?f0))" by code_simp
  have e: "exec_run (new_exec_capability ?al) (\<lambda>_. Exited [] [] 0) ''run-job'' [''--job-id'', ''1'', ''a.js''] =
      (Some ?argv, Inr \<lparr>stdout = [], stderr = [], exit_code = 0\<rparr>)"
    by (simp add: exec_run_def new_exec_capability_def max_exec_args_def max_exec_arg_len_def)
  have j: "job_main (\<lambda>_. None) ((\<lambda>_. [])(worker_env := ''1'')) (tl ?argv) =
      Job_run (Run_in_process ''byteswarm-events.sock'' 3600000000000 ?cfg ?j)" by code_simp
  have w: "\<forall>s \<in> set [''--job-id'', ''1'', ''a.js'']. \<not> writes_flag ''jobs-dir'' s"
    by (simp add: writes_flag_def is_flag_def flag_body_def split_value_def Let_def)
  have r: "resolve_job (\<lambda>_. Regular) (\<lambda>_. Some ''src'') (jobs_dir ?cfg) (j_name ?j) = Inr (''/jobs/a.js'', ''src'')"
    by code_simp
  from jobs_dir_pinned [OF p e j disjI2 [OF refl] w r] b
  have "beneath ''/jobs/a.js'' (clean (rf_jobs_dir ?f0))" by blast
  then have c: "jobs_dir ?cfg = ''/jobs''" "beneath ''/jobs/a.js'' (clean ''/jobs'')" by simp_all
  from e j r c show ?thesis by blast
qed

text \<open>
  C30: but a script can replace the jobs directory.  Whatever flags the template fixes, a script
  that may call it can append the flag again; the last one wins, so the job that runs is the
  script's choice from the script's directory.
\<close>

theorem plugin_overrides_jobs_dir:
  assumes "pins pd getenv al cmd f0" and "dir \<noteq> []" and "jid \<noteq> []" and "\<not> is_flag name"
    and "exec_run (new_exec_capability al) process cmd [''--jobs-dir'', dir, ''--job-id'', jid, name] = (Some argv, res)"
  shows "\<exists>sock wall cfg j. job_main pd (getenv(worker_env := ''1'')) (tl argv) =
      Job_run (Run_in_process sock wall cfg j) \<and> jobs_dir cfg = dir \<and> j_name j = name"
proof -
  let ?fs = "[(''jobs-dir'', dir), (''job-id'', jid)]"
  let ?f = "f0\<lparr>rf_jobs_dir := dir, rf_job_id := jid\<rparr>"
  have w: "[''--jobs-dir'', dir, ''--job-id'', jid, name] = write_flags ?fs @ [name]"
    by (simp add: long_flag_def)
  have k: "\<forall>(n, v) \<in> set ?fs. plain_name n \<and> run_flag_kind n = Some Value_flag"
    by (simp add: plain_name_def flag_defs)
  have s: "set_flags (set_run_flag pd) ?fs f0 = Some ?f" by (simp add: flag_defs)
  have "parse_flags run_flag_kind (set_run_flag pd) (write_flags ?fs @ [name]) f0 = Inr (?f, [name])"
    unfolding parse_write_flags [OF k s] by (rule parse_flags_stop [OF assms(4)])
  then obtain bin as where "argv = bin # ''run'' # as"
    "parse_flags run_flag_kind (set_run_flag pd) as (default_run_flags getenv) = Inr (?f, [name])"
    using pinned_parse [OF assms(1,5)] w by auto
  then show ?thesis
    using assms(2,3) by (simp add: job_main_run run_command_def default_run_flags_child run_cmd_def)
qed

theorem plugin_overrides_jobs_dir_witness:
  "\<exists>sock wall cfg j. job_main (\<lambda>_. None) ((\<lambda>_. [])(worker_env := ''1''))
      [''run'', ''--jobs-dir'', ''/jobs'', ''--log-dir'', ''/log'', ''--jobs-dir'', ''/sandbox'', ''--job-id'', ''1'', ''x.js''] =
      Job_run (Run_in_process sock wall cfg j) \<and> jobs_dir cfg = ''/sandbox'' \<and> j_name j = ''x.js''"
proof -
  let ?fs = "[(''jobs-dir'', ''/jobs''), (''log-dir'', ''/log'')]"
  let ?al = "[(''run-job'', ''byteswarm-job'' # ''run'' # write_flags ?fs)]"
  let ?args = "[''--jobs-dir'', ''/sandbox'', ''--job-id'', ''1'', ''x.js'']"
  let ?argv = "''byteswarm-job'' # ''run'' # write_flags ?fs @ ?args"
  have p: "pins (\<lambda>_. None) (\<lambda>_. []) ?al ''run-job''
      ((default_run_flags (\<lambda>_. []))\<lparr>rf_jobs_dir := ''/jobs'', rf_log_dir := ''/log''\<rparr>)"
    unfolding pins_def by (intro exI [of _ "''byteswarm-job''"] exI [of _ ?fs])
      (simp add: flag_defs)
  have e: "exec_run (new_exec_capability ?al) (\<lambda>_. Exited [] [] 0) ''run-job'' ?args =
      (Some ?argv, Inr \<lparr>stdout = [], stderr = [], exit_code = 0\<rparr>)"
    by (simp add: exec_run_def new_exec_capability_def max_exec_args_def max_exec_arg_len_def)
  have n: "\<not> is_flag ''x.js''" by (simp add: is_flag_def)
  from plugin_overrides_jobs_dir [OF p _ _ n e] show ?thesis by (simp add: long_flag_def)
qed

end
