(* ===== verification/Job_Reports.thy ===== *)
theory Job_Reports
  imports Job_Runner
begin

text \<open>
  A job run against the program's own server: the publisher of \<^verbatim>\<open>internal/jobrunner\<close> is the
  client of \<^verbatim>\<open>internal/eventclient\<close>, its requests go through the acceptance path of
  \<^verbatim>\<open>internal/server\<close> to \<^verbatim>\<open>JetStreamBus.Publish\<close>.  The composition needs no further
  definition than the transport \<^term>\<open>serve_events\<close>.
\<close>

abbreviation served_client :: "pub_reply \<Rightarrow> message list job_publisher" where
  "served_client reply \<equiv> client_publish (serve_events (bus_publish reply))"

interpretation served: job_publishing "served_client reply" stream_extends for reply
  by unfold_locales (auto intro: stream_extends_refl stream_extends_trans client_extends)

section \<open>The safety-net event\<close>

lemma failed_payload_parses:
  "parse_json (failed_payload j cause) =
     Some (JObj (map (\<lambda>(k, v). (k, quote v, JStr (sanitize v)))
       [(''error'', cause), (''job'', j_name j), (''jobId'', j_id j)]))"
proof -
  have "sanitize ''error'' = ''error''" "sanitize ''job'' = ''job''" "sanitize ''jobId'' = ''jobId''" by code_simp+
  then show ?thesis
    using scan_json_write [of "[(''error'', cause), (''job'', j_name j), (''jobId'', j_id j)]" "[]"]
    by (simp add: parse_json_def failed_payload_def skip_ws_def)
qed

lemma failed_payload_room: "room_for (failed_payload j cause)"
  by (simp add: room_for_def failed_payload_parses max_nesting_def)

text \<open>The event as it arrives: its payload is an object with the cause, the job's name and its ID.\<close>

definition reports :: "job \<Rightarrow> string \<Rightarrow> event \<Rightarrow> bool" where
  "reports j cause e \<longleftrightarrow> ev_type e = ''job_failed'' \<and> ev_workflow e = j_workflow j \<and>
     (\<exists>r1 r2 r3. parse_json (ev_payload e) =
       Some (JObj [(''error'', r1, JStr (sanitize cause)), (''job'', r2, JStr (sanitize (j_name j))),
         (''jobId'', r3, JStr (sanitize (j_id j)))]))"

lemma failed_event_stored:
  assumes "good_workflow (j_workflow j)" and "valid_utf8 (j_workflow j)"
    and "\<And>body. client_body (failed_event j cause) = Some body \<Longrightarrow> length body \<le> max_event_body_bytes"
  shows "\<exists>m e. snd (served_client Pub_acked False (failed_event j cause) ms) = ms @ [m] \<and>
    wire_decode (msg_data m) = Some e \<and> reports j cause e"
proof -
  let ?e = "failed_event j cause"
  obtain body where b: "client_body ?e = Some body" using failed_body_sent by blast
  have p: "ce_type ?e = ''job_failed''" "ce_workflow ?e = j_workflow j" "ce_payload ?e = failed_payload j cause"
    by (simp_all add: failed_event_def)
  have ne: "failed_payload j cause \<noteq> []" by (simp add: failed_payload_def write_object_def)
  have ty: "valid_type ''job_failed''" by code_simp
  have "nesting (JObj (map (\<lambda>(k, v). (k, quote v, JStr (sanitize v)))
       [(''error'', cause), (''job'', j_name j), (''jobId'', j_id j)])) \<le> max_nesting"
    by (simp add: max_nesting_def)
  from parse_compact_text [OF failed_payload_parses this]
  have "reports j cause \<lparr>ev_type = ''job_failed'', ev_workflow = j_workflow j, ev_payload = sent_payload ?e\<rparr>"
    by (simp add: reports_def sent_payload_def p ne)
  moreover have "\<exists>m. snd (served_client Pub_acked False ?e ms) = ms @ [m] \<and> wire_decode (msg_data m) =
      Some \<lparr>ev_type = ''job_failed'', ev_workflow = j_workflow j, ev_payload = sent_payload ?e\<rparr>"
    using client_stores [OF b _ assms(3) [OF b], of ms] assms(1,2) failed_payload_room ty unfolding p by blast
  ultimately show ?thesis by blast
qed

section \<open>A run and the stream\<close>

text \<open>
  A failing job is visible on the stream.  Whatever a job script does, the stream behind the
  server only grows, and only by valid submissions.  When a run fails, the failure is reported
  before the deadline and the broker acknowledges, the last message is a \<^verbatim>\<open>job_failed\<close> event in the
  job's workflow that names the cause, the job and the run; after the deadline, and after a
  success, there is no message but the script's own.
\<close>

lemma job_failure_reaches_stream:
  assumes "good_workflow (j_workflow j)" and "valid_utf8 (j_workflow j)"
    and "\<And>err body. client_body (failed_event j (err_text err)) = Some body \<Longrightarrow> length body \<le> max_event_body_bytes"
  shows "\<exists>own. list_all submission own \<and>
    (case run_job err_text cfg (served_client reply) wall clock kind read_file mkdir compile engine envs j w of
       (None, w') \<Rightarrow> jw_pub w' = jw_pub w @ own
     | (Some err, w') \<Rightarrow>
         (if reported_late wall clock err then jw_pub w' = jw_pub w @ own
          else stream_extends (jw_pub w @ own) (jw_pub w') \<and>
            (reply = Pub_acked \<longrightarrow> (\<exists>m e. jw_pub w' = jw_pub w @ own @ [m] \<and>
               wire_decode (msg_data m) = Some e \<and> reports j (err_text err) e))))"
proof -
  obtain err w' s where r: "run_job err_text cfg (served_client reply) wall clock kind read_file mkdir compile engine envs j w = (err, w')"
    and s: "stream_extends (jw_pub w) s"
    and w': "jw_pub w' = (case err of None \<Rightarrow> s
      | Some x \<Rightarrow> snd (served_client reply (reported_late wall clock x) (failed_event j (err_text x)) s))"
    by (rule served.run_extends)
  obtain own where own: "s = jw_pub w @ own" "list_all submission own" using s by (auto simp: stream_extends_def)
  have late: "snd (served_client reply True e s) = s" for e
    by (simp add: client_publish_def split: option.split)
  show ?thesis
  proof (cases err)
    case None
    then show ?thesis unfolding r using w' own by auto
  next
    case (Some x)
    then have "jw_pub w' = snd (served_client reply (reported_late wall clock x) (failed_event j (err_text x)) s)" using w' by simp
    then show ?thesis
      unfolding r prod.case Some option.case
      using own late client_extends [of s reply False] failed_event_stored [where cause = "err_text x" and ms = s, OF assms(1,2) assms(3)]
      by (intro exI [of _ own]) (cases "reported_late wall clock x"; auto)
  qed
qed

end
