(* ===== verification/Job_Process.thy ===== *)
theory Job_Process
  imports Job_Cli Job_Reports
begin

text \<open>
  The process \<^verbatim>\<open>byteswarm-job\<close> as a whole, from its arguments to its exit status: \<^verbatim>\<open>main\<close> over
  the command line of \<^verbatim>\<open>Job_Cli\<close> and the run of \<^verbatim>\<open>Job_Runner\<close>, with the client of the server's
  socket as its publisher.
\<close>

text \<open>What the process meets on its host: files, the JavaScript engine, time and the child.\<close>

record 'prog job_machine =
  jm_show :: "job_error \<Rightarrow> string"
  jm_kind :: "string \<Rightarrow> file_kind"
  jm_read :: "string \<Rightarrow> bytes option"
  jm_mkdir :: "string \<Rightarrow> bool"
  jm_compile :: "string \<Rightarrow> bytes \<Rightarrow> 'prog option"
  jm_engine :: "'prog \<Rightarrow> job \<Rightarrow> job_reply list \<Rightarrow> job_act"
  jm_envs :: "job_env list"
  jm_clock :: job_clock
  jm_daemon :: daemon_env

text \<open>\<^verbatim>\<open>run\<close>: its error, what detaching did, and the world after it.\<close>

datatype process_error =
    Unknown_job_command string | Run_refused run_error | Not_detached daemon_error | Job_broke job_error

definition job_run ::
  "'prog job_machine \<Rightarrow> (string \<Rightarrow> int option) \<Rightarrow> (string \<Rightarrow> string) \<Rightarrow> string list \<Rightarrow> 's dial \<Rightarrow> 's job_world \<Rightarrow>
   process_error option \<times> daemon_call list \<times> 's job_world" where
  "job_run h parse_duration getenv args dial w =
     (case job_main parse_duration getenv args of
        Job_version \<Rightarrow> (None, [], w)
      | Job_unknown cmd \<Rightarrow> (Some (Unknown_job_command cmd), [], w)
      | Job_run (Refuse err) \<Rightarrow> (Some (Run_refused err), [], w)
      | Job_run (Daemonize log_path) \<Rightarrow>
          (case daemonize (jm_daemon h) getenv args log_path of
             (calls, err) \<Rightarrow> (map_option Not_detached err, calls, w))
      | Job_run (Run_in_process socket wall cfg j) \<Rightarrow>
          (case run_job (jm_show h) cfg (new_client dial socket) wall (jm_clock h) (jm_kind h) (jm_read h) (jm_mkdir h)
              (jm_compile h) (jm_engine h) (jm_envs h) j w of
             (err, w') \<Rightarrow> (map_option Job_broke err, [], w')))"

text \<open>\<^verbatim>\<open>main\<close>: the exit status and the error printed on standard error.\<close>

definition job_process ::
  "'prog job_machine \<Rightarrow> (string \<Rightarrow> int option) \<Rightarrow> (string \<Rightarrow> string) \<Rightarrow> string list \<Rightarrow> 's dial \<Rightarrow> 's job_world \<Rightarrow>
   nat \<times> process_error option \<times> daemon_call list \<times> 's job_world" where
  "job_process h parse_duration getenv args dial w =
     (case job_run h parse_duration getenv args dial w of
        (Some err, calls, w') \<Rightarrow> (1, Some err, calls, w')
      | (None, calls, w') \<Rightarrow> (0, None, calls, w'))"

text \<open>The launcher touches nothing but its log, and succeeds exactly when the child was started.\<close>

lemma launcher_process:
  assumes "job_main pd getenv args = Job_run (Daemonize log_path)"
  shows "case job_process h pd getenv args dial w of (status, printed, calls, w') \<Rightarrow> w' = w \<and>
    (status = 0 \<longleftrightarrow> Start_detached args (getenv(worker_env := ''1'')) \<in> set calls \<and> de_start (jm_daemon h))"
  by (auto simp: job_process_def job_run_def assms daemonize_def Let_def split: prod.splits)

section \<open>Properties\<close>



end
