(* ===== verification/Ctl.thy ===== *)
theory Ctl
  imports Flags Event_Client
begin

text \<open>
  The operator's command line tool \<^verbatim>\<open>cmd/byteswarmctl\<close>: the subcommands, the flags of
  \<^verbatim>\<open>publish\<close>, and what it prints.  The transport is a parameter: for a socket path and a
  request body, a status and a body, or no answer.
\<close>

record publish_flags =
  pf_type :: string
  pf_workflow :: string
  pf_payload :: string
  pf_socket :: string

definition default_socket_path :: "(string \<Rightarrow> string) \<Rightarrow> string" where
  "default_socket_path getenv =
     (let p = getenv ''BYTESWARM_EVENTS_SOCKET'' in if p \<noteq> [] then p else ''byteswarm-events.sock'')"

definition default_publish_flags :: "(string \<Rightarrow> string) \<Rightarrow> publish_flags" where
  "default_publish_flags getenv =
     \<lparr>pf_type = [], pf_workflow = [], pf_payload = [], pf_socket = default_socket_path getenv\<rparr>"

definition publish_flag_kind :: "string \<Rightarrow> flag_kind option" where
  "publish_flag_kind n =
     (if n \<in> {''type'', ''workflow'', ''payload'', ''socket''} then Some Value_flag else None)"

definition set_publish_flag :: "string \<Rightarrow> string \<Rightarrow> publish_flags \<Rightarrow> publish_flags option" where
  "set_publish_flag n v f =
     (if n = ''type'' then Some (f\<lparr>pf_type := v\<rparr>)
      else if n = ''workflow'' then Some (f\<lparr>pf_workflow := v\<rparr>)
      else if n = ''payload'' then Some (f\<lparr>pf_payload := v\<rparr>)
      else Some (f\<lparr>pf_socket := v\<rparr>))"

datatype ctl_error =
    Bad_ctl_flags flag_error | Type_required | Payload_not_json | Publish_error client_error
  | Unknown_command string

text \<open>\<^verbatim>\<open>publishCmd\<close> after parsing, and with it; the result is what it prints.\<close>

definition publish_event ::
  "(client_event \<Rightarrow> 's \<Rightarrow> client_error option \<times> 's) \<Rightarrow> publish_flags \<Rightarrow> 's \<Rightarrow> (ctl_error + string) \<times> 's" where
  "publish_event publish f s =
     (if pf_type f = [] then (Inl Type_required, s)
      else if pf_payload f \<noteq> [] \<and> parse_json (pf_payload f) = None then (Inl Payload_not_json, s)
      else case publish \<lparr>ce_type = pf_type f, ce_workflow = pf_workflow f, ce_payload = pf_payload f\<rparr> s of
        (Some err, s') \<Rightarrow> (Inl (Publish_error err), s')
      | (None, s') \<Rightarrow> (Inr (''accepted: '' @ pf_type f @ [CHR 0x0A]), s'))"

definition publish_cmd ::
  "(string \<Rightarrow> string) \<Rightarrow> 's dial \<Rightarrow> string list \<Rightarrow> 's \<Rightarrow> (ctl_error + string) \<times> 's" where
  "publish_cmd getenv dial args s =
     (case parse_flags publish_flag_kind set_publish_flag args (default_publish_flags getenv) of
        Inl err \<Rightarrow> (Inl (Bad_ctl_flags err), s)
      | Inr (f, rest) \<Rightarrow> publish_event (new_client dial (pf_socket f) False) f s)"

text \<open>\<^verbatim>\<open>run\<close>: it has no flags of its own.\<close>

definition ctl_run ::
  "string \<Rightarrow> (string \<Rightarrow> string) \<Rightarrow> 's dial \<Rightarrow> string list \<Rightarrow> 's \<Rightarrow> (ctl_error + string) \<times> 's" where
  "ctl_run version getenv dial args s =
     (case parse_flags (\<lambda>_. None) (\<lambda>_ _ _. None) args () of
        Inl err \<Rightarrow> (Inl (Bad_ctl_flags err), s)
      | Inr (_, rest) \<Rightarrow>
          let cmd = (case rest of [] \<Rightarrow> [] | a # _ \<Rightarrow> a) in
          if cmd = [] \<or> cmd = ''version'' then (Inr (''byteswarmctl '' @ version @ [CHR 0x0A]), s)
          else if cmd = ''publish'' then publish_cmd getenv dial (tl rest) s
          else (Inl (Unknown_command cmd), s))"

text \<open>\<^verbatim>\<open>main\<close>: the exit status and what is printed on standard output.\<close>

definition ctl_main ::
  "string \<Rightarrow> (string \<Rightarrow> string) \<Rightarrow> 's dial \<Rightarrow> string list \<Rightarrow> 's \<Rightarrow> nat \<times> string \<times> 's" where
  "ctl_main version getenv dial args s =
     (case ctl_run version getenv dial args s of
        (Inl err, s') \<Rightarrow> (1, [], s')
      | (Inr out, s') \<Rightarrow> (0, out, s'))"

lemmas [flag_defs] = publish_flag_kind_def set_publish_flag_def default_publish_flags_def default_socket_path_def

section \<open>Facts\<close>

lemma publish_flag_names: "publish_flag_kind n = Some Value_flag \<Longrightarrow> plain_name n"
  by (auto simp: publish_flag_kind_def plain_name_def split: if_splits)

lemma ctl_run_publish:
  assumes "\<forall>(n, v) \<in> set fs. publish_flag_kind n = Some Value_flag"
    and "set_flags set_publish_flag fs (default_publish_flags getenv) = Some f"
  shows "ctl_run version getenv dial (''publish'' # write_flags fs) s =
    publish_event (new_client dial (pf_socket f) False) f s"
proof -
  have "\<forall>(n, v) \<in> set fs. plain_name n \<and> publish_flag_kind n = Some Value_flag"
    using assms(1) publish_flag_names by blast
  from parse_write_flags [OF this assms(2), of "[]"] show ?thesis
    by (simp add: ctl_run_def parse_flags_stop is_flag_def publish_cmd_def)
qed

text \<open>What the command does to the stream, against the program's own server and bus.\<close>

lemma ctl_run_stores:
  assumes "dial socket = serve_events (bus_publish reply)"
    and "valid_utf8 ty" and "valid_utf8 workflow" and "room_for payload"
    and "\<And>body. client_body \<lparr>ce_type = ty, ce_workflow = workflow, ce_payload = payload\<rparr> = Some body \<Longrightarrow>
      length body \<le> max_event_body_bytes"
  shows "case ctl_run version getenv dial (''publish'' # write_flags
       [(''type'', ty), (''workflow'', workflow), (''payload'', payload), (''socket'', socket)]) ms of
     (Inr out, ms') \<Rightarrow> out = ''accepted: '' @ ty @ [CHR 0x0A] \<and>
       valid_type ty \<and> good_workflow workflow \<and> (payload = [] \<or> parse_json payload \<noteq> None) \<and> reply = Pub_acked \<and>
       stream_events ms' = stream_events ms @
         [\<lparr>ev_type = ty, ev_workflow = workflow, ev_payload = compact_text False False payload\<rparr>] \<and>
       bus_publish reply \<lparr>ev_type = ty, ev_workflow = workflow, ev_payload = compact_text False False payload\<rparr> ms = (None, ms')
   | (Inl err, ms') \<Rightarrow>
       \<not> (valid_type ty \<and> good_workflow workflow \<and> (payload = [] \<or> parse_json payload \<noteq> None) \<and> reply = Pub_acked) \<and>
       (reply \<noteq> Pub_error_stored \<longrightarrow> ms' = ms)"
proof -
  let ?args = "''publish'' # write_flags
      [(''type'', ty), (''workflow'', workflow), (''payload'', payload), (''socket'', socket)]"
  define e where "e = \<lparr>ce_type = ty, ce_workflow = workflow, ce_payload = payload\<rparr>"
  let ?f = "\<lparr>pf_type = ty, pf_workflow = workflow, pf_payload = payload, pf_socket = socket\<rparr>"
  let ?ev = "\<lparr>ev_type = ty, ev_workflow = workflow, ev_payload = compact_text False False payload\<rparr>"
  have run: "ctl_run version getenv dial ?args ms = publish_event (client_publish (serve_events (bus_publish reply)) False) ?f ms"
    by (subst ctl_run_publish [where f = ?f])
      (simp_all add: flag_defs new_client_def assms(1))
  show ?thesis
  proof (cases "ty = [] \<or> payload \<noteq> [] \<and> parse_json payload = None")
    case True
    then show ?thesis
      unfolding run using valid_type_chars(1) by (auto simp: publish_event_def)
  next
    case False
    then obtain body where b: "client_body e = Some body"
      using client_not_encodable [of e] by (cases "client_body e") (auto simp: e_def)
    have ev: "submitted_event (sent_request e) = ?ev"
      using sent_event [of e] assms(2,3) by (simp add: e_def sent_payload_def)
    have v: "validate_submit (sent_request e) = None \<longleftrightarrow> valid_type ty \<and> good_workflow workflow"
      using assms(2,3) by (simp add: validate_submit_None sent_request_def e_def sanitize_valid)
    note o = client_outcome [OF b _ assms(5) [OF b [unfolded e_def]], of "bus_publish reply" ms, unfolded v ev]
    have room: "room_for (ce_payload e)" using assms(4) by (simp add: e_def)
    obtain r ms' where c: "client_publish (serve_events (bus_publish reply)) False e ms = (r, ms')" by fastforce
    have run': "ctl_run version getenv dial ?args ms =
        (case r of Some err \<Rightarrow> (Inl (Publish_error err), ms') | None \<Rightarrow> (Inr (''accepted: '' @ ty @ [CHR 0x0A]), ms'))"
      unfolding run using False c by (auto simp: publish_event_def e_def split: option.split)
    show ?thesis
    proof (cases "valid_type ty \<and> good_workflow workflow")
      case True
      have "validate_submit (sent_request e) = None" using v True by simp
      then obtain subj where subj: "subject_for ?ev = Inr subj" using validated_subject(1) ev by metis
      have cs: "carried ?ev = ?ev" using True assms(3) by (intro carried_ok) simp_all
      have b: "ms' = snd (bus_publish reply ?ev ms)" "r = None \<longleftrightarrow> reply = Pub_acked"
        using o [OF room, unfolded c fst_conv snd_conv if_P [OF True]] bus_publish_ok [OF subj, of reply ms]
        by simp_all
      have st: "stream_events ms' = stream_events ms @ [?ev]" if "reply = Pub_acked"
        using b(1) subj that cs
        by (simp add: bus_publish_def Let_def stream_events_append del: stream_events.simps)
      have pub: "bus_publish reply ?ev ms = (None, ms')" if "reply = Pub_acked"
        using b(1) subj that by (simp add: bus_publish_def)
      have lost: "ms' = ms" if "reply = Pub_error_lost"
        using b(1) subj that by (simp add: bus_publish_def Let_def)
      show ?thesis
      proof (cases r)
        case None
        then have "ctl_run version getenv dial ?args ms = (Inr (''accepted: '' @ ty @ [CHR 0x0A]), ms')"
          unfolding run' by simp
        then show ?thesis using None b(2) st pub True False by simp
      next
        case (Some err)
        then have "ctl_run version getenv dial ?args ms = (Inl (Publish_error err), ms')"
          unfolding run' by simp
        moreover have "reply \<noteq> Pub_acked" "reply \<noteq> Pub_error_stored \<longrightarrow> ms' = ms"
          using Some b(2) lost by (cases reply; simp)+
        ultimately show ?thesis by simp
      qed
    next
      case invalid: False
      then show ?thesis using o [OF room] run' c by auto
    qed
  qed
qed

lemma small_body:
  assumes "client_body \<lparr>ce_type = ''t'', ce_workflow = ''w'', ce_payload = ''{ }''\<rparr> = Some body"
  shows "length body \<le> max_event_body_bytes"
proof -
  let ?e = "\<lparr>ce_type = ''t'', ce_workflow = ''w'', ce_payload = ''{ }''\<rparr>"
  have b: "client_body ?e = Some (''{'' @ quote ''type'' @ '':'' @ quote ''t'' @ '','' @ quote ''workflowID'' @ '':'' @
      quote ''w'' @ '','' @ quote ''payload'' @ '':{}}'')"
    by code_simp
  have l: "length (quote ''t'') = 3" "length (quote ''w'') = 3" "length (quote ''type'') = 6"
    "length (quote ''workflowID'') = 12" "length (quote ''payload'') = 9" by code_simp+
  show ?thesis using assms unfolding b by (auto simp: l max_event_body_bytes_def)
qed

lemma set_publish_flags:
  assumes "set (map fst fs) \<subseteq> {''type'', ''workflow'', ''payload''}"
  shows "\<exists>f'. set_flags set_publish_flag fs f = Some f' \<and> pf_socket f' = pf_socket f \<and>
    set_flags set_publish_flag (fs @ [(''socket'', pf_socket f)]) f = Some f'"
  using assms
proof (induction fs arbitrary: f)
  case Nil
  then show ?case by (simp add: set_publish_flag_def)
next
  case (Cons x fs)
  obtain n v where x: "x = (n, v)" by (cases x)
  obtain f1 where f1: "set_publish_flag n v f = Some f1" "pf_socket f1 = pf_socket f"
    using Cons.prems by (auto simp: set_publish_flag_def x)
  then show ?case using Cons.IH [of f1] Cons.prems by (simp add: x)
qed

lemma ctl_run_default_socket:
  assumes "set (map fst fs) \<subseteq> {''type'', ''workflow'', ''payload''}"
  shows "ctl_run version getenv dial (''publish'' # write_flags (fs @ [(''socket'', default_socket_path getenv)])) s =
    ctl_run version getenv dial (''publish'' # write_flags fs) s"
proof -
  have k: "\<forall>(n, v) \<in> set fs. publish_flag_kind n = Some Value_flag"
    using assms by (auto simp: publish_flag_kind_def)
  have d: "pf_socket (default_publish_flags getenv) = default_socket_path getenv" by (simp add: default_publish_flags_def)
  have k': "\<forall>(n, v) \<in> set (fs @ [(''socket'', default_socket_path getenv)]). publish_flag_kind n = Some Value_flag"
    using k by (simp add: publish_flag_kind_def)
  obtain f where f: "set_flags set_publish_flag fs (default_publish_flags getenv) = Some f"
    "set_flags set_publish_flag (fs @ [(''socket'', default_socket_path getenv)]) (default_publish_flags getenv) = Some f"
    using set_publish_flags [OF assms, of "default_publish_flags getenv"] unfolding d by blast
  show ?thesis by (simp only: ctl_run_publish [OF k f(1)] ctl_run_publish [OF k' f(2)])
qed

section \<open>Properties\<close>

lemma empty_object: "room_for ''{ }''" "parse_json ''{ }'' \<noteq> None"
  by code_simp+

text \<open>
  C13: from the operator's command line to the stream.  Against the program's own server and
  bus, \<^verbatim>\<open>byteswarmctl publish\<close> exits with status 0 exactly when its type and workflow are
  valid, its payload is empty or JSON and the broker acknowledged the event; then it printed that
  the event was accepted, and the stream has grown by exactly that event, its payload compacted.
  When it exits with status 1, the stream has not changed, unless the broker stored the event
  without acknowledging it.
\<close>

theorem ctl_publish_stores_event:
  assumes "dial socket = serve_events (bus_publish reply)"
    and "valid_utf8 ty" and "valid_utf8 workflow" and "room_for payload"
    and "\<And>body. client_body \<lparr>ce_type = ty, ce_workflow = workflow, ce_payload = payload\<rparr> = Some body \<Longrightarrow>
      length body \<le> max_event_body_bytes"
  shows "case ctl_main version getenv dial (''publish'' # write_flags
       [(''type'', ty), (''workflow'', workflow), (''payload'', payload), (''socket'', socket)]) ms of
     (status, out, ms') \<Rightarrow>
       (status = 0 \<longleftrightarrow>
          valid_type ty \<and> good_workflow workflow \<and> (payload = [] \<or> parse_json payload \<noteq> None) \<and> reply = Pub_acked) \<and>
       (if status = 0 then out = ''accepted: '' @ ty @ [CHR 0x0A] \<and>
          stream_events ms' = stream_events ms @
            [\<lparr>ev_type = ty, ev_workflow = workflow, ev_payload = compact_text False False payload\<rparr>]
        else status = 1 \<and> out = [] \<and> (reply \<noteq> Pub_error_stored \<longrightarrow> ms' = ms))"
  using ctl_run_stores [where dial = dial and socket = socket and payload = payload and ms = ms and version = version and getenv = getenv, OF assms]
  by (auto simp: ctl_main_def split: prod.splits sum.splits)

theorem ctl_publish_stores_event_witness:
  "\<exists>ms'. ctl_main ''1.0'' (\<lambda>_. []) (\<lambda>sock. serve_events (bus_publish Pub_acked))
      [''publish'', ''--type'', ''t'', ''--workflow'', ''w'', ''--payload'', ''{ }'', ''--socket'', ''/s''] [] =
      (0, ''accepted: t'' @ [CHR 0x0A], ms') \<and>
    stream_events ms' = [\<lparr>ev_type = ''t'', ev_workflow = ''w'', ev_payload = ''{}''\<rparr>]"
proof -
  have u: "valid_utf8 ''t''" "valid_utf8 ''w''" "room_for ''{ }''" by (code_simp, code_simp, rule empty_object)
  have g: "valid_type ''t''" "good_workflow ''w''" "parse_json ''{ }'' \<noteq> None"
    by (code_simp, code_simp, rule empty_object)
  have c: "compact_text False False ''{ }'' = ''{}''" by code_simp
  show ?thesis
    using ctl_publish_stores_event [where dial = "\<lambda>sock. serve_events (bus_publish Pub_acked)" and reply = Pub_acked
        and socket = "''/s''" and getenv = "\<lambda>_. []" and version = "''1.0''" and ms = "[]", OF refl u small_body] g
    by (auto simp: c long_flag_def split: prod.splits if_splits)
qed

end
