(* ===== verification/Store.thy ===== *)
theory Store
  imports Ports
begin

text \<open>
  The persistence adapters \<^verbatim>\<open>internal/store/sqlite.go\<close> and
  \<^verbatim>\<open>internal/store/postgres.go\<close>.  The state is the table \<^verbatim>\<open>consumer_state\<close>, a map from
  the primary key to the row; each operation is the one SQL statement the code executes, read
  as its effect on the map.  The database engines are not part of the repository: whether a
  call reports an error, and whether its statement had run by then, is the argument
  \<^verbatim>\<open>db_reply\<close> of the operation, and the clock is an argument too.  A driver returns the
  bytes of a row as a slice that is not nil.
\<close>

record row =
  row_state :: bytes
  row_updated_at :: int

type_synonym table = "string \<rightharpoonup> row"

datatype db_reply = Done_ok | Fail_before | Fail_after

datatype store_error = OpenError | SchemaError | LoadError string | SaveError string

section \<open>SQLite\<close>

datatype handle_op = Opened | Max_one_connection | Schema_created | Handle_closed

text \<open>
  \<^verbatim>\<open>NewSQLite\<close>: the calls made on the handle, and the result.  The existing table, if any,
  is kept (\<^verbatim>\<open>CREATE TABLE IF NOT EXISTS\<close>).
\<close>

definition ensure_schema :: "db_reply \<Rightarrow> table option \<Rightarrow> store_error option \<times> table option" where
  "ensure_schema reply db =
     (let created = (case db of None \<Rightarrow> Some Map.empty | Some t \<Rightarrow> Some t) in
      case reply of
        Done_ok \<Rightarrow> (None, created)
      | Fail_before \<Rightarrow> (Some SchemaError, db)
      | Fail_after \<Rightarrow> (Some SchemaError, created))"

definition new_sqlite ::
  "bool \<Rightarrow> db_reply \<Rightarrow> table option \<Rightarrow> handle_op list \<times> (store_error + table) \<times> table option" where
  "new_sqlite open_ok reply db =
     (if \<not> open_ok then ([], Inl OpenError, db)
      else case ensure_schema reply db of
        (None, db') \<Rightarrow> ([Opened, Max_one_connection, Schema_created], Inr (the db'), db')
      | (Some err, db') \<Rightarrow> ([Opened, Max_one_connection, Handle_closed], Inl err, db'))"

definition sqlite_load :: "db_reply \<Rightarrow> string \<Rightarrow> table \<Rightarrow> store_error + bytes option" where
  "sqlite_load reply k t =
     (if reply \<noteq> Done_ok then Inl (LoadError k)
      else case t k of
        None \<Rightarrow> Inr None
      | Some r \<Rightarrow> Inr (Some (row_state r)))"

definition sqlite_upsert :: "string \<Rightarrow> bytes \<Rightarrow> int \<Rightarrow> table \<Rightarrow> table" where
  "sqlite_upsert k v now t =
     (case t k of
        None \<Rightarrow> t(k \<mapsto> \<lparr>row_state = v, row_updated_at = now\<rparr>)
      | Some r \<Rightarrow> t(k \<mapsto> r\<lparr>row_state := v, row_updated_at := now\<rparr>))"

definition sqlite_save ::
  "db_reply \<Rightarrow> int \<Rightarrow> string \<Rightarrow> bytes option \<Rightarrow> table \<Rightarrow> store_error option \<times> table" where
  "sqlite_save reply now k st t =
     (let v = (case st of None \<Rightarrow> [] | Some b \<Rightarrow> b);
          t' = sqlite_upsert k v now t in
      case reply of
        Done_ok \<Rightarrow> (None, t')
      | Fail_before \<Rightarrow> (Some (SaveError k), t)
      | Fail_after \<Rightarrow> (Some (SaveError k), t'))"

section \<open>PostgreSQL\<close>

text \<open>
  The same statements with other placeholders; the pool is not capped at one connection.
\<close>

definition ensure_postgres_schema :: "db_reply \<Rightarrow> table option \<Rightarrow> store_error option \<times> table option" where
  "ensure_postgres_schema reply db =
     (let created = (case db of None \<Rightarrow> Some Map.empty | Some t \<Rightarrow> Some t) in
      case reply of
        Done_ok \<Rightarrow> (None, created)
      | Fail_before \<Rightarrow> (Some SchemaError, db)
      | Fail_after \<Rightarrow> (Some SchemaError, created))"

definition new_postgres ::
  "bool \<Rightarrow> db_reply \<Rightarrow> table option \<Rightarrow> handle_op list \<times> (store_error + table) \<times> table option" where
  "new_postgres open_ok reply db =
     (if \<not> open_ok then ([], Inl OpenError, db)
      else case ensure_postgres_schema reply db of
        (None, db') \<Rightarrow> ([Opened, Schema_created], Inr (the db'), db')
      | (Some err, db') \<Rightarrow> ([Opened, Handle_closed], Inl err, db'))"

definition postgres_load :: "db_reply \<Rightarrow> string \<Rightarrow> table \<Rightarrow> store_error + bytes option" where
  "postgres_load reply k t =
     (if reply \<noteq> Done_ok then Inl (LoadError k)
      else case t k of
        None \<Rightarrow> Inr None
      | Some r \<Rightarrow> Inr (Some (row_state r)))"

definition postgres_upsert :: "string \<Rightarrow> bytes \<Rightarrow> int \<Rightarrow> table \<Rightarrow> table" where
  "postgres_upsert k v now t =
     (case t k of
        None \<Rightarrow> t(k \<mapsto> \<lparr>row_state = v, row_updated_at = now\<rparr>)
      | Some r \<Rightarrow> t(k \<mapsto> r\<lparr>row_state := v, row_updated_at := now\<rparr>))"

definition postgres_save ::
  "db_reply \<Rightarrow> int \<Rightarrow> string \<Rightarrow> bytes option \<Rightarrow> table \<Rightarrow> store_error option \<times> table" where
  "postgres_save reply now k st t =
     (let v = (case st of None \<Rightarrow> [] | Some b \<Rightarrow> b);
          t' = postgres_upsert k v now t in
      case reply of
        Done_ok \<Rightarrow> (None, t')
      | Fail_before \<Rightarrow> (Some (SaveError k), t)
      | Fail_after \<Rightarrow> (Some (SaveError k), t'))"

section \<open>The repository contract\<close>

text \<open>What a client can observe of a table: the states, not the time stamps.\<close>

definition states :: "table \<Rightarrow> string \<Rightarrow> bytes option" where
  "states t k = map_option row_state (t k)"

lemma states_upsert [simp]:
  "states (sqlite_upsert k v now t) = (states t)(k \<mapsto> v)"
  "states (postgres_upsert k v now t) = (states t)(k \<mapsto> v)"
  by (auto simp: states_def sqlite_upsert_def postgres_upsert_def fun_eq_iff split: option.splits)

lemmas save_defs = sqlite_save_def postgres_save_def Let_def
lemmas load_defs = sqlite_load_def postgres_load_def states_def

lemma load_states:
  "sqlite_load Done_ok k t = Inr (states t k)" "postgres_load Done_ok k t = Inr (states t k)"
  by (simp_all add: load_defs split: option.splits)

interpretation sqlite: repository "sqlite_load lr" "sqlite_save sr now" states for lr sr now
  by unfold_locales
    (auto simp: save_defs load_defs(1,3) split: db_reply.splits if_splits option.splits)

interpretation postgres: repository "postgres_load lr" "postgres_save sr now" states for lr sr now
  by unfold_locales
    (auto simp: save_defs load_defs(2,3) split: db_reply.splits if_splits option.splits)

section \<open>Properties\<close>

text \<open>
  The two adapters are interchangeable behind the port.  From tables with the same states
  every load gives the same answer and every save leaves the same states, whatever the clocks
  say; on SQLite and hence on both, a successful save is what the next load of that key
  returns, a missing key loads as nil, and the other keys are untouched even by a failing save.
\<close>

lemma adapters_interchangeable:
  assumes "states t = states u"
  shows "sqlite_load r k t = postgres_load r k u \<and>
    fst (sqlite_save r now k v t) = fst (postgres_save r now' k v u) \<and>
    states (snd (sqlite_save r now k v t)) = states (snd (postgres_save r now' k v u)) \<and>
    sqlite_load Done_ok k (snd (sqlite_save Done_ok now k v t)) =
      Inr (Some (case v of None \<Rightarrow> [] | Some b \<Rightarrow> b)) \<and>
    (sqlite_load Done_ok k t = Inr None \<longleftrightarrow> k \<notin> dom t) \<and>
    (\<forall>k'. k' \<noteq> k \<longrightarrow> states (snd (sqlite_save r now k v t)) k' = states t k')"
proof (intro conjI)
  have k: "map_option row_state (t k) = map_option row_state (u k)"
    using fun_cong [OF assms, of k] by (simp add: states_def)
  then show "sqlite_load r k t = postgres_load r k u"
    by (auto simp: load_defs split: option.splits)
  show "fst (sqlite_save r now k v t) = fst (postgres_save r now' k v u)"
    by (cases r) (simp_all add: save_defs)
  show "states (snd (sqlite_save r now k v t)) = states (snd (postgres_save r now' k v u))"
    by (cases r) (simp_all add: save_defs assms)
  show "sqlite_load Done_ok k (snd (sqlite_save Done_ok now k v t)) =
      Inr (Some (case v of None \<Rightarrow> [] | Some b \<Rightarrow> b))"
    by (simp add: load_states save_defs)
  show "sqlite_load Done_ok k t = Inr None \<longleftrightarrow> k \<notin> dom t"
    by (auto simp: load_states states_def)
  show "\<forall>k'. k' \<noteq> k \<longrightarrow> states (snd (sqlite_save r now k v t)) k' = states t k'"
    using sqlite.save_other_key by blast
qed

end
