(* ===== verification/Plugin_Store.thy ===== *)
theory Plugin_Store
  imports Store
begin

text \<open>
  The script capability \<^verbatim>\<open>store\<close> of \<^verbatim>\<open>internal/plugin/store.go\<close>: a repository seen
  through a prefix, the plugin's name and a colon.  The client's lemmas are proved for any
  repository, then read off for the adapter the composition root wires (SQLite).
\<close>

definition ns_key :: "string \<Rightarrow> string \<Rightarrow> string" where
  "ns_key namespace k = namespace @ '':'' @ k"

definition ns_load ::
  "(string \<Rightarrow> 's \<Rightarrow> 'err + bytes option) \<Rightarrow> string \<Rightarrow> string \<Rightarrow> 's \<Rightarrow> 'err + bytes option" where
  "ns_load repo_load namespace k s = repo_load (ns_key namespace k) s"

definition ns_save ::
  "(string \<Rightarrow> bytes option \<Rightarrow> 's \<Rightarrow> 'err option \<times> 's) \<Rightarrow> string \<Rightarrow>
   string \<Rightarrow> bytes option \<Rightarrow> 's \<Rightarrow> 'err option \<times> 's" where
  "ns_save repo_save namespace k v s = repo_save (ns_key namespace k) v s"

lemma ns_key_inj [simp]: "ns_key n k = ns_key n k' \<longleftrightarrow> k = k'"
  by (simp add: ns_key_def)

lemma ns_key_split: "CHR '':'' \<notin> set n \<Longrightarrow> takeWhile (\<lambda>c. c \<noteq> CHR '':'') (ns_key n k) = n"
  unfolding ns_key_def by (subst takeWhile_append2) auto

lemma ns_key_disjoint:
  assumes "CHR '':'' \<notin> set n" and "CHR '':'' \<notin> set n'" and "n \<noteq> n'"
  shows "ns_key n k \<noteq> ns_key n' k'"
  using ns_key_split [OF assms(1), of k] ns_key_split [OF assms(2), of k'] assms(3) by metis

text \<open>A namespaced view of a repository is a repository again.\<close>

locale namespaced = repository +
  fixes namespace :: string

sublocale namespaced \<subseteq> view: repository "ns_load load namespace" "ns_save save namespace"
  "\<lambda>s k. contents s (ns_key namespace k)"
proof
  fix k v s s'
  assume "ns_save save namespace k v s = (None, s')"
  then have c: "contents s' = (contents s)(ns_key namespace k \<mapsto> case v of None \<Rightarrow> [] | Some b \<Rightarrow> b)"
    unfolding ns_save_def by (rule save_ok)
  show "(\<lambda>x. contents s' (ns_key namespace x)) =
      (\<lambda>x. contents s (ns_key namespace x))(k \<mapsto> case v of None \<Rightarrow> [] | Some b \<Rightarrow> b)"
    by (rule ext) (simp add: c)
next
  fix k v s err s'
  assume "ns_save save namespace k v s = (Some err, s')"
  then have c: "contents s' = contents s \<or>
      contents s' = (contents s)(ns_key namespace k \<mapsto> case v of None \<Rightarrow> [] | Some b \<Rightarrow> b)"
    unfolding ns_save_def by (rule save_err)
  then show "(\<lambda>x. contents s' (ns_key namespace x)) = (\<lambda>x. contents s (ns_key namespace x)) \<or>
      (\<lambda>x. contents s' (ns_key namespace x)) =
      (\<lambda>x. contents s (ns_key namespace x))(k \<mapsto> case v of None \<Rightarrow> [] | Some b \<Rightarrow> b)"
    by (elim disjE) (simp_all add: fun_eq_iff)
next
  fix k s r
  assume "ns_load load namespace k s = Inr r"
  then show "r = contents s (ns_key namespace k)"
    unfolding ns_load_def by (rule load_ok)
qed

context repository
begin

lemma ns_save_frame:
  assumes "CHR '':'' \<notin> set n" and "CHR '':'' \<notin> set n'" and "n \<noteq> n'"
  shows "contents (snd (ns_save save n k v s)) (ns_key n' k') = contents s (ns_key n' k')"
  unfolding ns_save_def by (rule save_other_key) (metis assms ns_key_disjoint)

end

interpretation plugin_sqlite: namespaced "sqlite_load lr" "sqlite_save sr now" states n for lr sr now n ..

section \<open>A run of operations\<close>

text \<open>
  The store operations of several plugins in the order they reach the repository: each entry
  names the plugin, the key, the value, the database's reply and the clock.
\<close>

type_synonym store_op = "string \<times> string \<times> bytes option \<times> db_reply \<times> int"

definition plugin_save :: "store_op \<Rightarrow> table \<Rightarrow> table" where
  "plugin_save x t =
     (case x of (n, k, v, r, now) \<Rightarrow> snd (ns_save (sqlite_save r now) n k v t))"

definition store_run :: "store_op list \<Rightarrow> table \<Rightarrow> table" where
  "store_run xs t = fold plugin_save xs t"

lemma plugin_save_other:
  assumes "CHR '':'' \<notin> set n" and "CHR '':'' \<notin> set m" and "m \<noteq> n"
  shows "states (plugin_save (m, op) t) (ns_key n k) = states t (ns_key n k)"
  using sqlite.ns_save_frame [OF assms(2,1,3)]
  by (simp add: plugin_save_def split: prod.splits)

section \<open>Properties\<close>

text \<open>
  C23: plugins whose names hold no colon cannot reach each other's state.  After any sequence
  of saves by any such plugins, failing ones included, what a plugin reads under its name is
  what it would read had only its own saves been made.
\<close>

theorem plugins_isolated:
  assumes "CHR '':'' \<notin> set n" and "list_all (\<lambda>x. CHR '':'' \<notin> set (fst x)) xs"
  shows "ns_load (sqlite_load Done_ok) n k (store_run xs t) =
    ns_load (sqlite_load Done_ok) n k (store_run (filter (\<lambda>x. fst x = n) xs) t)"
proof -
  have "states (store_run xs t) (ns_key n k) = states (store_run (filter (\<lambda>x. fst x = n) xs) u) (ns_key n k)"
    if "\<forall>k. states t (ns_key n k) = states u (ns_key n k)" for u k
    using assms(2) that
  proof (induction xs arbitrary: t u k)
    case (Cons x xs)
    obtain m op where x: "x = (m, op)" by (cases x)
    obtain k1 v r now where op: "op = (k1, v, r, now)" by (cases op)
    show ?case
    proof (cases "m = n")
      case True
      have "\<forall>k. states (plugin_save x t) (ns_key n k) = states (plugin_save x u) (ns_key n k)"
        using Cons.prems(2) True
        by (cases r) (simp_all add: x op plugin_save_def ns_save_def save_defs)
      with Cons True x show ?thesis by (simp add: store_run_def)
    next
      case False
      have "\<forall>k. states (plugin_save x t) (ns_key n k) = states u (ns_key n k)"
        using Cons.prems False x by (simp add: plugin_save_other [OF assms(1)])
      with Cons False x show ?thesis by (simp add: store_run_def)
    qed
  qed (simp add: store_run_def)
  from this [of t k] show ?thesis
    by (simp add: ns_load_def load_states)
qed

theorem plugins_isolated_witness:
  "ns_load (sqlite_load Done_ok) ''a'' ''k''
     (store_run [(''a'', ''k'', Some ''1'', Done_ok, 0), (''b'', ''k'', Some ''2'', Fail_after, 1)] Map.empty) =
   Inr (Some ''1'')"
proof -
  let ?xs = "[(''a'', ''k'', Some ''1'', Done_ok, 0), (''b'', ''k'', Some ''2'', Fail_after, 1)]"
  have ok: "CHR '':'' \<notin> set ''a''" "list_all (\<lambda>x. CHR '':'' \<notin> set (fst x)) ?xs" by simp_all
  have "ns_load (sqlite_load Done_ok) ''a'' ''k'' (store_run (filter (\<lambda>x. fst x = ''a'') ?xs) Map.empty) =
      Inr (Some ''1'')"
    by (simp add: store_run_def plugin_save_def ns_save_def ns_load_def save_defs load_defs
        sqlite_upsert_def)
  with plugins_isolated [OF ok] show ?thesis by (rule trans)
qed

text \<open>
  A colon in a plugin name defeats the separation, although the code says a script cannot
  forge a prefix: the plugin \<^verbatim>\<open>n\<close> writing the key \<^verbatim>\<open>m:k\<close> overwrites the key
  \<^verbatim>\<open>k\<close> of the plugin \<^verbatim>\<open>n:m\<close>.
\<close>

lemma colon_name_collides:
  "ns_load (sqlite_load Done_ok) (n @ '':'' @ m) k
     (snd (ns_save (sqlite_save Done_ok now) n (m @ '':'' @ k) (Some v) t)) = Inr (Some v)"
proof -
  have "states (snd (ns_save (sqlite_save Done_ok now) n (m @ '':'' @ k) (Some v) t)) (ns_key (n @ '':'' @ m) k) = Some v"
    by (simp add: ns_save_def save_defs ns_key_def)
  then show ?thesis by (simp add: ns_load_def load_states)
qed

end
