(* ===== verification/Plugin_Publish.thy ===== *)
theory Plugin_Publish
  imports Bus
begin

text \<open>
  The script capability \<^verbatim>\<open>publish\<close> of \<^verbatim>\<open>internal/plugin/publish.go\<close>: validation of a
  script's event at the host boundary in front of any publisher.
\<close>

definition max_workflow_id_len :: nat where "max_workflow_id_len = 128"
definition max_script_payload_byte :: nat where "max_script_payload_byte = 1048576"

definition valid_subject_token :: "string \<Rightarrow> bool" where
  "valid_subject_token s = list_all token_char s"

datatype 'err script_publish_error = Invalid_event string | Publisher_error 'err

definition capability_publish ::
  "(event \<Rightarrow> 's \<Rightarrow> 'err option \<times> 's) \<Rightarrow> event \<Rightarrow> 's \<Rightarrow> 'err script_publish_error option \<times> 's" where
  "capability_publish publish e s =
     (if \<not> valid_type (ev_type e) then (Some (Invalid_event ''type''), s)
      else if length (ev_workflow e) > max_workflow_id_len \<or>
              ev_workflow e \<noteq> [] \<and> \<not> valid_subject_token (ev_workflow e) then
        (Some (Invalid_event ''workflowID''), s)
      else if length (ev_payload e) > max_script_payload_byte then
        (Some (Invalid_event ''payload too large''), s)
      else (case publish e s of (r, s') \<Rightarrow> (map_option Publisher_error r, s')))"

definition script_event_ok :: "event \<Rightarrow> bool" where
  "script_event_ok e \<longleftrightarrow>
     valid_type (ev_type e) \<and> length (ev_workflow e) \<le> 128 \<and> list_all token_char (ev_workflow e) \<and>
     length (ev_payload e) \<le> 1048576"

lemma capability_publish_cases:
  "capability_publish publish e s =
     (if script_event_ok e then (map_option Publisher_error (fst (publish e s)), snd (publish e s))
      else (fst (capability_publish publish e s), s))"
  by (auto simp: capability_publish_def script_event_ok_def max_workflow_id_len_def
      max_script_payload_byte_def valid_subject_token_def split: prod.splits)

lemma capability_publish_refuses:
  "\<not> script_event_ok e \<Longrightarrow> \<exists>f. capability_publish publish e s = (Some (Invalid_event f), s)"
  by (auto simp: capability_publish_def script_event_ok_def max_workflow_id_len_def
      max_script_payload_byte_def valid_subject_token_def)

text \<open>A validating publisher in front of a publisher is a publisher.\<close>

locale script_publisher = publisher

sublocale script_publisher \<subseteq> script: publisher "capability_publish publish" published carried
proof
  fix e s s'
  assume a: "capability_publish publish e s = (None, s')"
  then have ok: "script_event_ok e"
    using capability_publish_refuses [of e publish s] by auto
  then have "publish e s = (None, s')"
    using a capability_publish_cases [of publish e s] by (cases "publish e s") auto
  then show "published s' = published s @ [carried e] \<and> valid_type (ev_type e)"
    by (rule publish_ok)
next
  fix e s err s'
  assume a: "capability_publish publish e s = (Some err, s')"
  then have "s' = snd (publish e s) \<or> s' = s"
    using capability_publish_refuses [of e publish s] capability_publish_cases [of publish e s]
    by (cases "script_event_ok e") auto
  then show "published s' = published s \<or> published s' = published s @ [carried e]"
    using publish_at_most_once [of e s] by auto
qed

interpretation plugin_jetstream: script_publisher "bus_publish reply" stream_events carried for reply ..

lemma script_subject:
  assumes "script_event_ok e"
  shows "\<exists>s. subject_for e = Inr s \<and> split_on (CHR ''.'') s = [''bw'', ''evt'', ev_type e, workflow_token e]"
proof -
  have w: "set (workflow_token e) \<inter> set '' .*>@:/'' = {}"
    "set (workflow_token e) \<inter> set [CHR 0x09, CHR 0x0A, CHR 0x0D] = {}"
    using assms token_chars_not_special [of "ev_workflow e"]
    by (simp_all add: workflow_token_def empty_workflow_token_def script_event_ok_def)
  then have dot: "CHR ''.'' \<notin> set (workflow_token e)" by simp
  have "length (workflow_token e) \<le> 128" "workflow_token e \<noteq> []"
    using assms by (simp_all add: workflow_token_def empty_workflow_token_def script_event_ok_def)
  moreover have "\<not> contains_any (workflow_token e) blank_or_wild"
    using w by (auto simp: contains_any_iff blank_or_wild_def)
  ultimately have "check_token (workflow_token e) = None"
    by (simp add: check_token_def max_token_len_def)
  then obtain s where s: "subject_for e = Inr s"
    using assms by (auto simp: subject_for_Inr script_event_ok_def)
  with subject_for_split [OF s] dot show ?thesis by simp
qed

lemma script_carried: "script_event_ok e \<Longrightarrow> carried e = e"
  by (intro carried_ok) (simp_all add: script_event_ok_def token_chars_ascii valid_utf8_ascii)

section \<open>Properties\<close>

text \<open>
  C22: a script cannot inject subjects.  What the capability lets through is one message whose
  subject has exactly the four tokens prefix, type and workflow and which a subscriber decodes
  to the script's event; an event with an invalid field publishes nothing, and with valid
  fields only the broker can refuse it.
\<close>

theorem script_publish_confined:
  "(case capability_publish (bus_publish reply) e ms of
      (None, ms') \<Rightarrow> (\<exists>m. ms' = ms @ [m] \<and>
        split_on (CHR ''.'') (msg_subject m) = [''bw'', ''evt'', ev_type e, workflow_token e] \<and>
        wire_decode (msg_data m) = Some e)
    | (Some (Invalid_event f), ms') \<Rightarrow> ms' = ms \<and> \<not> script_event_ok e
    | (Some (Publisher_error err), ms') \<Rightarrow> reply \<noteq> Pub_acked \<and> script_event_ok e) \<and>
   (script_event_ok e \<longleftrightarrow> fst (capability_publish (bus_publish Pub_acked) e ms) = None)"
proof (cases "script_event_ok e")
  case True
  obtain s where s: "subject_for e = Inr s"
    "split_on (CHR ''.'') s = [''bw'', ''evt'', ev_type e, workflow_token e]"
    using script_subject [OF True] by blast
  have d: "wire_decode (wire_encode e) = Some e"
    using script_carried [OF True] by (simp add: wire_decode_encode carried_def)
  have c: "capability_publish (bus_publish r) e ms =
      (map_option Publisher_error (fst (bus_publish r e ms)), snd (bus_publish r e ms))" for r
    using True by (subst capability_publish_cases) simp
  show ?thesis
    unfolding c using True s d by (cases reply) (simp_all add: bus_publish_def)
next
  case False
  then show ?thesis
    using capability_publish_refuses [OF False, of "bus_publish reply" ms]
      capability_publish_refuses [OF False, of "bus_publish Pub_acked" ms] by auto
qed

end
