(* ===== verification/Plugin_Loader.thy ===== *)
theory Plugin_Loader
  imports Json_Roundtrip Json_Decode
begin

text \<open>
  Plugin declarations, \<^verbatim>\<open>internal/plugin/loader.go\<close>: the structs, their strict JSON form and
  the validation, which the server's configuration shares.
\<close>

record plugin_config =
  p_name :: string
  p_events :: "string list"
  p_path :: string
  p_script :: string

definition zero_plugin :: plugin_config where
  "zero_plugin = \<lparr>p_name = [], p_events = [], p_path = [], p_script = []\<rparr>"

definition plugin_fields :: "string list" where
  "plugin_fields = [''name'', ''events'', ''path'', ''script'']"

definition plugin_put :: "string \<Rightarrow> string \<Rightarrow> json \<Rightarrow> plugin_config \<Rightarrow> plugin_config \<times> bool" where
  "plugin_put n raw v p =
     (if n = ''name'' then set_field (\<lambda>s. p_name_update (\<lambda>_. s)) (decode_string (p_name p) v) p
      else if n = ''events'' then
        set_field (\<lambda>l. p_events_update (\<lambda>_. l)) (decode_list decode_string [] (p_events p) v) p
      else if n = ''path'' then set_field (\<lambda>s. p_path_update (\<lambda>_. s)) (decode_string (p_path p) v) p
      else set_field (\<lambda>s. p_script_update (\<lambda>_. s)) (decode_string (p_script p) v) p)"

definition decode_plugin :: "bool \<Rightarrow> plugin_config \<Rightarrow> json \<Rightarrow> plugin_config \<times> bool" where
  "decode_plugin strict p v = decode_struct strict plugin_fields plugin_put p v"

section \<open>Validation\<close>

datatype plugin_error =
    Name_required nat
  | No_events string
  | No_source string
  | Two_sources string
  | Duplicate_name string
  | Malformed_config

fun validate_from :: "nat \<Rightarrow> string list \<Rightarrow> plugin_config list \<Rightarrow> plugin_error option" where
  "validate_from i seen [] = None"
| "validate_from i seen (p # ps) =
     (if p_name p = [] then Some (Name_required i)
      else if length (p_events p) = 0 then Some (No_events (p_name p))
      else if p_path p = [] \<and> p_script p = [] then Some (No_source (p_name p))
      else if p_path p \<noteq> [] \<and> p_script p \<noteq> [] then Some (Two_sources (p_name p))
      else if p_name p \<in> set seen then Some (Duplicate_name (p_name p))
      else validate_from (i + 1) (p_name p # seen) ps)"

definition validate_plugins :: "plugin_config list \<Rightarrow> plugin_error option" where
  "validate_plugins ps = validate_from 0 [] ps"

text \<open>\<^verbatim>\<open>Parse\<close> decodes the first JSON value of the data, with unknown fields disallowed.\<close>

definition config_put :: "string \<Rightarrow> string \<Rightarrow> json \<Rightarrow> plugin_config list \<Rightarrow> plugin_config list \<times> bool" where
  "config_put n raw v ps = decode_list (decode_plugin True) zero_plugin ps v"

definition parse_plugins :: "bytes \<Rightarrow> plugin_error + plugin_config list" where
  "parse_plugins data =
     (case scan_json data of
        Done v rest \<Rightarrow>
          (case decode_struct True [''plugins''] config_put [] v of
             (ps, ok) \<Rightarrow>
               if \<not> ok then Inl Malformed_config
               else (case validate_plugins ps of Some err \<Rightarrow> Inl err | None \<Rightarrow> Inr ps))
      | _ \<Rightarrow> Inl Malformed_config)"

section \<open>What a valid declaration is\<close>

definition plugin_ok :: "plugin_config \<Rightarrow> bool" where
  "plugin_ok p \<longleftrightarrow> p_name p \<noteq> [] \<and> p_events p \<noteq> [] \<and> (p_path p = [] \<longleftrightarrow> p_script p \<noteq> [])"

lemma validate_from_None:
  "validate_from i seen ps = None \<longleftrightarrow>
     list_all plugin_ok ps \<and> distinct (map p_name ps) \<and> set (map p_name ps) \<inter> set seen = {}"
  by (induction ps arbitrary: i seen) (auto simp: plugin_ok_def)

lemma validate_from_Name_required:
  "validate_from i seen ps = Some (Name_required k) \<Longrightarrow>
     i \<le> k \<and> k - i < length ps \<and> p_name (ps ! (k - i)) = []"
proof (induction ps arbitrary: i seen)
  case (Cons p ps)
  show ?case
  proof (cases "p_name p = []")
    case False
    then have "validate_from (i + 1) (p_name p # seen) ps = Some (Name_required k)"
      using Cons.prems by (auto split: if_splits)
    from Cons.IH [OF this] have k: "i + 1 \<le> k" "k - (i + 1) < length ps" "p_name (ps ! (k - (i + 1))) = []"
      by simp_all
    then have "k - i = Suc (k - (i + 1))" by simp
    with k show ?thesis by simp
  qed (use Cons.prems in simp)
qed simp

lemma parse_first_value:
  "scan_json data = Done v r \<Longrightarrow> scan_json data' = Done v r' \<Longrightarrow> parse_plugins data = parse_plugins data'"
  by (simp add: parse_plugins_def)

lemma scan_empty_object: "scan_json (''{}'' @ t) = Done (JObj []) t"
  by (simp add: scan_json_def skip_ws_def is_space_def scan_value.simps(2) dquote_def max_nesting_def)

lemma parse_ignores_trailing: "parse_plugins (''{}'' @ t) = Inr []"
  by (simp add: parse_plugins_def scan_empty_object validate_plugins_def del: append.simps)

section \<open>Properties\<close>

text \<open>
  C39: plugin declarations are accepted exactly when every one has a name, at least one event
  and exactly one of path and script, and no name is used twice; the index in a missing-name
  error is that of a nameless declaration.  What \<^verbatim>\<open>Parse\<close> returns is always valid.
\<close>

theorem validate_plugins_spec:
  "(validate_plugins ps = None \<longleftrightarrow> list_all plugin_ok ps \<and> distinct (map p_name ps)) \<and>
   (case validate_plugins ps of
      Some (Name_required k) \<Rightarrow> k < length ps \<and> p_name (ps ! k) = []
    | _ \<Rightarrow> True) \<and>
   (case parse_plugins data of
      Inr qs \<Rightarrow> list_all plugin_ok qs \<and> distinct (map p_name qs)
    | Inl _ \<Rightarrow> True)"
proof (intro conjI)
  show v: "validate_plugins ps = None \<longleftrightarrow> list_all plugin_ok ps \<and> distinct (map p_name ps)" for ps
    by (simp add: validate_plugins_def validate_from_None)
  show "case validate_plugins ps of
      Some (Name_required k) \<Rightarrow> k < length ps \<and> p_name (ps ! k) = []
    | _ \<Rightarrow> True"
    using validate_from_Name_required [of 0 "[]" ps]
    by (auto simp: validate_plugins_def split: option.splits plugin_error.splits)
  have "list_all plugin_ok qs \<and> distinct (map p_name qs)" if "parse_plugins data = Inr qs" for qs
    using that v [of qs] by (auto simp: parse_plugins_def split: scan.splits prod.splits if_splits option.splits)
  then show "case parse_plugins data of
      Inr qs \<Rightarrow> list_all plugin_ok qs \<and> distinct (map p_name qs) | Inl _ \<Rightarrow> True"
    by (simp split: sum.split)
qed

end
