(* ===== verification/Plugin_FS.thy ===== *)
theory Plugin_FS
  imports Pathguard
begin

text \<open>
  The script capability \<^verbatim>\<open>fs\<close> of \<^verbatim>\<open>internal/plugin/fs.go\<close>.  The host's file system is a
  parameter: how a path resolves through symbolic links, and what each system call answers.
  The calls of one operation see the same file system (no other process changes it between
  them); the size that \<^verbatim>\<open>os.Stat\<close> reports and the bytes of a read are separate answers, as a device
  or a growing file gives more than its size.
\<close>

record host_fs =
  make_dirs :: "string \<Rightarrow> bool"
  eval_symlinks :: "string \<Rightarrow> string option"
  file_size :: "string \<Rightarrow> int option"
  file_bytes :: "string \<Rightarrow> bytes option"
  write_ok :: "string \<Rightarrow> bool"

datatype fs_error = Path_escape | File_too_large | Os_error string

definition max_sandbox_file_bytes :: int where "max_sandbox_file_bytes = 8388608"

definition new_sandboxed_fs :: "string \<Rightarrow> string" where
  "new_sandboxed_fs base = clean base"

text \<open>\<^verbatim>\<open>Home\<close>: the absolute base, given the working directory if it is known.\<close>

definition fs_home :: "string option \<Rightarrow> string \<Rightarrow> string" where
  "fs_home cwd base =
     (if is_abs base then clean base
      else case cwd of None \<Rightarrow> base | Some d \<Rightarrow> path_join [d, base])"

definition fs_resolve :: "string \<Rightarrow> string \<Rightarrow> fs_error + string" where
  "fs_resolve base name =
     (case resolve base name of Inl err \<Rightarrow> Inl Path_escape | Inr full \<Rightarrow> Inr full)"

definition real_base :: "host_fs \<Rightarrow> string \<Rightarrow> fs_error + string" where
  "real_base os base =
     (if \<not> make_dirs os base then Inl (Os_error ''mkdir'')
      else case eval_symlinks os base of
        None \<Rightarrow> Inl (Os_error ''evalsymlinks'')
      | Some real \<Rightarrow> Inr real)"

definition fs_read :: "host_fs \<Rightarrow> string \<Rightarrow> string \<Rightarrow> fs_error + bytes" where
  "fs_read os base name =
     (case fs_resolve base name of
        Inl err \<Rightarrow> Inl err
      | Inr full \<Rightarrow>
          (case real_base os base of
             Inl err \<Rightarrow> Inl err
           | Inr rbase \<Rightarrow>
               (case eval_symlinks os full of
                  None \<Rightarrow> Inl (Os_error ''evalsymlinks'')
                | Some real \<Rightarrow>
                    if \<not> within real rbase then Inl Path_escape
                    else (case file_size os real of
                        None \<Rightarrow> Inl (Os_error ''stat'')
                      | Some sz \<Rightarrow>
                          if sz > max_sandbox_file_bytes then Inl File_too_large
                          else (case file_bytes os real of
                              None \<Rightarrow> Inl (Os_error ''read'')
                            | Some b \<Rightarrow> Inr b)))))"

text \<open>The path handed to the system call that writes, if one is made, and the error.\<close>

definition fs_write :: "host_fs \<Rightarrow> string \<Rightarrow> string \<Rightarrow> bytes \<Rightarrow> string option \<times> fs_error option" where
  "fs_write os base name data =
     (if int (length data) > max_sandbox_file_bytes then (None, Some File_too_large)
      else case fs_resolve base name of
        Inl err \<Rightarrow> (None, Some err)
      | Inr full \<Rightarrow>
          (case real_base os base of
             Inl err \<Rightarrow> (None, Some err)
           | Inr rbase \<Rightarrow>
               let dir = dir_of full in
               if \<not> make_dirs os dir then (None, Some (Os_error ''mkdir''))
               else (case eval_symlinks os dir of
                   None \<Rightarrow> (None, Some (Os_error ''evalsymlinks''))
                 | Some real_dir \<Rightarrow>
                     if \<not> within real_dir rbase then (None, Some Path_escape)
                     else if \<not> write_ok os full then (Some full, Some (Os_error ''write''))
                     else (Some full, None))))"

interpretation sandbox: path_resolver fs_resolve solid_base beneath
proof unfold_locales
  fix base name p
  assume "solid_base base" "fs_resolve base name = Inr p"
  then show "beneath p base"
    using guard.res_inside [of base name p] by (auto simp: fs_resolve_def split: sum.splits)
next
  fix base name
  assume "is_abs name"
  then show "\<exists>e. fs_resolve base name = Inl e"
    using guard.res_absolute [of name base] by (auto simp: fs_resolve_def)
next
  fix base name
  assume "solid_base base" "\<not> is_abs name" "''..'' \<notin> set (split_on slash name)"
  from guard.res_plain [OF this] show "fs_resolve base name = Inr (path_join [base, name])"
    by (simp add: fs_resolve_def del: path_join.simps)
qed

section \<open>What an operation did\<close>

lemma fs_read_Inr:
  "fs_read os base name = Inr b \<longleftrightarrow>
     (\<exists>full rbase real sz. fs_resolve base name = Inr full \<and> real_base os base = Inr rbase \<and>
        eval_symlinks os full = Some real \<and> within real rbase \<and>
        file_size os real = Some sz \<and> sz \<le> max_sandbox_file_bytes \<and> file_bytes os real = Some b)"
  by (auto simp: fs_read_def split: sum.splits option.splits)

lemma fs_write_Some:
  "fs_write os base name data = (Some full, err) \<longleftrightarrow>
     int (length data) \<le> max_sandbox_file_bytes \<and> fs_resolve base name = Inr full \<and>
     (\<exists>rbase rdir. real_base os base = Inr rbase \<and> make_dirs os (dir_of full) \<and>
        eval_symlinks os (dir_of full) = Some rdir \<and> within rdir rbase) \<and>
     err = (if write_ok os full then None else Some (Os_error ''write''))"
  by (auto simp: fs_write_def Let_def split: sum.splits option.splits)

lemma fs_write_None: "fs_write os base name data = (None, err) \<Longrightarrow> err \<noteq> None"
  by (auto simp: fs_write_def Let_def split: sum.splits option.splits if_splits)

section \<open>Properties\<close>

text \<open>
  C24: the sandbox confines what a script names.  Under a base that ends in a real name a read
  returns the bytes of a file whose real path, after symbolic links, is the real base or below
  it, and whose reported size is at most 8 MiB; a write goes to the path the name spells beneath the base, in a directory
  whose real path is inside the real base, with at most 8 MiB; an absolute name does neither.
\<close>

theorem fs_confined:
  assumes "solid_base base"
  shows "(case fs_read os base name of
      Inr b \<Rightarrow> (\<exists>full real rbase. beneath full base \<and> full = path_join [base, name] \<and>
        eval_symlinks os full = Some real \<and> eval_symlinks os base = Some rbase \<and> within real rbase \<and>
        (\<exists>sz \<le> 8 * 1024 * 1024. file_size os real = Some sz) \<and> file_bytes os real = Some b)
    | Inl _ \<Rightarrow> True) \<and>
    (case fs_write os base name data of
      (Some full, err) \<Rightarrow> beneath full base \<and> full = path_join [base, name] \<and>
        length data \<le> 8 * 1024 * 1024 \<and>
        (\<exists>rdir rbase. eval_symlinks os (dir_of full) = Some rdir \<and> eval_symlinks os base = Some rbase \<and>
          within rdir rbase)
    | (None, err) \<Rightarrow> err \<noteq> None) \<and>
    (is_abs name \<longrightarrow> fs_read os base name = Inl Path_escape \<and> fst (fs_write os base name data) = None)"
proof (intro conjI impI)
  have r: "full = path_join [base, name] \<and> beneath full base" if "fs_resolve base name = Inr full" for full
    using that resolve_solid [OF assms, of name]
    by (auto simp: fs_resolve_def simp del: path_join.simps split: sum.splits if_splits)
  have b: "eval_symlinks os base = Some rbase" if "real_base os base = Inr rbase" for rbase
    using that by (auto simp: real_base_def split: if_splits option.splits)
  have size: "max_sandbox_file_bytes = 8 * 1024 * 1024"
    by (simp add: max_sandbox_file_bytes_def)
  show "case fs_read os base name of
      Inr b \<Rightarrow> (\<exists>full real rbase. beneath full base \<and> full = path_join [base, name] \<and>
        eval_symlinks os full = Some real \<and> eval_symlinks os base = Some rbase \<and> within real rbase \<and>
        (\<exists>sz \<le> 8 * 1024 * 1024. file_size os real = Some sz) \<and> file_bytes os real = Some b)
    | Inl _ \<Rightarrow> True"
  proof (cases "fs_read os base name")
    case (Inr d)
    then obtain full rbase real sz where o: "fs_resolve base name = Inr full" "real_base os base = Inr rbase"
      "eval_symlinks os full = Some real" "within real rbase" "file_size os real = Some sz"
      "sz \<le> 8 * 1024 * 1024" "file_bytes os real = Some d"
      unfolding fs_read_Inr size by blast
    show ?thesis
      unfolding Inr sum.case using r [OF o(1)] b [OF o(2)] o(3-7) by blast
  qed simp
  show "case fs_write os base name data of
      (Some full, err) \<Rightarrow> beneath full base \<and> full = path_join [base, name] \<and>
        length data \<le> 8 * 1024 * 1024 \<and>
        (\<exists>rdir rbase. eval_symlinks os (dir_of full) = Some rdir \<and> eval_symlinks os base = Some rbase \<and>
          within rdir rbase)
    | (None, err) \<Rightarrow> err \<noteq> None"
  proof (cases "fs_write os base name data")
    case (Pair w err)
    show ?thesis
    proof (cases w)
      case None
      then show ?thesis using Pair fs_write_None by auto
    next
      case (Some full)
      then have f: "fs_resolve base name = Inr full" "int (length data) \<le> max_sandbox_file_bytes"
        and "\<exists>rbase rdir. real_base os base = Inr rbase \<and>
          eval_symlinks os (dir_of full) = Some rdir \<and> within rdir rbase"
        using Pair fs_write_Some by blast+
      then show ?thesis
        using Pair Some r [OF f(1)] b by (auto simp: size simp del: path_join.simps)
    qed
  qed
  assume "is_abs name"
  then have "fs_resolve base name = Inl Path_escape" by (simp add: fs_resolve_def resolve_def)
  then show "fs_read os base name = Inl Path_escape" "fst (fs_write os base name data) = None"
    by (simp_all add: fs_read_def fs_write_def)
qed

theorem fs_confined_witness:
  "fs_read \<lparr>make_dirs = \<lambda>_. True, eval_symlinks = Some, file_size = \<lambda>_. Some 0,
     file_bytes = \<lambda>_. Some [], write_ok = \<lambda>_. True\<rparr> ''p/a'' ''/x'' = Inl Path_escape"
proof -
  have "solid_base ''p/a''" "is_abs ''/x''" by code_simp+
  with fs_confined [OF this(1)] show ?thesis by blast
qed

text \<open>
  The check after symbolic links does not cover the last element of a write.  On a file
  system where the name is a link inside the sandbox to a file outside, a read of it is refused
  as an escape, but the write is made, through the link.
\<close>

lemma fs_write_follows_link:
  "\<exists>os. eval_symlinks os ''plugins/a/out'' = Some ''/etc/target'' \<and>
     \<not> within ''/etc/target'' ''/srv/plugins/a'' \<and> eval_symlinks os ''plugins/a'' = Some ''/srv/plugins/a'' \<and>
     fs_read os ''plugins/a'' ''out'' = Inl Path_escape \<and>
     fs_write os ''plugins/a'' ''out'' data =
       (if length data \<le> 8388608 then (Some ''plugins/a/out'', None) else (None, Some File_too_large))"
proof -
  define os where "os = \<lparr>make_dirs = \<lambda>_. True,
    eval_symlinks = (\<lambda>p. if p = ''plugins/a/out'' then Some ''/etc/target''
      else if p = ''plugins/a'' then Some ''/srv/plugins/a'' else None),
    file_size = \<lambda>_. Some 0, file_bytes = \<lambda>_. Some [], write_ok = \<lambda>_. True\<rparr>"
  have "fs_resolve ''plugins/a'' ''out'' = Inr ''plugins/a/out''" "dir_of ''plugins/a/out'' = ''plugins/a''"
    "\<not> within ''/etc/target'' ''/srv/plugins/a''" "within ''/srv/plugins/a'' ''/srv/plugins/a''"
    by code_simp+
  then show ?thesis
    by (intro exI [of _ os])
      (simp add: os_def fs_read_def fs_write_def real_base_def max_sandbox_file_bytes_def)
qed

end
