(* ===== verification/Plugin_Host.thy ===== *)
theory Plugin_Host
  imports Plugin_Store Plugin_Publish Plugin_Exec Plugin_Loader Plugin_FS Registry
begin

text \<open>
  The script-plugin host, \<^verbatim>\<open>internal/plugin/host.go\<close>: loading declarations into script
  consumers, the capabilities each one gets, and one invocation of a script.

  The JavaScript engine is a parameter.  A compiled program with its event is a strategy: given
  the replies to its host calls so far, it makes another call, returns, throws,
  panics or loops on its own.  The
  time bound is the length of the list of call environments (what the process, the file system,
  the database and the broker answer to each call): when it is used up the watchdog interrupts
  the script.
\<close>

section \<open>Loading\<close>

record capabilities =
  cap_exec :: exec_capability
  cap_namespace :: string
  cap_base :: string

record plugin_host =
  h_allow :: allowlist
  h_root :: string
  h_timeout :: int

definition default_invocation_timeout :: int where "default_invocation_timeout = 5 * second"

definition new_host :: "allowlist \<Rightarrow> string \<Rightarrow> plugin_host" where
  "new_host al root = \<lparr>h_allow = al, h_root = clean root, h_timeout = default_invocation_timeout\<rparr>"

record 'prog script_consumer =
  sc_name :: string
  sc_events :: "string list"
  sc_caps :: capabilities
  sc_prog :: "'prog option"
  sc_timeout :: int

datatype script_load_error =
    Absolute_script string | Script_escapes string | Script_unreadable string | Compile_failed string

definition caps_for :: "plugin_host \<Rightarrow> plugin_config \<Rightarrow> capabilities" where
  "caps_for h p =
     \<lparr>cap_exec = new_exec_capability (h_allow h),
      cap_namespace = p_name p,
      cap_base = new_sandboxed_fs (path_join [h_root h, p_name p])\<rparr>"

definition script_source :: "(string \<Rightarrow> bytes option) \<Rightarrow> plugin_host \<Rightarrow> plugin_config \<Rightarrow> script_load_error + bytes" where
  "script_source read_file h p =
     (if p_script p \<noteq> [] then Inr (p_script p)
      else if is_abs (p_path p) then Inl (Absolute_script (p_name p))
      else
        let full = path_join [h_root h, p_path p] in
        if \<not> within full (h_root h) then Inl (Script_escapes (p_name p))
        else case read_file full of
          None \<Rightarrow> Inl (Script_unreadable (p_name p))
        | Some b \<Rightarrow> Inr b)"

definition host_load ::
  "(string \<Rightarrow> bytes option) \<Rightarrow> (string \<Rightarrow> bytes \<Rightarrow> 'prog option) \<Rightarrow> plugin_host \<Rightarrow> plugin_config \<Rightarrow>
   script_load_error + 'prog script_consumer" where
  "host_load read_file compile h p =
     (case script_source read_file h p of
        Inl err \<Rightarrow> Inl err
      | Inr src \<Rightarrow>
          (case compile (p_name p) src of
             None \<Rightarrow> Inl (Compile_failed (p_name p))
           | Some prog \<Rightarrow> Inr \<lparr>sc_name = p_name p, sc_events = p_events p, sc_caps = caps_for h p,
               sc_prog = Some prog, sc_timeout = h_timeout h\<rparr>))"

fun host_load_all ::
  "(string \<Rightarrow> bytes option) \<Rightarrow> (string \<Rightarrow> bytes \<Rightarrow> 'prog option) \<Rightarrow> plugin_host \<Rightarrow> plugin_config list \<Rightarrow>
   script_load_error + 'prog script_consumer list" where
  "host_load_all read_file compile h [] = Inr []"
| "host_load_all read_file compile h (p # ps) =
     (case host_load read_file compile h p of
        Inl err \<Rightarrow> Inl err
      | Inr sc \<Rightarrow> map_sum id (Cons sc) (host_load_all read_file compile h ps))"

section \<open>The host object\<close>

text \<open>The argument of \<^verbatim>\<open>publish\<close>: nothing, a value that does not marshal, or its JSON.\<close>

datatype publish_arg = No_payload | Unmarshallable | Payload_json bytes

datatype host_call =
    Call_exec string "string list"
  | Call_get string
  | Call_set string bytes
  | Call_read string
  | Call_write string bytes
  | Call_home
  | Call_publish string string publish_arg
  | Get_plugin_name
  | Get_allowlist

datatype host_reply =
    Reply_none | Reply_null | Reply_text bytes | Reply_exec exec_result | Reply_names "string list" | Throws

record call_env =
  env_process :: "string list \<Rightarrow> process_end"
  env_os :: host_fs
  env_cwd :: "string option"
  env_load :: db_reply
  env_save :: db_reply
  env_now :: int
  env_pub :: pub_reply

text \<open>
  What a script can act on: the state table, the stream, the processes started, the files read and
  written, each with the file system at the time of the call.  A read is recorded with the name
  the script gave and the bytes it got, a write with the path handed to the system call.
\<close>

record world =
  w_table :: table
  w_stream :: "message list"
  w_launched :: "string list list"
  w_read :: "(host_fs \<times> string \<times> bytes) list"
  w_written :: "(host_fs \<times> string \<times> bytes) list"

definition script_publish :: "pub_reply \<Rightarrow> string \<Rightarrow> string \<Rightarrow> publish_arg \<Rightarrow> world \<Rightarrow> host_reply \<times> world" where
  "script_publish reply typ workflow arg w =
     (case arg of
        Unmarshallable \<Rightarrow> (Throws, w)
      | _ \<Rightarrow>
          let pb = (case arg of Payload_json b \<Rightarrow> b | _ \<Rightarrow> []) in
          case capability_publish (bus_publish reply)
              \<lparr>ev_type = typ, ev_workflow = workflow, ev_payload = pb\<rparr> (w_stream w) of
            (err, ms) \<Rightarrow> (if err = None then Reply_none else Throws, w\<lparr>w_stream := ms\<rparr>))"

definition host_step :: "string \<Rightarrow> capabilities \<Rightarrow> call_env \<Rightarrow> host_call \<Rightarrow> world \<Rightarrow> host_reply \<times> world" where
  "host_step name caps env c w =
     (case c of
        Call_exec cmd args \<Rightarrow>
          (case exec_run (cap_exec caps) (env_process env) cmd args of
             (started, r) \<Rightarrow>
               (case r of Inl _ \<Rightarrow> Throws | Inr res \<Rightarrow> Reply_exec res,
                w\<lparr>w_launched := w_launched w @ (case started of None \<Rightarrow> [] | Some argv \<Rightarrow> [argv])\<rparr>))
      | Call_get key \<Rightarrow>
          (case ns_load (sqlite_load (env_load env)) (cap_namespace caps) key (w_table w) of
             Inl _ \<Rightarrow> (Throws, w)
           | Inr None \<Rightarrow> (Reply_null, w)
           | Inr (Some b) \<Rightarrow> (Reply_text b, w))
      | Call_set key v \<Rightarrow>
          (case ns_save (sqlite_save (env_save env) (env_now env)) (cap_namespace caps) key (Some v) (w_table w) of
             (err, t) \<Rightarrow> (if err = None then Reply_none else Throws, w\<lparr>w_table := t\<rparr>))
      | Call_read path \<Rightarrow>
          (case fs_read (env_os env) (cap_base caps) path of
             Inl _ \<Rightarrow> (Throws, w)
           | Inr b \<Rightarrow> (Reply_text b, w\<lparr>w_read := w_read w @ [(env_os env, path, b)]\<rparr>))
      | Call_write path d \<Rightarrow>
          (case fs_write (env_os env) (cap_base caps) path d of
             (written, err) \<Rightarrow>
               (if err = None then Reply_none else Throws,
                w\<lparr>w_written := w_written w @ (case written of None \<Rightarrow> [] | Some full \<Rightarrow> [(env_os env, full, d)])\<rparr>))
      | Call_home \<Rightarrow> (Reply_text (fs_home (env_cwd env) (cap_base caps)), w)
      | Call_publish typ workflow arg \<Rightarrow> script_publish (env_pub env) typ workflow arg w
      | Get_plugin_name \<Rightarrow> (Reply_text name, w)
      | Get_allowlist \<Rightarrow> (Reply_names (allowed_commands (cap_exec caps)), w))"

section \<open>One invocation\<close>

text \<open>
  The event as the script sees it: the payload is parsed as JSON, or is the raw string when
  that fails.  It fails also when a number rounds beyond the range of a 64-bit float, as
  \<^verbatim>\<open>strconv.ParseFloat\<close> reports: from half a unit above the largest float on, the exponent being
  read up to its first five digits.
\<close>

datatype script_payload = Json_value json | Raw_text bytes

definition read_digits :: "string \<Rightarrow> int" where
  "read_digits ds = foldl (\<lambda>a c. 10 * a + (of_char c - 48)) 0 ds"

definition read_exponent :: "string \<Rightarrow> int" where
  "read_exponent ds = foldl (\<lambda>a c. if a < 10000 then 10 * a + (of_char c - 48) else a) 0 ds"

definition float_overflow :: int where "float_overflow = 2 ^ 1024 - 2 ^ 970"

definition float_in_range :: "string \<Rightarrow> bool" where
  "float_in_range s =
     (let u = (if has_prefix s ''-'' then tl s else s);
          mantissa = takeWhile (\<lambda>c. c \<noteq> CHR ''e'' \<and> c \<noteq> CHR ''E'') u;
          x = drop (Suc (length mantissa)) u;
          whole = takeWhile (\<lambda>c. c \<noteq> CHR ''.'') mantissa;
          fraction = drop (Suc (length whole)) mantissa;
          n = read_digits (whole @ fraction);
          e = (if has_prefix x ''-'' then - read_exponent (tl x)
               else if has_prefix x ''+'' then read_exponent (tl x)
               else read_exponent x) - int (length fraction)
      in if e \<ge> 0 then n * 10 ^ nat e < float_overflow else n < float_overflow * 10 ^ nat (- e))"

fun numbers_in_range :: "json \<Rightarrow> bool" where
  "numbers_in_range (JNum s) = float_in_range s"
| "numbers_in_range (JArr vs) = list_all numbers_in_range vs"
| "numbers_in_range (JObj ms) = list_all (\<lambda>m. numbers_in_range (snd (snd m))) ms"
| "numbers_in_range _ = True"

definition event_payload :: "bytes \<Rightarrow> script_payload" where
  "event_payload p =
     (if length p > 0 then
        (case parse_json p of
           Some v \<Rightarrow> (if numbers_in_range v then Json_value v else Raw_text p)
         | None \<Rightarrow> Raw_text p)
      else Json_value JNull)"

datatype script_act = Act_call host_call | Act_return | Act_throw | Act_panic | Act_loop

datatype script_end = Finished | Threw | Interrupted | Crashed

type_synonym 'prog engine = "'prog \<Rightarrow> string \<times> string \<times> script_payload \<Rightarrow> host_reply list \<Rightarrow> script_act"

fun run_script ::
  "string \<Rightarrow> capabilities \<Rightarrow> (host_reply list \<Rightarrow> script_act) \<Rightarrow> host_reply list \<Rightarrow> call_env list \<Rightarrow> world \<Rightarrow>
   script_end \<times> world" where
  "run_script name caps script replies [] w =
     (case script replies of
        Act_return \<Rightarrow> (Finished, w)
      | Act_throw \<Rightarrow> (Threw, w)
      | Act_panic \<Rightarrow> (Crashed, w)
      | Act_loop \<Rightarrow> (Interrupted, w)
      | Act_call c \<Rightarrow> (Interrupted, w))"
| "run_script name caps script replies (env # envs) w =
     (case script replies of
        Act_return \<Rightarrow> (Finished, w)
      | Act_throw \<Rightarrow> (Threw, w)
      | Act_panic \<Rightarrow> (Crashed, w)
      | Act_loop \<Rightarrow> (Interrupted, w)
      | Act_call c \<Rightarrow>
          (case host_step name caps env c w of
             (r, w') \<Rightarrow> run_script name caps script (replies @ [r]) envs w'))"

datatype script_error = Not_implemented | Script_failed string | Recovered_panic string

definition script_handle ::
  "'prog engine \<Rightarrow> call_env list \<Rightarrow> 'prog script_consumer \<Rightarrow> event \<Rightarrow> world \<Rightarrow> script_error option \<times> world" where
  "script_handle engine envs sc e w =
     (case sc_prog sc of
        None \<Rightarrow> (Some Not_implemented, w)
      | Some prog \<Rightarrow>
          (case run_script (sc_name sc) (sc_caps sc)
              (engine prog (ev_type e, ev_workflow e, event_payload (ev_payload e))) [] envs w of
             (Finished, w') \<Rightarrow> (None, w')
           | (Crashed, w') \<Rightarrow> (Some (Recovered_panic (sc_name sc)), w')
           | (_, w') \<Rightarrow> (Some (Script_failed (sc_name sc)), w')))"

definition script_name :: "'prog script_consumer \<Rightarrow> string" where
  "script_name sc = sc_name sc"

definition script_events :: "'prog script_consumer \<Rightarrow> string list" where
  "script_events sc = sc_events sc"

text \<open>A script consumer behind the port: panics are recovered on its own side.\<close>

definition as_consumer ::
  "'prog engine \<Rightarrow> call_env list \<Rightarrow> 'prog script_consumer \<Rightarrow> (world, script_error) consumer" where
  "as_consumer engine envs sc =
     \<lparr>con_declared = Some (script_name sc),
      con_go_type = ''*plugin.ScriptConsumer'',
      con_handle = (\<lambda>e w. case script_handle engine envs sc e w of (r, w') \<Rightarrow> (Returned r, w'))\<rparr>"

definition as_subscriber ::
  "('prog script_consumer \<Rightarrow> (world, script_error) consumer) \<Rightarrow> 'prog script_consumer \<Rightarrow>
   (world, script_error) subscriber" where
  "as_subscriber wrap sc = consumer.extend (wrap sc) \<lparr>sub_events = script_events sc\<rparr>"

text \<open>\<^verbatim>\<open>registerPlugins\<close> of \<^verbatim>\<open>cmd/byteswarm/plugins.go\<close>: all or nothing.\<close>

definition register_plugins ::
  "('prog script_consumer \<Rightarrow> (world, script_error) consumer) \<Rightarrow>
   (string \<Rightarrow> bytes option) \<Rightarrow> (string \<Rightarrow> bytes \<Rightarrow> 'prog option) \<Rightarrow> plugin_host \<Rightarrow> plugin_config list \<Rightarrow>
   (world, script_error) registry \<Rightarrow> (script_load_error + nat) \<times> (world, script_error) registry" where
  "register_plugins wrap read_file compile h ps reg =
     (case host_load_all read_file compile h ps of
        Inl err \<Rightarrow> (Inl err, reg)
      | Inr scs \<Rightarrow> (Inr (length scs), fold (\<lambda>sc. register_subscriber (as_subscriber wrap sc)) scs reg))"

lemma register_script [simp]:
  "register_subscriber (as_subscriber wrap sc) = register (wrap sc) (sc_events sc)"
  by (cases "wrap sc") (simp add: fun_eq_iff register_subscriber_def as_subscriber_def script_events_def consumer.defs)

section \<open>Confinement\<close>

text \<open>
  What may differ between the world before and after: for the plugin's capabilities, only keys
  of its namespace, valid messages appended to the stream, allowlisted commands appended to
  those started, and files of its sandbox appended to those read and written.  A file read is in
  the sandbox by its real path, after all symbolic links; of a file written the directory is, and
  the path lies beneath the base as it is written (a link at its last element is followed).
\<close>

definition template_command :: "allowlist \<Rightarrow> string list \<Rightarrow> bool" where
  "template_command al argv \<longleftrightarrow>
     (\<exists>name tmpl args. map_of al name = Some tmpl \<and> tmpl \<noteq> [] \<and> argv = tmpl @ args \<and> length args \<le> 64)"

definition script_message :: "message \<Rightarrow> bool" where
  "script_message m \<longleftrightarrow>
     (\<exists>e. script_event_ok e \<and> wire_decode (msg_data m) = Some e \<and>
        split_on (CHR ''.'') (msg_subject m) = [''bw'', ''evt'', ev_type e, workflow_token e])"

fun read_inside :: "string \<Rightarrow> host_fs \<times> string \<times> bytes \<Rightarrow> bool" where
  "read_inside base (os, name, b) =
     (\<exists>real rbase. beneath (path_join [base, name]) base \<and> eval_symlinks os (path_join [base, name]) = Some real \<and>
        eval_symlinks os base = Some rbase \<and> within real rbase \<and> file_bytes os real = Some b)"

fun written_inside :: "string \<Rightarrow> host_fs \<times> string \<times> bytes \<Rightarrow> bool" where
  "written_inside base (os, full, d) =
     (\<exists>rdir rbase. beneath full base \<and> int (length d) \<le> max_sandbox_file_bytes \<and>
        eval_symlinks os (dir_of full) = Some rdir \<and> eval_symlinks os base = Some rbase \<and> within rdir rbase)"

lemma real_base_Inr: "real_base os base = Inr rbase \<Longrightarrow> eval_symlinks os base = Some rbase"
  by (auto simp: real_base_def split: if_splits option.splits)

lemma fs_resolve_Inr:
  "solid_base base \<Longrightarrow> fs_resolve base name = Inr full \<Longrightarrow> full = path_join [base, name] \<and> beneath full base"
  by (auto simp: fs_resolve_def resolve_solid simp del: path_join.simps split: sum.splits if_splits)

lemma fs_read_inside:
  assumes "solid_base base" and "fs_read os base name = Inr b"
  shows "read_inside base (os, name, b)"
proof -
  obtain full rbase real where o: "fs_resolve base name = Inr full" "real_base os base = Inr rbase"
    "eval_symlinks os full = Some real" "within real rbase" "file_bytes os real = Some b"
    using assms(2) unfolding fs_read_Inr by blast
  have f: "full = path_join [base, name]" "beneath full base"
    using fs_resolve_Inr [OF assms(1) o(1)] by blast+
  have "beneath (path_join [base, name]) base" "eval_symlinks os (path_join [base, name]) = Some real"
    using f o(3) by (simp_all del: path_join.simps)
  then show ?thesis
    unfolding read_inside.simps using real_base_Inr [OF o(2)] o(4,5) by blast
qed

lemma fs_write_inside:
  assumes "solid_base base" and "fs_write os base name d = (Some full, err)"
  shows "written_inside base (os, full, d)"
proof -
  obtain rbase rdir where o: "int (length d) \<le> max_sandbox_file_bytes" "fs_resolve base name = Inr full"
    "real_base os base = Inr rbase" "eval_symlinks os (dir_of full) = Some rdir" "within rdir rbase"
    using assms(2) unfolding fs_write_Some by blast
  then show ?thesis
    unfolding written_inside.simps using fs_resolve_Inr [OF assms(1) o(2)] real_base_Inr [OF o(3)] by blast
qed

definition confined :: "allowlist \<Rightarrow> string \<Rightarrow> string \<Rightarrow> world \<Rightarrow> world \<Rightarrow> bool" where
  "confined al namespace base w w' \<longleftrightarrow>
     (\<forall>n k. CHR '':'' \<notin> set n \<and> n \<noteq> namespace \<longrightarrow>
        states (w_table w') (ns_key n k) = states (w_table w) (ns_key n k)) \<and>
     (\<exists>ms. w_stream w' = w_stream w @ ms \<and> list_all script_message ms) \<and>
     (\<exists>cs. w_launched w' = w_launched w @ cs \<and> list_all (template_command al) cs) \<and>
     (\<exists>rs. w_read w' = w_read w @ rs \<and> list_all (read_inside base) rs) \<and>
     (\<exists>fs. w_written w' = w_written w @ fs \<and> list_all (written_inside base) fs)"

lemma confined_refl: "confined al n b w w"
  by (simp add: confined_def)

lemma confined_trans: "confined al n b u v \<Longrightarrow> confined al n b v w \<Longrightarrow> confined al n b u w"
  unfolding confined_def by (fastforce simp: list_all_append)

lemma bus_script_message:
  assumes "script_event_ok e"
  shows "\<exists>ms'. snd (bus_publish reply e ms) = ms @ ms' \<and> list_all script_message ms'"
proof -
  obtain s where s: "subject_for e = Inr s"
    "split_on (CHR ''.'') s = [''bw'', ''evt'', ev_type e, workflow_token e]"
    using script_subject [OF assms] by blast
  have d: "wire_decode (wire_encode e) = Some e"
    using script_carried [OF assms] by (simp add: wire_decode_encode carried_def)
  have m: "script_message \<lparr>msg_subject = s, msg_data = wire_encode e\<rparr>"
    unfolding script_message_def by (rule exI [of _ e]) (use assms s d in simp)
  show ?thesis
    by (cases reply) (use m s in \<open>simp_all add: bus_publish_def\<close>)
qed

lemma script_publish_confined_step:
  "confined al n b w (snd (script_publish reply typ workflow arg w))"
proof (cases "arg = Unmarshallable")
  case False
  define e where "e = \<lparr>ev_type = typ, ev_workflow = workflow,
    ev_payload = (case arg of Payload_json b \<Rightarrow> b | _ \<Rightarrow> [])\<rparr>"
  have "\<exists>ms'. snd (capability_publish (bus_publish reply) e (w_stream w)) = w_stream w @ ms' \<and>
      list_all script_message ms'"
  proof (cases "script_event_ok e")
    case True
    then show ?thesis
      using bus_script_message [OF True, of reply "w_stream w"]
      by (subst capability_publish_cases) simp
  next
    case False
    from capability_publish_refuses [OF False, of "bus_publish reply" "w_stream w"]
    show ?thesis by auto
  qed
  moreover have "snd (script_publish reply typ workflow arg w) =
      w\<lparr>w_stream := snd (capability_publish (bus_publish reply) e (w_stream w))\<rparr>"
    using False by (auto simp: script_publish_def e_def Let_def split: publish_arg.splits prod.splits)
  ultimately show ?thesis by (auto simp: confined_def)
qed (simp add: script_publish_def confined_refl)

lemma exec_template:
  assumes "exec_run (new_exec_capability al) process cmd args = (Some argv, r)"
  shows "template_command al argv"
proof -
  obtain bin fixed where "map_of al cmd = Some (bin # fixed)" "argv = (bin # fixed) @ args" "length args \<le> 64"
    using exec_run_Some [OF assms] by auto
  then show ?thesis unfolding template_command_def by blast
qed

lemma save_step_confined:
  assumes "CHR '':'' \<notin> set namespace"
  shows "confined al namespace b w (w\<lparr>w_table := snd (ns_save (sqlite_save r now) namespace k v (w_table w))\<rparr>)"
  using sqlite.ns_save_frame [OF assms] by (auto simp: confined_def)

definition caps_of :: "allowlist \<Rightarrow> string \<Rightarrow> string \<Rightarrow> capabilities" where
  "caps_of al namespace base = \<lparr>cap_exec = new_exec_capability al, cap_namespace = namespace, cap_base = base\<rparr>"

lemma host_step_confined:
  assumes "CHR '':'' \<notin> set namespace" and "solid_base base"
  shows "confined al namespace base w (snd (host_step name (caps_of al namespace base) env c w))"
proof (cases c)
  case (Call_exec cmd args)
  obtain started r where e: "exec_run (new_exec_capability al) (env_process env) cmd args = (started, r)"
    by fastforce
  show ?thesis
  proof (cases started)
    case (Some argv)
    with e have "template_command al argv" using exec_template by blast
    with Some e Call_exec show ?thesis by (simp add: host_step_def caps_of_def confined_def)
  next
    case None
    with e Call_exec show ?thesis by (simp add: host_step_def caps_of_def confined_refl)
  qed
next
  case (Call_get key)
  then show ?thesis
    by (simp add: host_step_def caps_of_def confined_refl split: sum.split option.split)
next
  case (Call_set key v)
  then show ?thesis
    using save_step_confined [OF assms(1), of al base w "env_save env" "env_now env" key "Some v"]
    by (simp add: host_step_def caps_of_def case_prod_beta)
next
  case (Call_read path)
  show ?thesis
  proof (cases "fs_read (env_os env) base path")
    case (Inr b)
    with fs_read_inside [OF assms(2) Inr] Call_read show ?thesis
      by (simp add: host_step_def caps_of_def confined_def del: read_inside.simps)
  qed (simp add: Call_read host_step_def caps_of_def confined_refl)
next
  case (Call_write path d)
  obtain full err where e: "fs_write (env_os env) base path d = (full, err)" by fastforce
  show ?thesis
  proof (cases full)
    case (Some p)
    with e have "written_inside base (env_os env, p, d)" using fs_write_inside [OF assms(2)] by blast
    with Some e Call_write show ?thesis
      by (simp add: host_step_def caps_of_def confined_def del: written_inside.simps)
  next
    case None
    with e Call_write show ?thesis by (simp add: host_step_def caps_of_def confined_refl)
  qed
next
  case (Call_publish ty workflow arg)
  then show ?thesis
    by (simp add: host_step_def script_publish_confined_step)
qed (simp_all add: host_step_def caps_of_def confined_refl)

lemma run_script_confined:
  assumes "CHR '':'' \<notin> set namespace" and "solid_base base"
  shows "confined al namespace base w (snd (run_script name (caps_of al namespace base) script replies envs w))"
proof (induction envs arbitrary: replies w)
  case Nil
  show ?case by (simp add: confined_refl split: script_act.split)
next
  case (Cons env envs)
  show ?case
  proof (cases "script replies")
    case (Act_call c)
    obtain r w' where s: "host_step name (caps_of al namespace base) env c w = (r, w')" by fastforce
    then have "confined al namespace base w w'"
      using host_step_confined [OF assms, of al w name env c] by simp
    then have "confined al namespace base w
        (snd (run_script name (caps_of al namespace base) script (replies @ [r]) envs w'))"
      by (rule confined_trans) (rule Cons.IH)
    with Act_call s show ?thesis by simp
  qed (simp_all add: confined_refl)
qed

section \<open>The sandbox of a plugin\<close>

lemma new_host_root: "h_root (new_host al root) = clean root"
  by (simp add: new_host_def)

lemma caps_for_base:
  "cap_base (caps_for (new_host al root) p) = path_join [clean root, p_name p]"
  using path_join_base_clean(1) [OF clean_clean, of root "p_name p"]
  by (simp add: caps_for_def new_host_root new_sandboxed_fs_def del: path_join.simps)

lemma caps_for_caps_of:
  "caps_for (new_host al root) p = caps_of al (p_name p) (path_join [clean root, p_name p])"
  using caps_for_base [of al root p]
  by (simp add: caps_for_def caps_of_def new_host_def del: path_join.simps)

lemma plain_base:
  assumes "plain_elem n"
  shows "elements (path_join [clean root, n]) = elements root @ [n]"
    and "solid_base (path_join [clean root, n])"
proof -
  have n: "slash \<notin> set n" "n \<noteq> []" "n \<noteq> ''.''" "n \<noteq> ''..''"
    using assms by (auto simp: plain_elem_def)
  then have w: "clean_from r st (split_on slash n) = n # st" for r st
    by (simp add: clean_step_def)
  have "path_join [clean root, n] = render (is_abs root) (elements root @ [n])"
    using path_join_base [OF clean_clean, of root n] by (simp add: w del: path_join.simps)
  moreover have "normal (is_abs root) (elements root @ [n])"
    using normal_walk [OF elements_normal [of root], of n] by (simp add: w)
  ultimately show e: "elements (path_join [clean root, n]) = elements root @ [n]"
    by (simp del: path_join.simps)
  show "solid_base (path_join [clean root, n])"
    using path_join_base_clean(1) [OF clean_clean, of root n] n(4) by (simp add: solid_base_def e del: path_join.simps)
qed

lemma host_load_Inr:
  "host_load read_file compile h p = Inr sc \<Longrightarrow>
     sc_name sc = p_name p \<and> sc_events sc = p_events p \<and> sc_caps sc = caps_for h p \<and> sc_prog sc \<noteq> None"
  by (auto simp: host_load_def split: sum.splits option.splits)

lemma host_load_all_Inr:
  "host_load_all read_file compile h ps = Inr scs \<Longrightarrow>
     list_all2 (\<lambda>p sc. host_load read_file compile h p = Inr sc) ps scs"
proof (induction ps arbitrary: scs)
  case (Cons p ps)
  then show ?case
    by (cases "host_load read_file compile h p"; cases "host_load_all read_file compile h ps") auto
qed simp

lemma host_load_all_Inl:
  "host_load_all read_file compile h ps = Inl err \<Longrightarrow>
     \<exists>p \<in> set ps. host_load read_file compile h p = Inl err"
proof (induction ps)
  case (Cons p ps)
  then show ?case
    by (cases "host_load read_file compile h p"; cases "host_load_all read_file compile h ps") auto
qed simp

text \<open>
  A declaration named \<^verbatim>\<open>..\<close> passes validation, and its sandbox is the directory that
  holds the plugins root.
\<close>

lemma dotdot_plugin_sandbox:
  assumes "solid_base root"
  shows "validate_plugins [\<lparr>p_name = ''..'', p_events = [t], p_path = [], p_script = ''x''\<rparr>] = None"
    and "elements (cap_base (caps_for (new_host al root)
        \<lparr>p_name = ''..'', p_events = [t], p_path = [], p_script = ''x''\<rparr>)) = butlast (elements root)"
proof -
  show "validate_plugins [\<lparr>p_name = ''..'', p_events = [t], p_path = [], p_script = ''x''\<rparr>] = None"
    by (simp add: validate_plugins_def)
  obtain es l where e: "elements root = es @ [l]" "l \<noteq> ''..''"
    using assms unfolding solid_base_def by (metis append_butlast_last_id)
  have w: "clean_from r (rev (elements root)) (split_on slash ''..'') = rev es" for r
    using e by (simp add: clean_step_def)
  have "path_join [clean root, ''..''] = render (is_abs root) es"
    using path_join_base [OF clean_clean, of root "''..''"] w by (simp del: path_join.simps)
  moreover have "normal (is_abs root) es"
    using normal_walk [OF elements_normal [of root], of "''..''"] w by simp
  ultimately show "elements (cap_base (caps_for (new_host al root)
        \<lparr>p_name = ''..'', p_events = [t], p_path = [], p_script = ''x''\<rparr>)) = butlast (elements root)"
    using e by (simp add: caps_for_base del: path_join.simps)
qed

section \<open>Properties\<close>

text \<open>
  C8: a script has no authority but its capabilities.  Whatever program runs for a loaded
  plugin with a plain, colon-free name, and however its invocation ends, afterwards the state
  of every other colon-free namespace is unchanged, the stream has only gained messages of
  valid events under their own four-token subjects, and every process started was an allowlisted
  template with arguments appended.  Every file read lies, after all symbolic links, inside the
  real directory of \<^verbatim>\<open>root/name\<close>; every file written has a path beneath \<^verbatim>\<open>root/name\<close> in a directory
  that lies there after all symbolic links, and at most 8 MiB.  (A link that is the last element of
  a written path is followed: \<^verbatim>\<open>fs_write_follows_link\<close> in \<^verbatim>\<open>Plugin_FS\<close>.)
\<close>

theorem script_confined:
  assumes "host_load read_file compile (new_host al root) p = Inr sc"
    and "plain_elem (p_name p)" and "CHR '':'' \<notin> set (p_name p)"
  shows "confined al (p_name p) (path_join [clean root, p_name p]) w (snd (script_handle engine envs sc e w))"
proof -
  have c: "sc_caps sc = caps_of al (p_name p) (path_join [clean root, p_name p])"
    using host_load_Inr [OF assms(1)] caps_for_caps_of by metis
  obtain prog where prog: "sc_prog sc = Some prog"
    using host_load_Inr [OF assms(1)] by blast
  obtain r w' where r: "run_script (sc_name sc) (sc_caps sc)
      (engine prog (ev_type e, ev_workflow e, event_payload (ev_payload e))) [] envs w = (r, w')"
    by fastforce
  then have "confined al (p_name p) (path_join [clean root, p_name p]) w w'"
    using run_script_confined [OF assms(3) plain_base(2) [OF assms(2), of root]] unfolding c
    by (metis snd_conv)
  moreover have "snd (script_handle engine envs sc e w) = w'"
    using prog r by (cases r) (simp_all add: script_handle_def)
  ultimately show ?thesis by simp
qed

definition demo_plugin :: plugin_config where
  "demo_plugin = \<lparr>p_name = ''a'', p_events = [''t''], p_path = [], p_script = ''x''\<rparr>"

definition demo_os :: host_fs where
  "demo_os = \<lparr>make_dirs = \<lambda>_. True, eval_symlinks = (\<lambda>p. Some (''/srv/'' @ p)), file_size = \<lambda>_. Some 2,
     file_bytes = \<lambda>_. Some ''hi'', write_ok = \<lambda>_. True\<rparr>"

definition demo_script :: "unit engine" where
  "demo_script _ _ replies =
     (if length replies = 0 then Act_call (Call_read ''f'') else if length replies = 1 then Act_call (Call_write ''../g'' [])
      else Act_call (Call_write ''g'' ''x''))"

theorem script_confined_witness:
  "\<exists>w'. confined [] ''a'' ''plugins/a'' \<lparr>w_table = Map.empty, w_stream = [], w_launched = [], w_read = [], w_written = []\<rparr> w' \<and>
     w_read w' = [(demo_os, ''f'', ''hi'')] \<and> w_written w' = [(demo_os, ''plugins/a/g'', ''x'')]"
proof -
  let ?sc = "\<lparr>sc_name = ''a'', sc_events = [''t''], sc_caps = caps_for (new_host [] ''plugins'') demo_plugin,
        sc_prog = Some (), sc_timeout = default_invocation_timeout\<rparr>"
  let ?w = "\<lparr>w_table = Map.empty, w_stream = [], w_launched = [], w_read = [], w_written = []\<rparr>"
  let ?env = "\<lparr>env_process = \<lambda>_. Exited [] [] 0, env_os = demo_os, env_cwd = None, env_load = Done_ok, env_save = Done_ok,
        env_now = 0, env_pub = Pub_acked\<rparr>"
  let ?e = "\<lparr>ev_type = ''t'', ev_workflow = [], ev_payload = []\<rparr>"
  let ?w' = "snd (script_handle demo_script [?env, ?env, ?env] ?sc ?e ?w)"
  have l: "host_load (\<lambda>_. None) (\<lambda>_ _. Some ()) (new_host [] ''plugins'') demo_plugin = Inr ?sc"
    by (simp add: host_load_def script_source_def demo_plugin_def new_host_def)
  have n: "plain_elem (p_name demo_plugin)" "CHR '':'' \<notin> set (p_name demo_plugin)"
    "path_join [clean ''plugins'', ''a''] = ''plugins/a''" "p_name demo_plugin = ''a''"
    by code_simp+
  from script_confined [OF l n(1,2)]
  have "confined [] ''a'' ''plugins/a'' ?w ?w'" unfolding n(4) n(3) .
  moreover have b: "cap_base (sc_caps ?sc) = ''plugins/a''" by code_simp
  moreover have r: "fs_read demo_os ''plugins/a'' ''f'' = Inr ''hi''" "fs_write demo_os ''plugins/a'' ''../g'' [] = (None, Some Path_escape)"
    "fs_write demo_os ''plugins/a'' ''g'' ''x'' = (Some ''plugins/a/g'', None)" by code_simp+
  have "w_read ?w' = [(demo_os, ''f'', ''hi'')] \<and> w_written ?w' = [(demo_os, ''plugins/a/g'', ''x'')]"
    using b r by (simp add: script_handle_def demo_script_def host_step_def)
  ultimately show ?thesis by blast
qed

text \<open>
  C37: the sandboxes of plugins with plain names are separate directories directly below the
  plugins root, and no path lies beneath two of them.
\<close>

theorem sandboxes_disjoint:
  assumes "plain_elem (p_name p)" and "plain_elem (p_name q)" and "p_name p \<noteq> p_name q"
  shows "elements (cap_base (caps_for (new_host al root) p)) = elements root @ [p_name p] \<and>
    solid_base (cap_base (caps_for (new_host al root) p)) \<and>
    \<not> (beneath path (cap_base (caps_for (new_host al root) p)) \<and>
       beneath path (cap_base (caps_for (new_host al root) q)))"
proof -
  have "\<not> (prefix (elements root @ [p_name p]) es \<and> prefix (elements root @ [p_name q]) es)" for es
    using assms(3) by (auto simp: prefix_def)
  then show ?thesis
    using plain_base [OF assms(1), of root] plain_base [OF assms(2), of root]
    by (auto simp: caps_for_base beneath_def simp del: path_join.simps)
qed

theorem sandboxes_disjoint_witness:
  "\<not> (beneath ''plugins/a/x'' (cap_base (caps_for (new_host [] ''plugins'') demo_plugin)) \<and>
      beneath ''plugins/a/x'' (cap_base (caps_for (new_host [] ''plugins'') (demo_plugin\<lparr>p_name := ''b''\<rparr>))))"
proof -
  have "plain_elem (p_name demo_plugin)" "plain_elem (p_name (demo_plugin\<lparr>p_name := ''b''\<rparr>))"
    "p_name demo_plugin \<noteq> p_name (demo_plugin\<lparr>p_name := ''b''\<rparr>)" by code_simp+
  from sandboxes_disjoint [OF this] show ?thesis by blast
qed

text \<open>
  Plugins are loaded all or none.  If a declaration cannot be loaded the registry is
  returned as it was; otherwise every declared plugin is registered once, under its own name,
  and an ordinary event type reaches exactly the plugins that declare it, in order.
\<close>

lemma register_plugins_all_or_none:
  "(case register_plugins wrap read_file compile h ps reg of
      (Inl err, reg') \<Rightarrow> reg' = reg \<and> (\<exists>p \<in> set ps. host_load read_file compile h p = Inl err)
    | (Inr n, reg') \<Rightarrow> n = length ps \<and>
        (\<exists>scs. list_all2 (\<lambda>p sc. host_load read_file compile h p = Inr sc) ps scs \<and>
          all_consumers reg' = all_consumers reg @ map wrap scs \<and>
          (\<forall>t. t \<noteq> broadcast_type \<longrightarrow> targets reg' t = targets reg t @
            concat (map (\<lambda>sc. replicate (count_list (sc_events sc) t) (wrap sc)) scs))))"
proof (cases "host_load_all read_file compile h ps")
  case (Inl err)
  with host_load_all_Inl [OF Inl] show ?thesis by (simp add: register_plugins_def)
next
  case (Inr scs)
  have "all_consumers (fold (\<lambda>sc. register (wrap sc) (sc_events sc)) scs r) = all_consumers r @ map wrap scs"
    for r by (induction scs arbitrary: r) (simp_all add: register_def)
  moreover have "targets (fold (\<lambda>sc. register (wrap sc) (sc_events sc)) scs r) t =
      targets r t @ concat (map (\<lambda>sc. replicate (count_list (sc_events sc) t) (wrap sc)) scs)"
    if "t \<noteq> broadcast_type" for r t
    using that by (induction scs arbitrary: r) (simp_all add: targets_register)
  ultimately show ?thesis
    using Inr host_load_all_Inr [OF Inr] list_all2_lengthD by (fastforce simp: register_plugins_def)
qed

end
