(* ===== verification/App_Config.thy ===== *)
theory App_Config
  imports Plugin_Loader
begin

text \<open>
  The server's configuration, \<^verbatim>\<open>cmd/byteswarm/config.go\<close>: the JSON file, the defaults, the
  environment and the validation.  Files and the environment are parameters, and so is
  \<^verbatim>\<open>time.ParseDuration\<close> (in nanoseconds).
\<close>

record store_config =
  st_driver :: string
  st_path :: string

record socket_config =
  so_path :: string
  so_mode :: string
  so_group :: string

record app_config =
  c_http_addr :: string
  c_socket :: socket_config
  c_nats_url :: string
  c_workflow :: string
  c_store :: store_config
  c_plugins_dir :: string
  c_exec_allow :: "(string \<times> string list) list"
  c_plugins :: "plugin_config list"
  c_plugin_timeout :: string
  c_webhook_secret :: string

definition zero_config :: app_config where
  "zero_config =
     \<lparr>c_http_addr = [], c_socket = \<lparr>so_path = [], so_mode = [], so_group = []\<rparr>, c_nats_url = [],
      c_workflow = [], c_store = \<lparr>st_driver = [], st_path = []\<rparr>, c_plugins_dir = [],
      c_exec_allow = [], c_plugins = [], c_plugin_timeout = [], c_webhook_secret = []\<rparr>"

section \<open>The file\<close>

definition store_put :: "string \<Rightarrow> string \<Rightarrow> json \<Rightarrow> store_config \<Rightarrow> store_config \<times> bool" where
  "store_put n raw v c =
     (if n = ''driver'' then set_field (\<lambda>s. st_driver_update (\<lambda>_. s)) (decode_string (st_driver c) v) c
      else set_field (\<lambda>s. st_path_update (\<lambda>_. s)) (decode_string (st_path c) v) c)"

definition socket_put :: "string \<Rightarrow> string \<Rightarrow> json \<Rightarrow> socket_config \<Rightarrow> socket_config \<times> bool" where
  "socket_put n raw v c =
     (if n = ''path'' then set_field (\<lambda>s. so_path_update (\<lambda>_. s)) (decode_string (so_path c) v) c
      else if n = ''mode'' then set_field (\<lambda>s. so_mode_update (\<lambda>_. s)) (decode_string (so_mode c) v) c
      else set_field (\<lambda>s. so_group_update (\<lambda>_. s)) (decode_string (so_group c) v) c)"

definition config_fields :: "string list" where
  "config_fields = [''httpAddr'', ''socket'', ''natsURL'', ''workflowID'', ''store'', ''pluginsDir'',
     ''execAllow'', ''plugins'', ''pluginTimeout'']"

definition app_config_put :: "string \<Rightarrow> string \<Rightarrow> json \<Rightarrow> app_config \<Rightarrow> app_config \<times> bool" where
  "app_config_put n raw v c =
     (if n = ''httpAddr'' then set_field (\<lambda>s. c_http_addr_update (\<lambda>_. s)) (decode_string (c_http_addr c) v) c
      else if n = ''socket'' then
        set_field (\<lambda>s. c_socket_update (\<lambda>_. s))
          (decode_struct True [''path'', ''mode'', ''group''] socket_put (c_socket c) v) c
      else if n = ''natsURL'' then set_field (\<lambda>s. c_nats_url_update (\<lambda>_. s)) (decode_string (c_nats_url c) v) c
      else if n = ''workflowID'' then set_field (\<lambda>s. c_workflow_update (\<lambda>_. s)) (decode_string (c_workflow c) v) c
      else if n = ''store'' then
        set_field (\<lambda>s. c_store_update (\<lambda>_. s)) (decode_struct True [''driver'', ''path''] store_put (c_store c) v) c
      else if n = ''pluginsDir'' then
        set_field (\<lambda>s. c_plugins_dir_update (\<lambda>_. s)) (decode_string (c_plugins_dir c) v) c
      else if n = ''execAllow'' then
        set_field (\<lambda>m. c_exec_allow_update (\<lambda>_. m))
          (decode_map (decode_list decode_string []) [] (c_exec_allow c) v) c
      else if n = ''plugins'' then
        set_field (\<lambda>ps. c_plugins_update (\<lambda>_. ps)) (decode_list (decode_plugin True) zero_plugin (c_plugins c) v) c
      else set_field (\<lambda>s. c_plugin_timeout_update (\<lambda>_. s)) (decode_string (c_plugin_timeout c) v) c)"

definition decode_config :: "bytes \<Rightarrow> app_config option" where
  "decode_config data =
     (case scan_json data of
        Done v rest \<Rightarrow>
          (case decode_struct True config_fields app_config_put zero_config v of
             (c, ok) \<Rightarrow> if ok then Some c else None)
      | _ \<Rightarrow> None)"

section \<open>Defaults and environment\<close>

definition or_default :: "string \<Rightarrow> string \<Rightarrow> string" where
  "or_default d s = (if s = [] then d else s)"

definition default_events_socket :: string where "default_events_socket = ''byteswarm-events.sock''"

definition apply_config_defaults :: "app_config \<Rightarrow> app_config" where
  "apply_config_defaults c =
     c\<lparr>c_http_addr := or_default '':8080'' (c_http_addr c),
       c_socket := (c_socket c)\<lparr>so_path := or_default default_events_socket (so_path (c_socket c)),
         so_mode := or_default ''0660'' (so_mode (c_socket c))\<rparr>,
       c_store := \<lparr>st_driver = or_default ''sqlite'' (st_driver (c_store c)),
         st_path = or_default ''byteswarm.db'' (st_path (c_store c))\<rparr>,
       c_plugins_dir := or_default ''plugins'' (c_plugins_dir c)\<rparr>"

definition override :: "string \<Rightarrow> string \<Rightarrow> string" where
  "override v s = (if v \<noteq> [] then v else s)"

definition apply_config_env :: "(string \<Rightarrow> string) \<Rightarrow> app_config \<Rightarrow> app_config" where
  "apply_config_env getenv c =
     c\<lparr>c_http_addr := override (getenv ''BYTESWARM_HTTP_ADDR'') (c_http_addr c),
       c_socket := \<lparr>so_path = override (getenv ''BYTESWARM_EVENTS_SOCKET'') (so_path (c_socket c)),
         so_mode = override (getenv ''BYTESWARM_EVENTS_SOCKET_MODE'') (so_mode (c_socket c)),
         so_group = override (getenv ''BYTESWARM_EVENTS_SOCKET_GROUP'') (so_group (c_socket c))\<rparr>,
       c_nats_url := override (getenv ''BYTESWARM_NATS_URL'') (c_nats_url c),
       c_workflow := override (getenv ''BYTESWARM_WORKFLOW_ID'') (c_workflow c),
       c_store := (c_store c)\<lparr>st_path := override (getenv ''BYTESWARM_STORE_PATH'') (st_path (c_store c))\<rparr>,
       c_plugins_dir := override (getenv ''BYTESWARM_PLUGINS_DIR'') (c_plugins_dir c),
       c_plugin_timeout := override (getenv ''BYTESWARM_PLUGIN_TIMEOUT'') (c_plugin_timeout c),
       c_webhook_secret := override (getenv ''BYTESWARM_WEBHOOK_SECRET'') (c_webhook_secret c)\<rparr>"

section \<open>Validation\<close>

text \<open>\<^verbatim>\<open>strconv.ParseUint(s, 8, 32)\<close>: octal digits only, and the value in 32 bits.\<close>

fun octal_value :: "nat \<Rightarrow> string \<Rightarrow> nat option" where
  "octal_value acc [] = Some acc"
| "octal_value acc (c # cs) =
     (if CHR ''0'' \<le> c \<and> c \<le> CHR ''7'' then
        (let n = 8 * acc + (of_char c - 48) in if n \<ge> 2 ^ 32 then None else octal_value n cs)
      else None)"

definition parse_mode :: "socket_config \<Rightarrow> nat option" where
  "parse_mode s = (if so_mode s = [] then None else octal_value 0 (so_mode s))"

datatype config_error =
    Cannot_open string | Cannot_parse string | Unsupported_driver string | Empty_socket_path
  | Invalid_mode string | Invalid_plugins plugin_error | Invalid_timeout string

text \<open>\<^verbatim>\<open>pluginTimeout\<close>: unset, set to a positive duration, or an error.\<close>

definition plugin_timeout :: "(string \<Rightarrow> int option) \<Rightarrow> app_config \<Rightarrow> config_error + int option" where
  "plugin_timeout parse_duration c =
     (if c_plugin_timeout c = [] then Inr None
      else case parse_duration (c_plugin_timeout c) of
        None \<Rightarrow> Inl (Invalid_timeout (c_plugin_timeout c))
      | Some d \<Rightarrow>
          if d \<le> 0 then Inl (Invalid_timeout (c_plugin_timeout c)) else Inr (Some d))"

definition validate_config :: "(string \<Rightarrow> int option) \<Rightarrow> app_config \<Rightarrow> config_error option" where
  "validate_config parse_duration c =
     (if st_driver (c_store c) \<noteq> ''sqlite'' then Some (Unsupported_driver (st_driver (c_store c)))
      else if so_path (c_socket c) = [] then Some Empty_socket_path
      else case parse_mode (c_socket c) of
        None \<Rightarrow> Some (Invalid_mode (so_mode (c_socket c)))
      | Some m \<Rightarrow>
          (case validate_plugins (c_plugins c) of
             Some err \<Rightarrow> Some (Invalid_plugins err)
           | None \<Rightarrow>
               (case plugin_timeout parse_duration c of
                  Inl err \<Rightarrow> Some err
                | Inr d \<Rightarrow> None)))"

definition load_config ::
  "(string \<Rightarrow> int option) \<Rightarrow> (string \<Rightarrow> bytes option) \<Rightarrow> (string \<Rightarrow> string) \<Rightarrow> string \<Rightarrow> config_error + app_config" where
  "load_config parse_duration read_file getenv path =
     (let base =
        (if path = [] then Inr zero_config
         else case read_file path of
           None \<Rightarrow> Inl (Cannot_open path)
         | Some data \<Rightarrow>
             (case decode_config data of None \<Rightarrow> Inl (Cannot_parse path) | Some c \<Rightarrow> Inr c))
      in case base of
           Inl err \<Rightarrow> Inl err
         | Inr c \<Rightarrow>
             let cfg = apply_config_env getenv (apply_config_defaults c) in
             (case validate_config parse_duration cfg of
                Some err \<Rightarrow> Inl err
              | None \<Rightarrow> Inr cfg))"

section \<open>Facts\<close>

lemma octal_value_bound: "octal_value acc s = Some n \<Longrightarrow> acc < 2 ^ 32 \<Longrightarrow> n < 2 ^ 32"
  by (induction acc s rule: octal_value.induct) (auto simp: Let_def split: if_splits)

lemma octal_value_digits:
  "octal_value acc s = Some n \<Longrightarrow> list_all (\<lambda>c. CHR ''0'' \<le> c \<and> c \<le> CHR ''7'') s"
  by (induction acc s rule: octal_value.induct) (auto simp: Let_def split: if_splits)

text \<open>A JSON file can never set the webhook secret: no field of the file changes it.\<close>

lemma set_field_fst: "fst (set_field upd p r) = upd (fst p) r"
  by (cases p) simp

lemma app_config_put_secret: "c_webhook_secret (fst (app_config_put n raw v c)) = c_webhook_secret c"
  by (simp add: app_config_put_def set_field_fst)

lemma decode_config_secret: "decode_config data = Some c \<Longrightarrow> c_webhook_secret c = []"
proof -
  have m: "c_webhook_secret (fst (foldl (decode_member True config_fields app_config_put) (c, ok) ms)) = c_webhook_secret c"
    for c ok ms
  proof (induction ms arbitrary: c ok)
    case (Cons m ms)
    obtain key raw v where k: "m = (key, raw, v)" by (cases m)
    show ?case
    proof (cases "find_field config_fields key")
      case (Some n)
      obtain c' ok' where p: "app_config_put n raw v c = (c', ok')" by fastforce
      then have "c_webhook_secret c' = c_webhook_secret c" using app_config_put_secret by (metis fst_conv)
      with Cons.IH k Some p show ?thesis by (simp add: decode_member_def)
    qed (use Cons.IH k in \<open>simp add: decode_member_def\<close>)
  qed simp
  assume "decode_config data = Some c"
  then obtain v where "decode_struct True config_fields app_config_put zero_config v = (c, True)"
    by (auto simp: decode_config_def split: scan.splits prod.splits if_splits)
  then have "c = zero_config \<or>
      (\<exists>ms. c = fst (foldl (decode_member True config_fields app_config_put) (zero_config, True) ms))"
    by (cases v) (simp_all, metis fst_conv)
  moreover have "c_webhook_secret zero_config = []" by (simp add: zero_config_def)
  ultimately show ?thesis using m [of zero_config True] by metis
qed

lemma validate_config_None:
  "validate_config pd c = None \<longleftrightarrow>
     st_driver (c_store c) = ''sqlite'' \<and> so_path (c_socket c) \<noteq> [] \<and> parse_mode (c_socket c) \<noteq> None \<and>
     validate_plugins (c_plugins c) = None \<and>
     (c_plugin_timeout c = [] \<or> (\<exists>d > 0. pd (c_plugin_timeout c) = Some d))"
  by (auto simp: validate_config_def plugin_timeout_def not_le split: option.splits if_splits)

lemma load_config_Inr:
  assumes "load_config parse_duration read_file getenv path = Inr c"
  shows "\<exists>b. c_webhook_secret b = [] \<and> c = apply_config_env getenv (apply_config_defaults b) \<and>
    validate_config parse_duration c = None"
proof -
  define base where "base = (if path = [] then Inr zero_config
     else case read_file path of
       None \<Rightarrow> Inl (Cannot_open path)
     | Some data \<Rightarrow> (case decode_config data of None \<Rightarrow> Inl (Cannot_parse path) | Some c \<Rightarrow> Inr c))"
  obtain b where b: "base = Inr b"
    using assms by (cases base) (simp_all add: load_config_def Let_def flip: base_def)
  have "c_webhook_secret b = []"
    using b decode_config_secret
    by (auto simp: base_def zero_config_def split: if_splits option.splits)
  moreover have "(case validate_config parse_duration (apply_config_env getenv (apply_config_defaults b)) of
      Some err \<Rightarrow> Inl err | None \<Rightarrow> Inr (apply_config_env getenv (apply_config_defaults b))) = Inr c"
    using assms b by (simp add: load_config_def Let_def flip: base_def)
  ultimately show ?thesis
    by (cases "validate_config parse_duration (apply_config_env getenv (apply_config_defaults b))") auto
qed

lemma default_config_loads: "\<exists>c. load_config (\<lambda>_. None) (\<lambda>_. None) (\<lambda>_. []) [] = Inr c"
proof -
  let ?c = "apply_config_env (\<lambda>_. []) (apply_config_defaults zero_config)"
  have "validate_config (\<lambda>_. None) ?c = None"
    by (simp add: validate_config_def plugin_timeout_def apply_config_env_def apply_config_defaults_def default_events_socket_def
        zero_config_def parse_mode_def override_def or_default_def validate_plugins_def Let_def less_eq_char_def)
  then show ?thesis by (simp add: load_config_def)
qed

lemma loaded_socket:
  assumes "load_config parse_duration read_file getenv path = Inr c"
    and "path = [] \<or> getenv ''BYTESWARM_EVENTS_SOCKET'' \<noteq> [] \<or>
      (\<exists>data b. read_file path = Some data \<and> decode_config data = Some b \<and> so_path (c_socket b) = [])"
  shows "so_path (c_socket c) = override (getenv ''BYTESWARM_EVENTS_SOCKET'') default_events_socket"
proof (cases "path = []")
  case True
  then have "c = apply_config_env getenv (apply_config_defaults zero_config)"
    using assms(1) by (simp add: load_config_def Let_def split: option.splits)
  then show ?thesis
    by (simp add: apply_config_env_def apply_config_defaults_def zero_config_def or_default_def)
next
  case path: False
  show ?thesis
  proof (cases "getenv ''BYTESWARM_EVENTS_SOCKET'' = []")
    case True
    then obtain data b where b: "read_file path = Some data" "decode_config data = Some b" "so_path (c_socket b) = []"
      using assms(2) path by auto
    then have "c = apply_config_env getenv (apply_config_defaults b)"
      using assms(1) path by (simp add: load_config_def Let_def split: option.splits)
    with b(3) show ?thesis by (simp add: apply_config_env_def apply_config_defaults_def or_default_def)
  next
    case False
    obtain b where "c = apply_config_env getenv (apply_config_defaults b)"
      using load_config_Inr [OF assms(1)] by blast
    then show ?thesis using False by (simp add: apply_config_env_def override_def)
  qed
qed

lemma empty_file_loads:
  "decode_config ''{}'' = Some zero_config"
  "\<exists>c. load_config (\<lambda>_. None) (\<lambda>_. Some ''{}'') (\<lambda>_. []) ''c.json'' = Inr c"
proof -
  show d: "decode_config ''{}'' = Some zero_config"
    by code_simp
  obtain c where "load_config (\<lambda>_. None) (\<lambda>_. None) (\<lambda>_. []) [] = Inr c" using default_config_loads by blast
  then show "\<exists>c. load_config (\<lambda>_. None) (\<lambda>_. Some ''{}'') (\<lambda>_. []) ''c.json'' = Inr c"
    by (simp add: load_config_def d)
qed

section \<open>Properties\<close>

text \<open>
  C33: a configuration that loads is safe to start with: the store is SQLite, the socket has a
  path and an octal mode of at most 32 bits, the plugin declarations are valid, a script
  timeout that is set is a positive duration, no default is missing, and the webhook secret is
  what the environment says, whatever the file holds.  An environment variable that is set
  wins over the file.
\<close>

theorem load_config_fails_closed:
  assumes "load_config parse_duration read_file getenv path = Inr c"
  shows "st_driver (c_store c) = ''sqlite'' \<and>
    (\<exists>m < 2 ^ 32. parse_mode (c_socket c) = Some m) \<and>
    list_all plugin_ok (c_plugins c) \<and> distinct (map p_name (c_plugins c)) \<and>
    (c_plugin_timeout c = [] \<or> (\<exists>d > 0. parse_duration (c_plugin_timeout c) = Some d)) \<and>
    [] \<notin> {c_http_addr c, so_path (c_socket c), st_path (c_store c), c_plugins_dir c} \<and>
    c_webhook_secret c = getenv ''BYTESWARM_WEBHOOK_SECRET'' \<and>
    (getenv ''BYTESWARM_NATS_URL'' \<noteq> [] \<longrightarrow> c_nats_url c = getenv ''BYTESWARM_NATS_URL'') \<and>
    (getenv ''BYTESWARM_EVENTS_SOCKET_MODE'' \<noteq> [] \<longrightarrow>
       so_mode (c_socket c) = getenv ''BYTESWARM_EVENTS_SOCKET_MODE'')"
proof -
  obtain b where b: "c_webhook_secret b = []"
    and c: "c = apply_config_env getenv (apply_config_defaults b)" "validate_config parse_duration c = None"
    using load_config_Inr [OF assms] by blast
  obtain m where m: "parse_mode (c_socket c) = Some m"
    using c(2) by (auto simp: validate_config_None)
  then have "octal_value 0 (so_mode (c_socket c)) = Some m"
    by (simp add: parse_mode_def split: if_splits)
  from octal_value_bound [OF this] have "m < 2 ^ 32" by simp
  moreover have "[] \<notin> {c_http_addr c, so_path (c_socket c), st_path (c_store c), c_plugins_dir c}"
    by (simp add: c(1) apply_config_env_def apply_config_defaults_def override_def or_default_def default_events_socket_def)
  moreover have "c_webhook_secret c = getenv ''BYTESWARM_WEBHOOK_SECRET''"
    using b by (simp add: c(1) apply_config_env_def apply_config_defaults_def override_def)
  moreover have "getenv ''BYTESWARM_NATS_URL'' \<noteq> [] \<longrightarrow> c_nats_url c = getenv ''BYTESWARM_NATS_URL''"
    "getenv ''BYTESWARM_EVENTS_SOCKET_MODE'' \<noteq> [] \<longrightarrow>
       so_mode (c_socket c) = getenv ''BYTESWARM_EVENTS_SOCKET_MODE''"
    by (simp_all add: c(1) apply_config_env_def override_def)
  moreover have "st_driver (c_store c) = ''sqlite''" "validate_from 0 [] (c_plugins c) = None"
    "c_plugin_timeout c = [] \<or> (\<exists>d > 0. parse_duration (c_plugin_timeout c) = Some d)"
    using c(2) unfolding validate_config_None validate_plugins_def by simp_all
  ultimately show ?thesis
    using m validate_from_None [of 0 "[]" "c_plugins c"] by simp
qed

theorem load_config_fails_closed_witness:
  "\<exists>c. load_config (\<lambda>_. None) (\<lambda>_. None) (\<lambda>_. []) [] = Inr c \<and> c_webhook_secret c = []"
proof -
  obtain c where l: "load_config (\<lambda>_. None) (\<lambda>_. None) (\<lambda>_. []) [] = Inr c" using default_config_loads by blast
  from load_config_fails_closed [OF l] l show ?thesis by blast
qed

end
