(* ===== verification/Socket.thy ===== *)
theory Socket
  imports App_Config "HOL-Library.Word"
begin

unbundle bit_operations_syntax

text \<open>
  Binding the operator's Unix socket, \<^verbatim>\<open>cmd/byteswarm/socket.go\<close>.  The state is what the
  code acts on: the directory entry at the socket path and the process's umask.  The answers of
  the system calls are a parameter, with what a failed \<^verbatim>\<open>net.Listen\<close> leaves behind (it binds,
  which creates the file, before it listens); permissions are the bits of a 32-bit
  \<^verbatim>\<open>os.FileMode\<close>.  Nothing else changes the path meanwhile.
\<close>

datatype entry =
    Absent
  | Other_file
  | Socket_file (perm: "32 word") (owner_group: "int option")

record sock_state =
  at_path :: entry
  umask :: "32 word"

record sock_env =
  lstat_ok :: bool
  remove_ok :: bool
  listen_ok :: bool
  bind_left :: bool
  group_gid :: "string \<Rightarrow> string option"
  chown_ok :: bool
  chmod_ok :: bool

datatype sock_error =
    Bad_mode | Not_a_socket | Stale_not_removed | Stat_failed | Listen_failed
  | No_such_group | Gid_not_numeric | Chown_failed | Chmod_failed

text \<open>The permission bits the kernel gets from a \<^verbatim>\<open>FileMode\<close> (\<^verbatim>\<open>syscallMode\<close>).\<close>

definition syscall_mode :: "32 word \<Rightarrow> 32 word" where
  "syscall_mode m =
     (m AND 0x1FF) OR (if bit m 23 then 0x800 else 0) OR (if bit m 22 then 0x400 else 0)
       OR (if bit m 20 then 0x200 else 0)"

text \<open>\<^verbatim>\<open>strconv.Atoi\<close> on a group ID.\<close>

fun digits_value :: "int \<Rightarrow> string \<Rightarrow> int option" where
  "digits_value acc [] = Some acc"
| "digits_value acc (c # cs) =
     (if is_digit c then digits_value (10 * acc + (of_char c - 48)) cs else None)"

definition atoi :: "string \<Rightarrow> int option" where
  "atoi s =
     (let (neg, ds) = (case s of c # cs \<Rightarrow> (if c = CHR ''-'' then (True, cs) else if c = CHR ''+'' then (False, cs) else (False, s))
                       | [] \<Rightarrow> (False, []))
      in if ds = [] then None
         else case digits_value 0 ds of
           None \<Rightarrow> None
         | Some n \<Rightarrow>
             let v = (if neg then - n else n) in
             if - (2 ^ 63) \<le> v \<and> v < 2 ^ 63 then Some v else None)"

definition lookup_gid :: "sock_env \<Rightarrow> string \<Rightarrow> sock_error + int" where
  "lookup_gid env grp =
     (case group_gid env grp of
        None \<Rightarrow> Inl No_such_group
      | Some g \<Rightarrow> (case atoi g of None \<Rightarrow> Inl Gid_not_numeric | Some n \<Rightarrow> Inr n))"

text \<open>Closing the listener unlinks the socket.\<close>

definition close_listener :: "sock_state \<Rightarrow> sock_state" where
  "close_listener s = s\<lparr>at_path := Absent\<rparr>"

text \<open>The three phases of \<^verbatim>\<open>listenUnix\<close>: clearing the path, listening, setting the access.\<close>

definition clear_path :: "sock_env \<Rightarrow> sock_state \<Rightarrow> sock_error option \<times> sock_state" where
  "clear_path env s =
     (if \<not> lstat_ok env then (Some Stat_failed, s)
      else case at_path s of
        Absent \<Rightarrow> (None, s)
      | Other_file \<Rightarrow> (Some Not_a_socket, s)
      | Socket_file m g \<Rightarrow>
          if remove_ok env then (None, s\<lparr>at_path := Absent\<rparr>) else (Some Stale_not_removed, s))"

definition listen_restricted :: "sock_env \<Rightarrow> sock_state \<Rightarrow> bool \<times> sock_state list" where
  "listen_restricted env s =
     (let old = umask s;
          s1 = s\<lparr>umask := 0x7F\<rparr>;
          s2 = (if listen_ok env \<or> bind_left env then s1\<lparr>at_path := Socket_file (0x1FF AND NOT (umask s1)) None\<rparr> else s1);
          s3 = s2\<lparr>umask := old\<rparr>
      in (listen_ok env, [s1, s2, s3]))"

definition set_group :: "int \<Rightarrow> sock_state \<Rightarrow> sock_state" where
  "set_group gid s =
     (case at_path s of Socket_file m g \<Rightarrow> s\<lparr>at_path := Socket_file m (Some gid)\<rparr> | _ \<Rightarrow> s)"

definition set_perm :: "32 word \<Rightarrow> sock_state \<Rightarrow> sock_state" where
  "set_perm m s =
     (case at_path s of Socket_file m0 g \<Rightarrow> s\<lparr>at_path := Socket_file m g\<rparr> | _ \<Rightarrow> s)"

definition set_access :: "sock_env \<Rightarrow> socket_config \<Rightarrow> 32 word \<Rightarrow> sock_state \<Rightarrow> sock_error option \<times> sock_state list" where
  "set_access env cfg mode s =
     (let chmod = (\<lambda>t. if chmod_ok env then (None, [set_perm (syscall_mode mode) t])
                       else (Some Chmod_failed, [close_listener t]))
      in if so_group cfg = [] then chmod s
         else case lookup_gid env (so_group cfg) of
           Inl err \<Rightarrow> (Some err, [close_listener s])
         | Inr gid \<Rightarrow>
             if \<not> chown_ok env then (Some Chown_failed, [close_listener s])
             else (case chmod (set_group gid s) of (err, ts) \<Rightarrow> (err, set_group gid s # ts)))"

text \<open>The error, and every state the socket passes through, the last one being the result.\<close>

definition listen_unix :: "sock_env \<Rightarrow> socket_config \<Rightarrow> sock_state \<Rightarrow> sock_error option \<times> sock_state list" where
  "listen_unix env cfg s =
     (case parse_mode cfg of
        None \<Rightarrow> (Some Bad_mode, [s])
      | Some m \<Rightarrow>
          (case clear_path env s of
             (Some err, s1) \<Rightarrow> (Some err, [s, s1])
           | (None, s1) \<Rightarrow>
               (case listen_restricted env s1 of
                  (False, ss) \<Rightarrow> (Some Listen_failed, [s, s1] @ ss)
                | (True, ss) \<Rightarrow>
                    (case set_access env cfg (of_nat m) (last ss) of
                       (err, ts) \<Rightarrow> (err, [s, s1] @ ss @ ts)))))"

section \<open>Facts\<close>

definition group_or_other :: "32 word \<Rightarrow> bool" where
  "group_or_other m = (m AND 0x3F \<noteq> 0)"

lemma restricted_perm: "0x1FF AND NOT (0x7F :: 32 word) = 0x180"
  by simp

lemma restricted_private: "\<not> group_or_other (0x180)"
  by (simp add: group_or_other_def)

text \<open>What a state of the setup may show: a private socket, and the old umask unless listening.\<close>

definition private_entry :: "entry \<Rightarrow> bool" where
  "private_entry e = (case e of Socket_file m g \<Rightarrow> \<not> group_or_other m | _ \<Rightarrow> True)"

lemma clear_path_None:
  "clear_path env s = (None, s1) \<Longrightarrow> at_path s1 = Absent \<and> umask s1 = umask s \<and> at_path s \<noteq> Other_file"
  by (auto simp: clear_path_def split: if_splits entry.splits)

lemma clear_path_Some:
  "clear_path env s = (Some err, s1) \<Longrightarrow> s1 = s \<and> err \<in> {Stat_failed, Not_a_socket, Stale_not_removed}"
  by (auto simp: clear_path_def split: if_splits entry.splits)

lemma listen_restricted_states:
  assumes "listen_restricted env s = (ok, ss)" and "at_path s = Absent"
  shows "ok = listen_ok env" and "ss \<noteq> []" and "umask (last ss) = umask s"
    and "list_all (\<lambda>t. private_entry (at_path t)) ss"
    and "ok \<Longrightarrow> at_path (last ss) = Socket_file 0x180 None"
    and "\<not> ok \<Longrightarrow> at_path (last ss) = (if bind_left env then Socket_file 0x180 None else Absent)"
  using assms by (auto simp: listen_restricted_def Let_def private_entry_def restricted_private)

lemma set_access_states:
  assumes "set_access env cfg mode s = (err, ts)" and "at_path s = Socket_file p None"
    and "\<not> group_or_other p"
  shows "ts \<noteq> []" and "list_all (\<lambda>t. private_entry (at_path t)) (butlast ts)"
    and "\<forall>t \<in> set ts. umask t = umask s"
    and "err \<noteq> None \<Longrightarrow> at_path (last ts) = Absent \<and> err \<in> Some ` {No_such_group, Gid_not_numeric, Chown_failed, Chmod_failed}"
    and "err = None \<Longrightarrow> \<exists>g. at_path (last ts) = Socket_file (syscall_mode mode) g \<and>
      (if so_group cfg = [] then g = None else \<exists>gid. g = Some gid \<and> lookup_gid env (so_group cfg) = Inr gid)"
  using assms
  by (auto simp: set_access_def Let_def set_group_def set_perm_def close_listener_def private_entry_def
      lookup_gid_def split: if_splits sum.splits option.splits)

section \<open>Properties\<close>

text \<open>
  C20: the socket is never reachable by group or others before it is set up, whatever an earlier
  run left at the path.  The states before the last one are first the state at the start, with a
  stale socket of any mode if there is one, and then, once that is removed, only states in
  which a socket gives no access beyond its owner.  On success the socket has
  exactly the configured permissions and, if one is configured, the group.  When a step after
  listening fails no socket is left; when \<^verbatim>\<open>net.Listen\<close> itself fails, at most its own private
  file is; when a step before that fails nothing has changed.  A file
  that is not a socket is never touched, and the umask is restored.
\<close>

theorem listen_unix_least_access:
  assumes "listen_unix env cfg s = (err, states)"
  shows "(\<exists>untouched own. butlast states = untouched @ own \<and> list_all (\<lambda>t. t = s) untouched \<and>
      list_all (\<lambda>t. private_entry (at_path t)) own) \<and>
    umask (last states) = umask s \<and>
    (at_path s = Other_file \<longrightarrow> err \<noteq> None \<and> list_all (\<lambda>t. t = s) states) \<and>
    (case err of
       None \<Rightarrow> (\<exists>m g. parse_mode cfg = Some m \<and>
         at_path (last states) = Socket_file (syscall_mode (of_nat m)) g \<and>
         (if so_group cfg = [] then g = None else \<exists>gid. g = Some gid \<and> lookup_gid env (so_group cfg) = Inr gid))
     | Some cause \<Rightarrow>
         if cause \<in> {Bad_mode, Stat_failed, Not_a_socket, Stale_not_removed} then list_all (\<lambda>t. t = s) states
         else if cause = Listen_failed then at_path (last states) \<in> {Absent, Socket_file 0x180 None}
         else at_path (last states) = Absent)"
proof (cases "parse_mode cfg")
  case None
  then have "err = Some Bad_mode" "states = [s]" using assms by (simp_all add: listen_unix_def)
  then show ?thesis by simp
next
  case (Some m)
  obtain e s1 where c: "clear_path env s = (e, s1)" by fastforce
  show ?thesis
  proof (cases e)
    case (Some err1)
    then have "err = Some err1" "states = [s, s]" "err1 \<in> {Stat_failed, Not_a_socket, Stale_not_removed}"
      using assms c clear_path_Some [of env s err1 s1] \<open>parse_mode cfg = Some m\<close>
      by (auto simp: listen_unix_def)
    then show ?thesis by (auto intro: exI [of _ "[s]"])
  next
    case None
    then have s1: "at_path s1 = Absent" "umask s1 = umask s" "at_path s \<noteq> Other_file"
      using clear_path_None c by blast+
    obtain ok ss where l: "listen_restricted env s1 = (ok, ss)" by fastforce
    note lr = listen_restricted_states [OF l s1(1)]
    have b: "list_all (\<lambda>t. private_entry (at_path t)) (s1 # ss)"
      using lr(4) s1(1) by (simp add: private_entry_def)
    show ?thesis
    proof (cases ok)
      case False
      then have r: "err = Some Listen_failed" "states = [s] @ s1 # ss"
        using assms(1) Some None c l by (simp_all add: listen_unix_def)
      have "butlast states = [s] @ butlast (s1 # ss)" "list_all (\<lambda>t. private_entry (at_path t)) (butlast (s1 # ss))"
        using r(2) b by (auto simp: list_all_iff dest: in_set_butlastD)
      then have w: "\<exists>untouched own. butlast states = untouched @ own \<and> list_all (\<lambda>t. t = s) untouched \<and>
          list_all (\<lambda>t. private_entry (at_path t)) own"
        by (intro exI [of _ "[s]"] exI [of _ "butlast (s1 # ss)"]) simp
      have "last states = last ss" using r(2) lr(2) by simp
      then show ?thesis
        using w r(1) lr(3) lr(6) [OF False] s1(2,3) by simp
    next
      case True
      obtain e2 ts where a: "set_access env cfg (of_nat m) (last ss) = (e2, ts)" by fastforce
      note ac = set_access_states [OF a lr(5) [OF True] restricted_private]
      have r: "err = e2" "states = ([s] @ s1 # ss) @ ts"
        using assms(1) Some None True c l a by (simp_all add: listen_unix_def)
      have "butlast states = [s] @ (s1 # ss @ butlast ts)" and last: "last states = last ts"
        using ac(1) unfolding r by (simp_all add: butlast_append)
      moreover have "list_all (\<lambda>t. private_entry (at_path t)) (s1 # ss @ butlast ts)"
        using b ac(2) by simp
      ultimately have w: "\<exists>untouched own. butlast states = untouched @ own \<and> list_all (\<lambda>t. t = s) untouched \<and>
          list_all (\<lambda>t. private_entry (at_path t)) own"
        by (intro exI [of _ "[s]"] exI [of _ "s1 # ss @ butlast ts"]) simp
      have u: "umask (last states) = umask s"
        using ac(1,3) lr(3) s1(2) last by simp
      show ?thesis
      proof (cases e2)
        case None
        with ac(5) w u last r(1) s1(3) \<open>parse_mode cfg = Some m\<close> show ?thesis by simp
      next
        case (Some cause)
        with ac(4) w u last r(1) s1(3) show ?thesis by auto
      qed
    qed
  qed
qed

theorem listen_unix_least_access_witness:
  "\<exists>states. listen_unix \<lparr>lstat_ok = True, remove_ok = True, listen_ok = True, bind_left = False,
       group_gid = (\<lambda>_. Some ''42''), chown_ok = True, chmod_ok = True\<rparr>
       \<lparr>so_path = ''s'', so_mode = ''0660'', so_group = ''ops''\<rparr>
       \<lparr>at_path = Socket_file 0x1B0 (Some 42), umask = 0x12\<rparr> = (None, states) \<and>
     at_path (last states) = Socket_file 0x1B0 (Some 42) \<and> umask (last states) = 0x12"
proof -
  let ?env = "\<lparr>lstat_ok = True, remove_ok = True, listen_ok = True, bind_left = False, group_gid = (\<lambda>_. Some ''42''),
       chown_ok = True, chmod_ok = True\<rparr>"
  let ?cfg = "\<lparr>so_path = ''s'', so_mode = ''0660'', so_group = ''ops''\<rparr>"
  let ?s = "\<lparr>at_path = Socket_file 0x1B0 (Some 42), umask = 0x12\<rparr>"
  obtain err states where l: "listen_unix ?env ?cfg ?s = (err, states)" by fastforce
  have m: "parse_mode ?cfg = Some 0x1B0"
    by (simp add: parse_mode_def Let_def less_eq_char_def)
  have g: "lookup_gid ?env ''ops'' = Inr 42" by (simp add: lookup_gid_def atoi_def is_digit_def)
  have y: "syscall_mode 0x1B0 = 0x1B0" by (simp add: syscall_mode_def)
  from m g have "fst (listen_unix ?env ?cfg ?s) = None"
    by (simp add: listen_unix_def clear_path_def listen_restricted_def set_access_def case_prod_beta)
  with l have l: "listen_unix ?env ?cfg ?s = (None, states)" by simp
  from listen_unix_least_access [OF l] l m g y show ?thesis by simp
qed

end
