(* ===== verification/Main_App.thy ===== *)
theory Main_App
  imports Plugin_Host Server App_Config Socket
begin

text \<open>
  The composition root \<^verbatim>\<open>cmd/byteswarm/main.go\<close> with its built-in consumer, and
  the business-event emitter \<^verbatim>\<open>internal/telemetry\<close>.
\<close>

section \<open>No bus\<close>

datatype no_bus_error = Bus_not_configured

definition no_bus_publish :: "event \<Rightarrow> message list \<Rightarrow> no_bus_error option \<times> message list" where
  "no_bus_publish e ms = (Some Bus_not_configured, ms)"

interpretation no_bus: publisher no_bus_publish stream_events carried
  by unfold_locales (simp_all add: no_bus_publish_def)

section \<open>The built-in consumer\<close>

definition example_event_type :: string where "example_event_type = ''demo''"

text \<open>It logs type, workflow and payload size, never the payload.\<close>

definition example_log :: "event \<Rightarrow> string \<times> string \<times> nat" where
  "example_log e = (ev_type e, ev_workflow e, length (ev_payload e))"

definition example_consumer :: "((string \<times> string \<times> nat) \<Rightarrow> 's \<Rightarrow> 's) \<Rightarrow> ('s, 'err) consumer" where
  "example_consumer emit =
     \<lparr>con_declared = None, con_go_type = ''*main.exampleConsumer'', con_handle = (\<lambda>e s. (Returned None, emit (example_log e) s))\<rparr>"

section \<open>Start-up\<close>

text \<open>
  \<^verbatim>\<open>main\<close> up to serving, composed of the definitions that model its parts: the actions in
  order, and what is served, if anything.  The argument is what is outside the program: the
  environment and files, the duration parser, the broker, the database, the script compiler and
  engine, the socket's directory.  \<^verbatim>\<open>Registry_launched\<close>, \<^verbatim>\<open>Serving_events\<close> and
  \<^verbatim>\<open>Serving_control\<close> are the points where \<^verbatim>\<open>main\<close> starts a goroutine and goes on; that the
  registry subscribed, or that the TCP address could be bound, is not known then.  Their failures
  are the life events \<^verbatim>\<open>Registry_returned\<close>, \<^verbatim>\<open>Events_returned\<close> and \<^verbatim>\<open>Control_returned\<close> below.
\<close>

record 'prog startup_env =
  se_getenv :: "string \<Rightarrow> string"
  se_read_file :: "string \<Rightarrow> bytes option"
  se_parse_duration :: "string \<Rightarrow> int option"
  se_nats :: nats_env
  se_store_open :: bool
  se_store_reply :: db_reply
  se_store_db :: "table option"
  se_compile :: "string \<Rightarrow> bytes \<Rightarrow> 'prog option"
  se_engine :: "'prog engine"
  se_calls :: "call_env list"
  se_sock :: sock_env
  se_sock_state :: sock_state

datatype startup_action =
    Config_loaded
  | Bus_connected
  | Store_opened
  | Plugins_registered nat
  | Registry_launched string
  | Socket_bound
  | Serving_events
  | Serving_control string

type_synonym app_registry = "(world, script_error) registry"

text \<open>The script timeout main gives the host: the configured one when it is set.\<close>

definition host_timeout :: "(string \<Rightarrow> int option) \<Rightarrow> app_config \<Rightarrow> plugin_host \<Rightarrow> plugin_host" where
  "host_timeout parse_duration cfg h =
     (case plugin_timeout parse_duration cfg of
        Inr (Some d) \<Rightarrow> h\<lparr>h_timeout := d\<rparr>
      | _ \<Rightarrow> h)"

definition built_in_registry :: app_registry where
  "built_in_registry = register (example_consumer (\<lambda>_ w. w)) [example_event_type] new_registry"

definition server_bus_config :: "app_config \<Rightarrow> bus_config" where
  "server_bus_config cfg =
     \<lparr>cfg_url = c_nats_url cfg, cfg_stream = [], cfg_name = ''byteswarm-server'', cfg_timeout = 0, cfg_ack_wait = 0, cfg_options = []\<rparr>"

text \<open>The wiring of bus, registry and plugins; no registry is an exit with an error.\<close>

definition wire_plugins :: "'prog startup_env \<Rightarrow> app_config \<Rightarrow> startup_action list \<times> app_registry option" where
  "wire_plugins env cfg =
     (if length (c_plugins cfg) = 0 then ([], Some built_in_registry)
      else case new_sqlite (se_store_open env) (se_store_reply env) (se_store_db env) of
        (_, Inl err, _) \<Rightarrow> ([], None)
      | (_, Inr t, _) \<Rightarrow>
          (case register_plugins (as_consumer (se_engine env) (se_calls env)) (se_read_file env) (se_compile env)
              (host_timeout (se_parse_duration env) cfg (new_host (c_exec_allow cfg) (c_plugins_dir cfg)))
              (c_plugins cfg) built_in_registry of
             (Inl err, _) \<Rightarrow> ([Store_opened], None)
           | (Inr n, reg) \<Rightarrow> ([Store_opened, Plugins_registered n], Some reg)))"

definition start_bus :: "'prog startup_env \<Rightarrow> app_config \<Rightarrow> startup_action list \<times> app_registry option" where
  "start_bus env cfg =
     (case new_bus (se_nats env) (server_bus_config cfg) True of
        (_, Inl err) \<Rightarrow> ([], None)
      | (_, Inr b) \<Rightarrow>
          (case wire_plugins env cfg of
             (a, None) \<Rightarrow> (Bus_connected # a, None)
           | (a, Some reg) \<Rightarrow> (Bus_connected # a @ [Registry_launched (c_workflow cfg)], Some reg)))"

record served =
  sv_config :: app_config
  sv_registry :: "app_registry option"
  sv_auth :: shared_secret

definition startup :: "'prog startup_env \<Rightarrow> startup_action list \<times> served option" where
  "startup env =
     (case load_config (se_parse_duration env) (se_read_file env) (se_getenv env)
         (se_getenv env ''BYTESWARM_CONFIG'') of
        Inl err \<Rightarrow> ([], None)
      | Inr cfg \<Rightarrow>
          (case (if c_nats_url cfg \<noteq> [] then apsnd (map_option Some) (start_bus env cfg) else ([], Some None)) of
             (a, None) \<Rightarrow> (Config_loaded # a, None)
           | (a, Some reg) \<Rightarrow>
               (case listen_unix (se_sock env) (c_socket cfg) (se_sock_state env) of
                  (Some err, _) \<Rightarrow> (Config_loaded # a, None)
                | (None, _) \<Rightarrow>
                    (Config_loaded # a @ [Socket_bound, Serving_events, Serving_control (c_http_addr cfg)],
                     Some \<lparr>sv_config = cfg, sv_registry = reg,
                       sv_auth = new_shared_secret (c_webhook_secret cfg)\<rparr>))))"

section \<open>Serving and shutting down\<close>

text \<open>
  What happens while the process serves: a signal, or a goroutine that ends.  The error of a
  server's serving loop is the one after its own shutdown, or another.  Only some of these stop
  the process.
\<close>

datatype serve_error = Server_closed | Serving_failed string

datatype life_event =
    Signalled
  | Registry_returned "(string \<times> bus_error) option"
  | Events_returned "serve_error option"
  | Control_returned "serve_error option"

fun stops :: "life_event \<Rightarrow> bool" where
  "stops Signalled = True"
| "stops (Registry_returned r) = (r \<noteq> None)"
| "stops (Events_returned r) = (r \<noteq> None \<and> r \<noteq> Some Server_closed)"
| "stops (Control_returned r) = (r \<noteq> None \<and> r \<noteq> Some Server_closed)"

datatype life_action = Shutdown_events | Shutdown_control | Store_closed | Bus_closed

text \<open>The deferred calls, last one first: a return runs them, an exit does not.\<close>

definition deferred :: "app_config \<Rightarrow> life_action list" where
  "deferred cfg =
     (if c_nats_url cfg = [] then []
      else (if length (c_plugins cfg) > 0 then [Store_closed] else []) @ [Bus_closed])"

text \<open>
  \<^verbatim>\<open>main\<close> after the listeners: the wait, then both shutdowns under one deadline, whether
  or not the first failed.  The arguments are the errors of the two shutdowns.
\<close>

definition serve_until_done ::
  "app_config \<Rightarrow> life_event list \<Rightarrow> string option \<Rightarrow> string option \<Rightarrow> (life_action list \<times> nat) option" where
  "serve_until_done cfg events events_err control_err =
     (case List.find stops events of
        None \<Rightarrow> None
      | Some _ \<Rightarrow>
          let shut = [Shutdown_events, Shutdown_control] in
          if events_err \<noteq> None \<or> control_err \<noteq> None then Some (shut, 1)
          else Some (shut @ deferred cfg, 0))"

text \<open>The whole of \<^verbatim>\<open>main\<close>: the start, the end, and the exit status once it has ended.\<close>

definition server_main ::
  "'prog startup_env \<Rightarrow> life_event list \<Rightarrow> string option \<Rightarrow> string option \<Rightarrow>
   startup_action list \<times> life_action list \<times> nat option" where
  "server_main env events events_err control_err =
     (case startup env of
        (actions, None) \<Rightarrow> (actions, [], Some 1)
      | (actions, Some sv) \<Rightarrow>
          (case serve_until_done (sv_config sv) events events_err control_err of
             None \<Rightarrow> (actions, [], None)
           | Some (life, status) \<Rightarrow> (actions, life, Some status)))"

section \<open>Business events\<close>

datatype emit_error = Empty_event_name

record 'v business_line =
  bl_event :: string
  bl_attrs :: "(string \<times> 'v) list"

definition emit :: "string \<Rightarrow> (string \<times> 'v) list \<Rightarrow> 'v business_line list \<Rightarrow> emit_error option \<times> 'v business_line list" where
  "emit name attrs sink =
     (if name = [] then (Some Empty_event_name, sink)
      else (None, sink @ [\<lparr>bl_event = name, bl_attrs = attrs\<rparr>]))"

section \<open>Facts\<close>

lemma built_in_targets:
  "t \<noteq> broadcast_type \<Longrightarrow>
     targets built_in_registry t = (if t = ''demo'' then [example_consumer (\<lambda>_ w. w)] else [])"
  by (simp add: built_in_registry_def register_def targets_def new_registry_def example_event_type_def)

lemma fold_register_targets:
  "targets (fold (\<lambda>sc. register (wrap sc) (sc_events sc)) scs r) t =
     targets r t @ (if t = broadcast_type then map wrap scs
       else concat (map (\<lambda>sc. replicate (count_list (sc_events sc) t) (wrap sc)) scs))"
  by (induction scs arbitrary: r) (simp_all add: targets_register)

lemma wire_plugins_Some:
  assumes "wire_plugins env cfg = (a, Some reg)"
  shows "\<exists>scs. list_all2 (\<lambda>p sc. sc_name sc = p_name p \<and> sc_events sc = p_events p \<and> sc_prog sc \<noteq> None)
      (c_plugins cfg) scs \<and>
    (\<forall>t. targets reg t = targets built_in_registry t @
      (let wrap = as_consumer (se_engine env) (se_calls env) in
       if t = broadcast_type then map wrap scs
       else concat (map (\<lambda>sc. replicate (count_list (sc_events sc) t) (wrap sc)) scs))) \<and>
    a = (if c_plugins cfg = [] then [] else [Store_opened, Plugins_registered (length (c_plugins cfg))])"
proof (cases "c_plugins cfg = []")
  case True
  then show ?thesis using assms by (intro exI [of _ "[]"]) (auto simp: wire_plugins_def Let_def)
next
  case False
  let ?wrap = "as_consumer (se_engine env) (se_calls env)"
  let ?h = "host_timeout (se_parse_duration env) cfg (new_host (c_exec_allow cfg) (c_plugins_dir cfg))"
  obtain n where n: "register_plugins ?wrap (se_read_file env) (se_compile env) ?h (c_plugins cfg) built_in_registry
      = (Inr n, reg)" "a = [Store_opened, Plugins_registered n]"
    using assms False by (auto simp: wire_plugins_def split: prod.splits sum.splits)
  then obtain scs where scs: "host_load_all (se_read_file env) (se_compile env) ?h (c_plugins cfg) = Inr scs"
    "n = length scs" "reg = fold (\<lambda>sc. register (?wrap sc) (sc_events sc)) scs built_in_registry"
    by (auto simp: register_plugins_def split: sum.splits)
  have l: "list_all2 (\<lambda>p sc. sc_name sc = p_name p \<and> sc_events sc = p_events p \<and> sc_prog sc \<noteq> None)
      (c_plugins cfg) scs"
    using host_load_all_Inr [OF scs(1)] by (rule list_all2_mono) (auto dest: host_load_Inr)
  then have "length scs = length (c_plugins cfg)" by (simp add: list_all2_lengthD)
  then show ?thesis
    using l False n(2) scs(2,3) fold_register_targets [of ?wrap scs built_in_registry]
    by (intro exI [of _ scs]) (simp add: Let_def)
qed

lemma start_bus_Some:
  assumes "start_bus env cfg = (a, Some reg)"
  shows "\<exists>b. wire_plugins env cfg = (b, Some reg) \<and> a = Bus_connected # b @ [Registry_launched (c_workflow cfg)]"
  using assms by (auto simp: start_bus_def split: prod.splits sum.splits option.splits)

lemma wire_plugins_actions: "set (fst (wire_plugins env cfg)) \<subseteq> insert Store_opened (range Plugins_registered)"
  by (auto simp: wire_plugins_def split: prod.splits sum.splits)

lemma start_bus_actions:
  "set (fst (start_bus env cfg)) \<subseteq>
     insert Bus_connected (insert Store_opened (range Plugins_registered \<union> range Registry_launched))"
  using wire_plugins_actions [of env cfg]
  by (auto simp: start_bus_def split: prod.splits sum.splits option.splits)

lemma no_bus_never_accepts:
  "rs_status (fst (accept_event no_bus_publish body empty_response ms)) \<noteq> Some 202 \<and>
   snd (accept_event no_bus_publish body empty_response ms) = ms"
  using accept_event_cases [of empty_response body no_bus_publish ms]
  by (auto simp: empty_response_def no_bus_publish_def)

lemma startup_cases:
  "(\<exists>actions. startup env = (actions, None) \<and> Serving_events \<notin> set actions \<and>
      (\<forall>addr. Serving_control addr \<notin> set actions)) \<or>
   (\<exists>cfg a reg. startup env = (Config_loaded # a @ [Socket_bound, Serving_events, Serving_control (c_http_addr cfg)],
        Some \<lparr>sv_config = cfg, sv_registry = reg, sv_auth = new_shared_secret (c_webhook_secret cfg)\<rparr>) \<and>
      (if c_nats_url cfg = [] then a = [] \<and> reg = None
       else \<exists>reg0. reg = Some reg0 \<and> start_bus env cfg = (a, Some reg0)))"
proof (cases "load_config (se_parse_duration env) (se_read_file env) (se_getenv env)
    (se_getenv env ''BYTESWARM_CONFIG'')")
  case (Inr cfg)
  obtain a r where w: "(if c_nats_url cfg \<noteq> [] then apsnd (map_option Some) (start_bus env cfg)
      else ([], Some None)) = (a, r)" by fastforce
  then have acts: "set a \<subseteq> insert Bus_connected (insert Store_opened (range Plugins_registered \<union> range Registry_launched))"
    using start_bus_actions [of env cfg] by (cases "start_bus env cfg") (auto split: if_splits)
  obtain err states where l: "listen_unix (se_sock env) (c_socket cfg) (se_sock_state env) = (err, states)"
    by fastforce
  show ?thesis
  proof (cases "r = None \<or> err \<noteq> None")
    case True
    have "startup env = (Config_loaded # a, None)"
      using True by (cases r; cases err) (simp_all add: startup_def Inr w l)
    then show ?thesis using acts by auto
  next
    case False
    then obtain reg where reg: "r = Some reg" "err = None" by (cases r) auto
    have "startup env = (Config_loaded # a @ [Socket_bound, Serving_events, Serving_control (c_http_addr cfg)],
        Some \<lparr>sv_config = cfg, sv_registry = reg, sv_auth = new_shared_secret (c_webhook_secret cfg)\<rparr>)"
      by (simp add: startup_def Inr w l reg)
    moreover have "if c_nats_url cfg = [] then a = [] \<and> reg = None
       else \<exists>reg0. reg = Some reg0 \<and> start_bus env cfg = (a, Some reg0)"
      using w reg by (cases "start_bus env cfg") (auto split: if_splits)
    ultimately show ?thesis by blast
  qed
qed (simp add: startup_def)

lemma started_actions:
  assumes "start_bus env cfg = (a, Some reg)"
  shows "Bus_connected \<in> set a \<and> (Store_opened \<in> set a \<longleftrightarrow> c_plugins cfg \<noteq> [])"
proof -
  obtain b where b: "wire_plugins env cfg = (b, Some reg)" "a = Bus_connected # b @ [Registry_launched (c_workflow cfg)]"
    using start_bus_Some [OF assms] by blast
  then have "b = (if c_plugins cfg = [] then [] else [Store_opened, Plugins_registered (length (c_plugins cfg))])"
    using wire_plugins_Some [OF b(1)] by blast
  with b(2) show ?thesis by simp
qed

section \<open>Properties\<close>

text \<open>
  C31: the server starts fail closed.  It launches its ingresses only when the configuration was
  loaded and the socket bound and, when a broker is configured, the bus was connected, every
  declared plugin loaded and registered and the run of the registry launched, in that order; then
  the registry holds the built-in consumer and exactly the declared plugins under their own event
  types.  If one of the steps that \<^verbatim>\<open>main\<close> waits for failed, nothing is served; the run of the
  registry goes on in the background, and when it fails to subscribe the server that may serve by then
  is stopped (C32).  Without a broker there is no bus, no plugin and no registry,
  every submitted event is refused and nothing is stored.
\<close>

theorem startup_fails_closed:
  "(case startup env of
      (actions, None) \<Rightarrow> Serving_events \<notin> set actions \<and> (\<forall>addr. Serving_control addr \<notin> set actions)
    | (actions, Some sv) \<Rightarrow> (\<exists>wiring. actions = Config_loaded # wiring @
          [Socket_bound, Serving_events, Serving_control (c_http_addr (sv_config sv))] \<and>
        sv_auth sv = new_shared_secret (c_webhook_secret (sv_config sv)) \<and>
        (if c_nats_url (sv_config sv) = [] then wiring = [] \<and> sv_registry sv = None
         else \<exists>reg scs. sv_registry sv = Some reg \<and>
           wiring = Bus_connected #
             (if c_plugins (sv_config sv) = [] then []
              else [Store_opened, Plugins_registered (length (c_plugins (sv_config sv)))]) @
             [Registry_launched (c_workflow (sv_config sv))] \<and>
           list_all2 (\<lambda>p sc. sc_name sc = p_name p \<and> sc_events sc = p_events p \<and> sc_prog sc \<noteq> None)
             (c_plugins (sv_config sv)) scs \<and>
           (\<forall>t. targets reg t = targets built_in_registry t @
             (let wrap = as_consumer (se_engine env) (se_calls env) in
              if t = broadcast_type then map wrap scs
              else concat (map (\<lambda>sc. replicate (count_list (sc_events sc) t) (wrap sc)) scs)))))) \<and>
   rs_status (fst (accept_event no_bus_publish body empty_response ms)) \<noteq> Some 202 \<and>
   snd (accept_event no_bus_publish body empty_response ms) = ms"
  (is "?start \<and> _")
proof (intro conjI)
  show "rs_status (fst (accept_event no_bus_publish body empty_response ms)) \<noteq> Some 202"
    "snd (accept_event no_bus_publish body empty_response ms) = ms"
    using no_bus_never_accepts by blast+
  show ?start
    using startup_cases [of env]
  proof (elim disjE exE conjE)
    fix cfg a reg
    assume s: "startup env = (Config_loaded # a @ [Socket_bound, Serving_events, Serving_control (c_http_addr cfg)],
        Some \<lparr>sv_config = cfg, sv_registry = reg, sv_auth = new_shared_secret (c_webhook_secret cfg)\<rparr>)"
      and b: "if c_nats_url cfg = [] then a = [] \<and> reg = None
        else \<exists>reg0. reg = Some reg0 \<and> start_bus env cfg = (a, Some reg0)"
    show ?thesis
    proof (cases "c_nats_url cfg = []")
      case False
      then obtain reg0 where reg: "reg = Some reg0" "start_bus env cfg = (a, Some reg0)" using b by auto
      then obtain c where c: "wire_plugins env cfg = (c, Some reg0)"
        "a = Bus_connected # c @ [Registry_launched (c_workflow cfg)]"
        using start_bus_Some by blast
      from wire_plugins_Some [OF c(1)] show ?thesis
        unfolding s using False reg(1) c(2)
        by (simp only: prod.case option.case served.select_convs if_False) blast
    qed (use s b in simp)
  qed simp
qed

text \<open>
  C32: the server stops orderly.  It serves until a signal, a failed registry or a failed ingress;
  then both ingresses are shut down, the second also when the first one fails.  If both were, it
  closes exactly what it had opened, the plugins' store before the bus, and exits with status 0,
  whatever the cause was, a failed ingress included; otherwise, and when it never served, it
  exits with status 1 and closes nothing.
\<close>

theorem server_stops_orderly:
  "case server_main env events events_err control_err of (actions, life, status) \<Rightarrow>
     (status = None \<longleftrightarrow> Serving_events \<in> set actions \<and> list_all (\<lambda>e. \<not> stops e) events) \<and>
     (if Serving_events \<notin> set actions \<or> status = None then life = []
      else \<exists>closed. life = [Shutdown_events, Shutdown_control] @ closed \<and>
        (if events_err = None \<and> control_err = None then status = Some 0 \<and>
           closed = filter (\<lambda>c. c = Store_closed \<and> Store_opened \<in> set actions \<or> c = Bus_closed \<and> Bus_connected \<in> set actions)
             [Store_closed, Bus_closed]
         else status = Some 1 \<and> closed = [])) \<and>
     (Serving_events \<notin> set actions \<longrightarrow> status = Some 1)"
  using startup_cases [of env]
proof (elim disjE exE conjE)
  fix cfg a reg
  assume s: "startup env = (Config_loaded # a @ [Socket_bound, Serving_events, Serving_control (c_http_addr cfg)],
      Some \<lparr>sv_config = cfg, sv_registry = reg, sv_auth = new_shared_secret (c_webhook_secret cfg)\<rparr>)"
    and b: "if c_nats_url cfg = [] then a = [] \<and> reg = None
      else \<exists>reg0. reg = Some reg0 \<and> start_bus env cfg = (a, Some reg0)"
  let ?actions = "Config_loaded # a @ [Socket_bound, Serving_events, Serving_control (c_http_addr cfg)]"
  have opened: "Bus_connected \<in> set a \<longleftrightarrow> c_nats_url cfg \<noteq> []"
      "Store_opened \<in> set a \<longleftrightarrow> c_nats_url cfg \<noteq> [] \<and> c_plugins cfg \<noteq> []"
    using b started_actions [of env cfg a] by (auto split: if_splits)
  have closed: "deferred cfg =
      filter (\<lambda>c. c = Store_closed \<and> Store_opened \<in> set ?actions \<or> c = Bus_closed \<and> Bus_connected \<in> set ?actions)
        [Store_closed, Bus_closed]"
    by (simp add: opened deferred_def)
  show ?thesis
  proof (cases "List.find stops events")
    case None
    then have "list_all (\<lambda>e. \<not> stops e) events" by (simp add: find_None_iff list_all_iff)
    moreover have "server_main env events events_err control_err = (?actions, [], None)"
      by (simp add: server_main_def s serve_until_done_def None)
    ultimately show ?thesis by simp
  next
    case (Some x)
    then have "\<not> list_all (\<lambda>e. \<not> stops e) events" by (auto simp: find_Some_iff list_all_iff)
    moreover have "server_main env events events_err control_err = (?actions,
        if events_err \<noteq> None \<or> control_err \<noteq> None then [Shutdown_events, Shutdown_control]
        else [Shutdown_events, Shutdown_control] @ deferred cfg,
        Some (if events_err \<noteq> None \<or> control_err \<noteq> None then 1 else 0))"
      by (simp add: server_main_def s serve_until_done_def Some Let_def)
    ultimately show ?thesis unfolding closed by (cases "events_err = None \<and> control_err = None") auto
  qed
qed (simp add: server_main_def)

definition broker_startup :: "unit startup_env" where
  "broker_startup =
     \<lparr>se_getenv = (\<lambda>n. if n = ''BYTESWARM_NATS_URL'' then ''nats://b'' else []),
      se_read_file = (\<lambda>_. None), se_parse_duration = (\<lambda>_. None),
      se_nats = \<lparr>connect_ok = True, jetstream_ok = True, info_reply = Stream_found, add_ok = True\<rparr>,
      se_store_open = True, se_store_reply = Done_ok, se_store_db = None,
      se_compile = (\<lambda>_ _. None), se_engine = (\<lambda>_ _ _. Act_return), se_calls = [],
      se_sock = \<lparr>lstat_ok = True, remove_ok = True, listen_ok = True, bind_left = False, group_gid = (\<lambda>_. None),
        chown_ok = True, chmod_ok = True\<rparr>,
      se_sock_state = \<lparr>at_path = Absent, umask = 0x12\<rparr>\<rparr>"

lemma broker_startup_serves:
  "fst (startup broker_startup) =
     [Config_loaded, Bus_connected, Registry_launched [], Socket_bound, Serving_events, Serving_control '':8080'']"
proof -
  let ?getenv = "\<lambda>n. if n = ''BYTESWARM_NATS_URL'' then ''nats://b'' else []"
  let ?c = "apply_config_env ?getenv (apply_config_defaults zero_config)"
  note config_defs = apply_config_env_def apply_config_defaults_def default_events_socket_def zero_config_def
    override_def or_default_def
  have "validate_config (\<lambda>_. None) ?c = None"
    by (simp add: validate_config_def plugin_timeout_def config_defs parse_mode_def validate_plugins_def
        Let_def less_eq_char_def)
  then have l: "load_config (\<lambda>_. None) (\<lambda>_. None) ?getenv [] = Inr ?c"
    by (simp add: load_config_def)
  have c: "c_nats_url ?c = ''nats://b''" "c_plugins ?c = []" "c_workflow ?c = []" "c_http_addr ?c = '':8080''"
    "c_socket ?c = \<lparr>so_path = ''byteswarm-events.sock'', so_mode = ''0660'', so_group = []\<rparr>"
    by (simp_all add: config_defs)
  have b: "fst (start_bus broker_startup ?c) = [Bus_connected, Registry_launched []] \<and> snd (start_bus broker_startup ?c) \<noteq> None"
    by (simp add: start_bus_def broker_startup_def new_bus_def ensure_stream_def server_bus_config_def wire_plugins_def
        c Let_def default_stream_def)
  have s: "fst (listen_unix (se_sock broker_startup) (c_socket ?c) (se_sock_state broker_startup)) = None"
    by (simp add: c broker_startup_def listen_unix_def parse_mode_def Let_def less_eq_char_def clear_path_def
        listen_restricted_def set_access_def lookup_gid_def atoi_def is_digit_def case_prod_beta)
  obtain reg where b: "start_bus broker_startup ?c = ([Bus_connected, Registry_launched []], Some reg)"
    using b by (cases "start_bus broker_startup ?c") auto
  obtain states where s: "listen_unix (se_sock broker_startup) (c_socket ?c) (se_sock_state broker_startup) = (None, states)"
    using s by (metis prod.collapse)
  have e: "se_getenv broker_startup = ?getenv" "se_read_file broker_startup = (\<lambda>_. None)"
    "se_parse_duration broker_startup = (\<lambda>_. None)"
    by (simp_all add: broker_startup_def)
  show ?thesis by (simp add: startup_def e l b s c(1,4))
qed

theorem server_stops_orderly_witness:
  "snd (server_main broker_startup [Events_returned (Some Server_closed),
       Control_returned (Some (Serving_failed ''address already in use''))] None None) =
     ([Shutdown_events, Shutdown_control, Bus_closed], Some 0)"
proof -
  let ?events = "[Events_returned (Some Server_closed), Control_returned (Some (Serving_failed ''address already in use''))]"
  obtain actions life status where m: "server_main broker_startup ?events None None = (actions, life, status)"
    by (cases "server_main broker_startup ?events None None") auto
  then have "actions = fst (startup broker_startup)"
    by (auto simp: server_main_def split: prod.splits option.splits)
  then have "Serving_events \<in> set actions" "Bus_connected \<in> set actions" "Store_opened \<notin> set actions"
    by (simp_all add: broker_startup_serves)
  with server_stops_orderly [where env = broker_startup and events = ?events and events_err = None and control_err = None] show ?thesis
    unfolding m by (auto split: if_splits)
qed

end
