(* ===== verification/Spec2Isabelle.thy ===== *)
theory Spec2Isabelle
  imports Concurrent_Runs Replay Job_Process Ctl Main_App
begin

text \<open>
  A verification development for byteswarm, an event-driven automation server written in Go:
  operators and authenticated callers submit events over HTTP, the server publishes them to a
  NATS JetStream stream, and durable subscriptions deliver them to consumers, which are Go code
  or JavaScript plugins with four mediated capabilities.  Plugins may start long jobs in a
  separate runner, which reports back by submitting events.

  \<^bold>\<open>How the parts interact.\<close>  \<^verbatim>\<open>cmd/byteswarm/main.go\<close> loads the configuration, connects the
  bus, registers the built-in consumer and the plugins, binds the events socket and serves until
  a signal or a failure of one of its parts, when it shuts down the ingresses and closes.  A
  request runs through the middleware of \<^verbatim>\<open>internal/server\<close> and, on the TCP side, through the
  authenticator; an acceptable event goes to \<^verbatim>\<open>JetStreamBus.Publish\<close>.  The broker calls the
  callback of \<^verbatim>\<open>JetStreamBus.Subscribe\<close>, which calls \<^verbatim>\<open>Registry.dispatch\<close>, which calls the
  consumers; a \<^verbatim>\<open>ScriptConsumer\<close> runs its script, whose host calls reach the store, the file
  system, processes and the bus again.  The command line tool and the job runner reach the server
  through \<^verbatim>\<open>internal/eventclient\<close>.

  \<^bold>\<open>Theories and sources.\<close>
    \<^item> \<^verbatim>\<open>Prelude\<close>: bytes, splitting and joining, character sets.  \<^verbatim>\<open>Paths\<close>, \<^verbatim>\<open>Utf8\<close>,
      \<^verbatim>\<open>Base64\<close>, \<^verbatim>\<open>Json\<close>, \<^verbatim>\<open>Json_Decode\<close>, \<^verbatim>\<open>Json_Roundtrip\<close>, \<^verbatim>\<open>Json_Compact\<close>, \<^verbatim>\<open>Flags\<close>:
      what the program uses of Go's \<^verbatim>\<open>path/filepath\<close>, \<^verbatim>\<open>unicode/utf8\<close>, \<^verbatim>\<open>encoding/base64\<close>,
      \<^verbatim>\<open>encoding/json\<close> and \<^verbatim>\<open>flag\<close>, with the round trips (what the encoder writes, the scanner
      reads; a compacted text still parses, to the same value; flags that were written parse).
    \<^item> \<^verbatim>\<open>Event\<close>: \<^verbatim>\<open>internal/event\<close>, \<^verbatim>\<open>internal/workflow\<close>.  \<^verbatim>\<open>Ports\<close>: the ports
      \<^verbatim>\<open>event.Publisher\<close> and \<^verbatim>\<open>consumer.Repository\<close> as locales.
    \<^item> \<^verbatim>\<open>Wire\<close>, \<^verbatim>\<open>Bus\<close>, \<^verbatim>\<open>Delivery\<close>, \<^verbatim>\<open>Replay\<close>: \<^verbatim>\<open>internal/bus/bus.go\<close>; the wire form, subjects
      and durable names; connecting, publishing and the callback; at-least-once delivery as a
      step relation; the replay loop.
    \<^item> \<^verbatim>\<open>Inbox\<close>: what an instance promises about its messages.  \<^verbatim>\<open>System\<close>: an instance and its
      broker as one step relation over \<^verbatim>\<open>Bus\<close>, \<^verbatim>\<open>Delivery\<close> and \<^verbatim>\<open>Registry\<close>, with whole deliveries as
      steps.  \<^verbatim>\<open>Concurrent\<close>, \<^verbatim>\<open>Concurrent_Runs\<close>: the same instance with one queue and one thread
      for each subscription, as the NATS client runs the callbacks, and single calls of consumers
      as steps; copies of a message may be queued while its callback runs on an earlier one.
    \<^item> \<^verbatim>\<open>Registry\<close>: \<^verbatim>\<open>internal/consumer/registry.go\<close>.  \<^verbatim>\<open>Store\<close>: \<^verbatim>\<open>internal/store\<close>.
    \<^item> \<^verbatim>\<open>Auth\<close>: \<^verbatim>\<open>internal/auth\<close>.  \<^verbatim>\<open>Server\<close>: \<^verbatim>\<open>internal/server\<close>.  \<^verbatim>\<open>Event_Client\<close>:
      \<^verbatim>\<open>internal/eventclient\<close>.
    \<^item> \<^verbatim>\<open>Pathguard\<close>: \<^verbatim>\<open>internal/pathguard\<close>.  \<^verbatim>\<open>Plugin_Store\<close>, \<^verbatim>\<open>Plugin_Publish\<close>,
      \<^verbatim>\<open>Plugin_Exec\<close>, \<^verbatim>\<open>Plugin_FS\<close>, \<^verbatim>\<open>Plugin_Loader\<close>, \<^verbatim>\<open>Plugin_Host\<close>: the files of
      \<^verbatim>\<open>internal/plugin\<close> of these names, and \<^verbatim>\<open>cmd/byteswarm/plugins.go\<close>.
    \<^item> \<^verbatim>\<open>Job_Host\<close>, \<^verbatim>\<open>Job_Runner\<close>: \<^verbatim>\<open>internal/jobrunner\<close>.
      \<^verbatim>\<open>Job_Reports\<close>: a job run against the server and the bus.  \<^verbatim>\<open>Job_Cli\<close>, \<^verbatim>\<open>Job_Process\<close>:
      \<^verbatim>\<open>cmd/byteswarm-job\<close>, its command line and the process with its exit status.
      \<^verbatim>\<open>Ctl\<close>: \<^verbatim>\<open>cmd/byteswarmctl\<close>.
    \<^item> \<^verbatim>\<open>App_Config\<close>, \<^verbatim>\<open>Socket\<close>, \<^verbatim>\<open>Main_App\<close>: \<^verbatim>\<open>config.go\<close>, \<^verbatim>\<open>socket.go\<close>, \<^verbatim>\<open>main.go\<close> and the
      built-in consumer of \<^verbatim>\<open>cmd/byteswarm\<close>, with \<^verbatim>\<open>internal/telemetry\<close>.

  \<^bold>\<open>State and errors.\<close>  A Go struct is a record, an error result an option or the left of a sum,
  with one constructor for each error the code makes.  State is passed explicitly: the stream is
  the list of stored messages, a store is a map from keys to rows, a registry the association of
  types with consumers, a script's world its table, stream, started command lines, and the files it
  read and wrote.  Where the order or absence of outside calls matters they are part of the result
  (\<^verbatim>\<open>nats_call\<close>, \<^verbatim>\<open>syscall\<close>, \<^verbatim>\<open>startup_action\<close>, the states of the socket).

  \<^bold>\<open>Interfaces.\<close>  \<^verbatim>\<open>publisher\<close> is interpreted on the bus, on the refusing publisher that is
  used without a broker, and on the script capability over any publisher; \<^verbatim>\<open>repository\<close> on both
  database adapters and, through the sublocale \<^verbatim>\<open>namespaced\<close>, on a plugin's view of one;
  \<^verbatim>\<open>path_resolver\<close> on the path guard, the plugin sandbox and the job resolver;
  \<^verbatim>\<open>authenticator\<close> on the shared secret; \<^verbatim>\<open>job_publishing\<close> (what a run does to a publisher's
  state) on a server that records bodies and on the program's own server and bus.  The broker's
  promise in \<^verbatim>\<open>Delivery\<close> is the named hypothesis \<^verbatim>\<open>broker_contract\<close>, and that of
  ordered reading in \<^verbatim>\<open>Replay\<close> is \<^verbatim>\<open>stream_ordered\<close>; both have a concrete instance.  What NATS documents of subject matching is
  \<^verbatim>\<open>nats_matching\<close>, with a matcher on tokens as its instance.

  \<^bold>\<open>What the lemma groups show.\<close>  Ingress: which requests are accepted, authenticated and
  published, and what every other one is answered.  Transport: an event survives encoding, its
  subject determines it, and the stream grows by at most that event.  Delivery: no event is
  given up before it was handled or tried five times, and delivery ends.  System and
  Concurrent: with several subscriptions, any interleaving, crashes and outside changes, an
  instance refines an inbox whose messages only move forward (the type \<^verbatim>\<open>status\<close> is ordered by
  progress), the copies of a message are settled oldest first, every run of its threads is finite, an instance at rest has settled everything, and
  no consumer is called more often than the redelivery bound allows.  A dispatch that is not
  interrupted is a run of one thread, so what holds of the threads holds of whole deliveries.  Registry and scopes: which
  consumers get an event, how often, and that they do not disturb each other.  Plugins and jobs:
  whatever the script, its effects stay within its capabilities, with the exception that a script
  can append flags to the command line of the job runner.  Clients: what the command line tool is
  given is what the server stores and what the consumers get, what was published is what a replay
  reads, server and tools agree on their socket, a detached job is the job that was asked for, and
  a failing job is visible in its exit status and, when it is reported before its deadline, on the stream.  Start and stop: nothing is served
  after a failure, and the end closes what the start opened.

  \<^bold>\<open>Bounds.\<close>  The JSON scanner has fuel, one unit for each call; twice the length of the text
  plus one is enough (\<^verbatim>\<open>scan_fuel\<close> in \<^verbatim>\<open>Json_Roundtrip\<close>), and values nest at most 10000 deep as
  in the library.  The replay loop is a partial function and is shown to return on an ordered
  stream.  A script is a strategy run against a list of environments, one for each host call; the
  length of the list is the time it has, and when the list is used up the watchdog interrupts
  it.  Every statement about scripts holds for all such lists.  A job also has a deadline: each
  environment and the clock of the run say how much time has passed, and what is published, started
  or requested after the deadline is on an expired context.

  \<^bold>\<open>Parameters.\<close>  The NATS client and broker, the databases, the operating system (files,
  processes, users and groups), the JavaScript engine, the HTTP transport, the clock, and
  \<^verbatim>\<open>time.ParseDuration\<close> are arguments of the definitions that use them.

  \<^bold>\<open>Not modelled.\<close>  Log lines apart from those a property mentions, usage texts, the locks
  (interleaving is modelled between the calls of consumers, and a call is one step of the shared
  state, which outside changes may alter between any two steps), time (the broker may send the next
  copy of an unsettled message at any moment), deliveries between the end of serving and the closing
  of the connection, the routing of unknown paths in \<^verbatim>\<open>net/http\<close>, and number conversion beyond the text of a JSON
  number and its range.
\<close>

section \<open>From a published event to its consumers\<close>

text \<open>
  C1: a published event reaches its consumers.  An event whose publish succeeded, with any steps
  of publishers, broker, crashes and environment before and after, and dispatches that interleave
  call by call, is once the threads have come to rest either handled, for an instance that serves
  its workflow (or all, or a broadcast): in one delivery every consumer registered for its type
  was called on exactly that event and returned no error; or on each subscription that gets it
  all five attempts were made.
\<close>

theorem published_event_reaches_consumers:
  assumes "broker_contract (in_redeliver env)" and "nats_matching (in_matches env)"
    and "in_subjects env = subjects_for_workflow workflow" and "wild_free workflow"
    and "workflow = [] \<or> workflow_token e = workflow \<or> ev_type e = broadcast_type"
    and "concurrent_reached env c" and "bus_publish reply e (cs_stream c) = (None, ms)"
    and "valid_utf8 (ev_workflow e)"
    and "(concurrent_step env)\<^sup>*\<^sup>* (c\<lparr>cs_stream := ms\<rparr>) c'" and "idle env c'"
  shows "(\<exists>i. selects env (cs_stream c') i (length (cs_stream c))) \<and>
    (\<forall>i. selects env (cs_stream c') i (length (cs_stream c)) \<longrightarrow>
      (let cs = targets (in_registry env) (ev_type e) in
        (\<exists>n. \<forall>j < length cs. Call i (length (cs_stream c)) n j None \<in> set (cs_calls c') \<and>
          (\<exists>s. fst (con_handle (cs ! j) e s) = Returned None)) \<or>
        sl_attempts (cs_slots c' i (length (cs_stream c))) = 5))"
  using concurrent_event_settled [OF assms] .

theorem published_event_reaches_consumers_witness:
  "\<exists>c'. (concurrent_step demo_env)\<^sup>*\<^sup>* ((started 0)\<lparr>cs_stream := [demo_message]\<rparr>) c' \<and>
     (\<exists>i. selects demo_env (cs_stream c') i 0 \<and>
       ((\<exists>n. Call i 0 n 0 None \<in> set (cs_calls c')) \<or> sl_attempts (cs_slots c' i 0) = 5))"
proof -
  let ?start = "started 0 :: (nat, unit) concurrent" and ?c = "(started 0 :: (nat, unit) concurrent)\<lparr>cs_stream := [demo_message]\<rparr>"
  have p: "bus_publish Pub_acked demo_event (cs_stream ?start) = (None, [demo_message])"
    using demo_publish by (simp add: started_def)
  have inv: "concurrent_inv demo_env ?c"
    by (rule concurrent_inv_step [OF demo_contract concurrent_inv_started concurrent_step.publish [OF p]])
  obtain c' where d: "(thread_step demo_env)\<^sup>*\<^sup>* ?c c'" and rest: "idle demo_env c'"
    using runs_stop [OF demo_contract inv] by blast
  have steps: "(concurrent_step demo_env)\<^sup>*\<^sup>* ?c c'" by (rule thread_steps_concurrent [OF d])
  have n: "nats_matching (in_matches demo_env)" by (simp add: demo_env_def nats_matching_tokens)
  have w: "in_subjects demo_env = subjects_for_workflow ''w''" by (simp add: demo_env_def)
  have c: "wild_free ''w''" "valid_utf8 (ev_workflow demo_event)"
    "''w'' = [] \<or> workflow_token demo_event = ''w'' \<or> ev_type demo_event = broadcast_type" by code_simp+
  have k: "length (cs_stream ?start) = 0" by (simp add: started_def)
  have l: "length (targets (in_registry demo_env) (ev_type demo_event)) = 1"
    by (simp add: demo_env_def demo_event_def targets_def register_def new_registry_def broadcast_type_def)
  from published_event_reaches_consumers [OF demo_contract n w c(1,3) concurrent_reached.init p c(2) steps rest]
  have "\<exists>i. selects demo_env (cs_stream c') i 0 \<and> ((\<exists>n. Call i 0 n 0 None \<in> set (cs_calls c')) \<or> sl_attempts (cs_slots c' i 0) = 5)"
    unfolding k Let_def l by (meson less_one)
  with steps show ?thesis by blast
qed

text \<open>
  C5: from the operator's command line to the consumers.  When \<^verbatim>\<open>byteswarmctl publish\<close>, run
  against the program's own server and bus, exits with status 0, the event it named is, once the
  threads of an instance that serves its workflow have come to rest, handled by every consumer
  registered for its type, with the workflow that was given and the payload compacted, or all
  five attempts were made on each subscription that gets it.
\<close>

theorem operator_event_reaches_consumers:
  assumes "dial socket = serve_events (bus_publish reply)"
    and "valid_utf8 ty" and "valid_utf8 workflow" and "room_for payload"
    and "\<And>body. client_body \<lparr>ce_type = ty, ce_workflow = workflow, ce_payload = payload\<rparr> = Some body \<Longrightarrow>
      length body \<le> max_event_body_bytes"
    and "e = \<lparr>ev_type = ty, ev_workflow = workflow, ev_payload = compact_text False False payload\<rparr>"
    and "broker_contract (in_redeliver env)" and "nats_matching (in_matches env)"
    and "in_subjects env = subjects_for_workflow scope" and "wild_free scope"
    and "scope = [] \<or> workflow_token e = scope \<or> ty = broadcast_type"
    and "concurrent_reached env c"
    and "ctl_main version getenv dial (''publish'' # write_flags
      [(''type'', ty), (''workflow'', workflow), (''payload'', payload), (''socket'', socket)]) (cs_stream c) = (0, out, ms)"
    and "(concurrent_step env)\<^sup>*\<^sup>* (c\<lparr>cs_stream := ms\<rparr>) c'" and "idle env c'"
  shows "(\<exists>i. selects env (cs_stream c') i (length (cs_stream c))) \<and>
    (\<forall>i. selects env (cs_stream c') i (length (cs_stream c)) \<longrightarrow>
      (\<exists>n. \<forall>j < length (targets (in_registry env) ty). Call i (length (cs_stream c)) n j None \<in> set (cs_calls c') \<and>
        (\<exists>s. fst (con_handle (targets (in_registry env) ty ! j) e s) = Returned None)) \<or>
      sl_attempts (cs_slots c' i (length (cs_stream c))) = 5)"
proof -
  have p: "bus_publish reply e (cs_stream c) = (None, ms)"
    using ctl_run_stores [where dial = dial and socket = socket and payload = payload and ms = "cs_stream c"
        and version = version and getenv = getenv, OF assms(1-5)] assms(6,13)
    by (auto simp: ctl_main_def split: prod.splits sum.splits)
  have e: "valid_utf8 (ev_workflow e)" "scope = [] \<or> workflow_token e = scope \<or> ev_type e = broadcast_type" "ev_type e = ty"
    using assms(3,6,11) by simp_all
  show ?thesis
    using concurrent_event_settled [OF assms(7-10) e(2) assms(12) p e(1) assms(14,15)] by (simp add: Let_def e(3))
qed

theorem operator_event_reaches_consumers_witness:
  "\<exists>ms c'. ctl_main ''1.0'' (\<lambda>_. []) (\<lambda>sock. serve_events (bus_publish Pub_acked))
      (''publish'' # write_flags [(''type'', ''t''), (''workflow'', ''w''), (''payload'', ''{ }''), (''socket'', ''/s'')]) [] =
      (0, ''accepted: t'' @ [CHR 0x0A], ms) \<and>
    (concurrent_step demo_env)\<^sup>*\<^sup>* ((started 0)\<lparr>cs_stream := ms\<rparr>) c' \<and>
    (\<exists>i. (\<exists>n. Call i 0 n 0 None \<in> set (cs_calls c')) \<or> sl_attempts (cs_slots c' i 0) = 5)"
proof -
  let ?start = "started 0 :: (nat, unit) concurrent"
  let ?e = "\<lparr>ev_type = ''t'', ev_workflow = ''w'', ev_payload = compact_text False False ''{ }''\<rparr>"
  let ?args = "''publish'' # write_flags [(''type'', ''t''), (''workflow'', ''w''), (''payload'', ''{ }''), (''socket'', ''/s'')]"
  let ?dial = "\<lambda>_ :: string. serve_events (bus_publish Pub_acked)"
  have u: "valid_utf8 ''t''" "valid_utf8 ''w''" "room_for ''{ }''" by (code_simp, code_simp, rule empty_object)
  have g: "valid_type ''t''" "good_workflow ''w''" "wild_free ''w''" "parse_json ''{ }'' \<noteq> None"
    by (code_simp, code_simp, code_simp, rule empty_object)
  obtain ms where ms: "ctl_main ''1.0'' (\<lambda>_. []) ?dial ?args [] = (0, ''accepted: t'' @ [CHR 0x0A], ms)"
    and p: "bus_publish Pub_acked ?e [] = (None, ms)"
    using ctl_run_stores [where dial = ?dial and reply = Pub_acked and socket = "''/s''" and getenv = "\<lambda>_. []"
        and version = "''1.0''" and ms = "[]", OF refl u small_body] g
    by (auto simp: ctl_main_def split: prod.splits sum.splits)
  have st: "cs_stream ?start = []" by (simp add: started_def)
  have "concurrent_step demo_env ?start (?start\<lparr>cs_stream := ms\<rparr>)"
    using p st by (intro concurrent_step.publish) simp
  then obtain c' where d: "(thread_step demo_env)\<^sup>*\<^sup>* (?start\<lparr>cs_stream := ms\<rparr>) c'" and rest: "idle demo_env c'"
    using runs_stop [OF demo_contract concurrent_inv_step [OF demo_contract concurrent_inv_started]] by blast
  note steps = thread_steps_concurrent [OF d]
  have n: "nats_matching (in_matches demo_env)" by (simp add: demo_env_def nats_matching_tokens)
  have w: "in_subjects demo_env = subjects_for_workflow ''w''" by (simp add: demo_env_def)
  have sc: "''w'' = [] \<or> workflow_token ?e = ''w'' \<or> ''t'' = broadcast_type" by (simp add: workflow_token_def)
  have l: "length (targets (in_registry demo_env) ''t'') = 1"
    by (simp add: demo_env_def targets_def register_def new_registry_def broadcast_type_def)
  have "ctl_main ''1.0'' (\<lambda>_. []) ?dial ?args (cs_stream ?start) = (0, ''accepted: t'' @ [CHR 0x0A], ms)"
    using ms by (simp only: st)
  from operator_event_reaches_consumers [where dial = ?dial, OF refl u small_body refl demo_contract n w g(3) sc concurrent_reached.init this steps rest]
  show ?thesis using ms steps unfolding st l list.size by blast
qed

section \<open>From a published event to a replay\<close>

text \<open>
  C6: what was published is replayed.  After any publishes that the broker acknowledged, a replay
  of all subjects hands the handler exactly the published events, in the order of publishing,
  each once and with its type, workflow and payload; a replay of one workflow's subjects hands it
  exactly that workflow's events.
\<close>

theorem published_events_replayed:
  assumes "nats_matching matches" and "wild_free workflow"
    and "list_all (\<lambda>e. valid_utf8 (ev_workflow e) \<and> (\<exists>s. subject_for e = Inr s)) es"
  shows "let ms = publish_all es []; h = (\<lambda>e s. (None :: 'err option, f e s)) in
    (\<exists>req unsub. bus_replay (Some (length ms)) True (history_feed (selected matches ''bw.evt.>'' ms)) ''bw.evt.>'' since h s =
       Some (req, unsub, None, fold f es s)) \<and>
    (\<exists>req unsub. bus_replay (Some (length ms)) True
       (history_feed (selected matches (''bw.evt.*.'' @ workflow) ms)) (''bw.evt.*.'' @ workflow) since h s =
       Some (req, unsub, None, fold f (filter (\<lambda>e. workflow_token e = workflow) es) s))"
proof -
  let ?ms = "publish_all es []"
  have pairs: "list_all2 (\<lambda>e m. subject_for e = Inr (msg_subject m) \<and> wire_decode (msg_data m) = Some e) es ?ms"
    using publish_all_messages [OF assms(3), of "[]"] by auto
  have all: "stream_events (filter (\<lambda>m. matches ''bw.evt.>'' (msg_subject m)) ?ms) = es"
    using stream_events_filter [OF pairs, of "matches ''bw.evt.>''" "\<lambda>_. True"] scope_matches(1) [OF assms(1)] by simp
  have own: "stream_events (filter (\<lambda>m. matches (''bw.evt.*.'' @ workflow) (msg_subject m)) ?ms) =
      filter (\<lambda>e. workflow_token e = workflow) es"
    by (rule stream_events_filter [OF pairs]) (rule scope_matches(2) [OF assms(1) _ assms(2)])
  show ?thesis
    using replay_stream [of "''bw.evt.>''" ?ms matches since f s] all
      replay_stream [of "''bw.evt.*.'' @ workflow" ?ms matches since f s] own
    by (simp add: Let_def)
qed

theorem published_events_replayed_witness:
  "\<exists>r1 r2. bus_replay (Some 2) True (history_feed (selected (in_matches demo_env) ''bw.evt.>''
        (publish_all [demo_event, demo_event\<lparr>ev_workflow := ''v''\<rparr>] []))) ''bw.evt.>'' None
      (\<lambda>e es. (None :: unit option, es @ [e])) [] = Some r1 \<and>
    snd (snd (snd r1)) = [demo_event, demo_event\<lparr>ev_workflow := ''v''\<rparr>] \<and>
    bus_replay (Some 2) True (history_feed (selected (in_matches demo_env) ''bw.evt.*.w''
        (publish_all [demo_event, demo_event\<lparr>ev_workflow := ''v''\<rparr>] []))) ''bw.evt.*.w'' None
      (\<lambda>e es. (None :: unit option, es @ [e])) [] = Some r2 \<and>
    snd (snd (snd r2)) = [demo_event]"
proof -
  let ?es = "[demo_event, demo_event\<lparr>ev_workflow := ''v''\<rparr>]"
  have n: "nats_matching (in_matches demo_env)" by (simp add: demo_env_def nats_matching_tokens)
  have w: "wild_free ''w''" "workflow_token demo_event = ''w''" "workflow_token (demo_event\<lparr>ev_workflow := ''v''\<rparr>) \<noteq> ''w''"
    "valid_utf8 (ev_workflow demo_event)" "valid_utf8 (ev_workflow (demo_event\<lparr>ev_workflow := ''v''\<rparr>))" by code_simp+
  have "subject_for demo_event = Inr ''bw.evt.t.w''" "subject_for (demo_event\<lparr>ev_workflow := ''v''\<rparr>) = Inr ''bw.evt.t.v''"
    by code_simp+
  then have ok: "list_all (\<lambda>e. valid_utf8 (ev_workflow e) \<and> (\<exists>s. subject_for e = Inr s)) ?es" using w(4,5) by simp
  have len: "length (publish_all ?es []) = 2"
    using publish_all_messages [OF ok, of "[]"] by (auto dest: list_all2_lengthD)
  show ?thesis
    using published_events_replayed [where ?'err = unit and f = "\<lambda>e es. es @ [e]" and s = "[]" and since = None, OF n w(1) ok]
    unfolding Let_def len by (auto simp: w(2,3))
qed

section \<open>Server and tools on one host\<close>

lemma loaded_socket_path:
  assumes "load_config parse_duration read_file getenv path = Inr cfg"
    and "path = [] \<or> getenv ''BYTESWARM_EVENTS_SOCKET'' \<noteq> [] \<or>
      (\<exists>data b. read_file path = Some data \<and> decode_config data = Some b \<and> so_path (c_socket b) = [])"
  shows "default_socket_path getenv = so_path (c_socket cfg)"
  using loaded_socket [OF assms] by (simp add: default_socket_path_def override_def default_events_socket_def Let_def)

lemma job_socket_as_ctl: "job_socket_path getenv = default_socket_path getenv"
  by (simp add: job_socket_path_def default_socket_path_def)

text \<open>
  C34: the server and its clients agree on the socket.  When the server has no configuration
  file, or one that leaves the socket path out or empty, or the environment names the socket, the
  socket the server binds is the one that \<^verbatim>\<open>byteswarmctl publish\<close> and \<^verbatim>\<open>byteswarm-job run\<close> use in
  the same environment when they are not given one: the command line tool without the flag
  behaves as with the server's socket on the command line.
\<close>

theorem default_sockets_agree:
  assumes "load_config parse_duration read_file getenv path = Inr cfg"
    and "path = [] \<or> getenv ''BYTESWARM_EVENTS_SOCKET'' \<noteq> [] \<or>
      (\<exists>data b. read_file path = Some data \<and> decode_config data = Some b \<and> so_path (c_socket b) = [])"
    and "set (map fst fs) \<subseteq> {''type'', ''workflow'', ''payload''}"
  shows "ctl_main version getenv dial (''publish'' # write_flags fs) s =
      ctl_main version getenv dial (''publish'' # write_flags (fs @ [(''socket'', so_path (c_socket cfg))])) s \<and>
    rf_socket (default_run_flags getenv) = so_path (c_socket cfg)"
proof -
  have cfg: "default_socket_path getenv = so_path (c_socket cfg)" by (rule loaded_socket_path [OF assms(1,2)])
  show ?thesis
    using ctl_run_default_socket [OF assms(3), where getenv = getenv and version = version and dial = dial and s = s] cfg job_socket_as_ctl [of getenv]
    by (simp add: ctl_main_def default_run_flags_def)
qed

theorem default_sockets_agree_witness:
  "\<exists>cfg. load_config (\<lambda>_. None) (\<lambda>_. Some ''{}'') (\<lambda>_. []) ''c.json'' = Inr cfg \<and>
    ctl_main ''1.0'' (\<lambda>_. []) (\<lambda>sock r s. (None, s @ [sock])) [''publish'', ''--type'', ''t''] [] =
    ctl_main ''1.0'' (\<lambda>_. []) (\<lambda>sock r s. (None, s @ [sock]))
      [''publish'', ''--type'', ''t'', ''--socket'', so_path (c_socket cfg)] []"
proof -
  obtain cfg where l: "load_config (\<lambda>_. None) (\<lambda>_. Some ''{}'') (\<lambda>_. []) ''c.json'' = Inr cfg"
    using empty_file_loads(2) by blast
  have "so_path (c_socket zero_config) = []" by (simp add: zero_config_def)
  then have o: "''c.json'' = [] \<or> [] \<noteq> [] \<or>
      (\<exists>data b. Some ''{}'' = Some data \<and> decode_config data = Some b \<and> so_path (c_socket b) = [])"
    using empty_file_loads(1) by blast
  show ?thesis
    using default_sockets_agree [OF l o, where fs = "[(''type'', ''t'')]" and version = "''1.0''"
        and dial = "\<lambda>sock r s. (None, s @ [sock])" and s = "[]"] l
    by (auto simp: long_flag_def)
qed

end
